(* ===== verification/Prelude.thy ===== *)
theory Prelude
  imports Main "HOL-Library.AList" "HOL-Library.Multiset"
begin

text \<open>
  Shared vocabulary of the development: Go error values, Go maps with their
  unspecified iteration order, the 64-bit wrap-around of Go's \<open>int\<close> and
  \<open>int64\<close>, and generic transition systems.

  The collections \<open>go_defs\<close> and \<open>frame\<close> gather, in this order, the defining
  equations of the external calls and the facts that say which part of the state an
  operation leaves alone.
\<close>

named_theorems go_defs \<open>defining equations of the primitive external calls\<close>
named_theorems frame \<open>what an operation leaves unchanged\<close>

section \<open>Errors\<close>

text \<open>
  A Go \<open>error\<close> is one of: an opaque error of the outside world, a network
  time-out (a \<open>*net.OpError\<close> whose \<open>Timeout\<close> method is true), the two API
  server answers the code tests for, an error made by \<open>errors.New\<close> or
  \<open>fmt.Errorf\<close>, or such an error that renders another one into its text.
\<close>

datatype err =
    Ext string
  | NetTimeout
  | NotFound
  | Conflict
  | NewErr string
  | WrapErr string err

type_synonym 'a res = "err + 'a"

definition IsNotFound :: "err \<Rightarrow> bool" where
  "IsNotFound e = (e = NotFound)"

definition IsConflict :: "err \<Rightarrow> bool" where
  "IsConflict e = (e = Conflict)"

definition IsTimeout :: "err \<Rightarrow> bool" where
  "IsTimeout e = (e = NetTimeout)"

section \<open>Machine integers\<close>

text \<open>Go's \<open>int\<close> and \<open>int64\<close> are 64 bits wide on every supported platform of
  the operator; arithmetic on them wraps around.\<close>

definition int64_min :: int where "int64_min = - (2 ^ 63)"
definition int64_max :: int where "int64_max = 2 ^ 63 - 1"

definition in_int64 :: "int \<Rightarrow> bool" where
  "in_int64 x = (int64_min \<le> x \<and> x \<le> int64_max)"

definition wrap64 :: "int \<Rightarrow> int" where
  "wrap64 x = (x + 2 ^ 63) mod 2 ^ 64 - 2 ^ 63"

lemma wrap64_in_int64: "in_int64 (wrap64 x)"
proof -
  have "0 \<le> (x + 2 ^ 63) mod (2 ^ 64)" and "(x + 2 ^ 63) mod (2 ^ 64) < 2 ^ 64"
    by simp_all
  then show ?thesis
    unfolding in_int64_def wrap64_def int64_min_def int64_max_def by simp
qed

lemma wrap64_id: "in_int64 x \<Longrightarrow> wrap64 x = x"
  unfolding in_int64_def wrap64_def int64_min_def int64_max_def
  by (simp add: mod_pos_pos_trivial)

section \<open>Go maps\<close>

text \<open>
  A Go map is an association list with distinct keys: \<open>AList.update\<close> is
  \<open>m[k] = v\<close>, \<open>AList.delete\<close> is \<open>delete(m, k)\<close> and \<open>map_of\<close> is the
  two-valued lookup \<open>v, ok := m[k]\<close>. The interface is the locale below; its
  clients are the loops of the program that fill or empty a map key by key.
\<close>

definition map_ok :: "('k \<times> 'v) list \<Rightarrow> bool" where
  "map_ok m = distinct (map fst m)"

definition map_keys :: "('k \<times> 'v) list \<Rightarrow> 'k list" where
  "map_keys m = map fst m"

locale go_map =
  fixes put :: "'k \<Rightarrow> 'v \<Rightarrow> 'm \<Rightarrow> 'm"
    and del :: "'k \<Rightarrow> 'm \<Rightarrow> 'm"
    and look :: "'m \<Rightarrow> 'k \<Rightarrow> 'v option"
    and ok :: "'m \<Rightarrow> bool"
  assumes look_put: "look (put k v m) k' = (if k' = k then Some v else look m k')"
    and look_del: "look (del k m) k' = (if k' = k then None else look m k')"
    and ok_put: "ok m \<Longrightarrow> ok (put k v m)"
    and ok_del: "ok m \<Longrightarrow> ok (del k m)"
begin

lemma look_put_all:
  "look (fold (\<lambda>k. put k v) ks m) k' = (if k' \<in> set ks then Some v else look m k')"
  by (induction ks arbitrary: m) (auto simp: look_put)

lemma look_del_all:
  "look (fold del ks m) k' = (if k' \<in> set ks then None else look m k')"
  by (induction ks arbitrary: m) (auto simp: look_del)

lemma ok_put_all: "ok m \<Longrightarrow> ok (fold (\<lambda>k. put k v) ks m)"
  by (induction ks arbitrary: m) (auto simp: ok_put)

lemma ok_del_all: "ok m \<Longrightarrow> ok (fold del ks m)"
  by (induction ks arbitrary: m) (auto simp: ok_del)

lemma look_put_pairs:
  "look (fold (\<lambda>(k, v). put k v) kvs m) k' =
     (case map_of (rev kvs) k' of Some v \<Rightarrow> Some v | None \<Rightarrow> look m k')"
  by (induction kvs arbitrary: m)
    (auto simp: look_put map_add_def split: option.splits)

lemma ok_put_pairs: "ok m \<Longrightarrow> ok (fold (\<lambda>(k, v). put k v) kvs m)"
  by (induction kvs arbitrary: m) (auto simp: ok_put)

end

interpretation amap: go_map AList.update AList.delete map_of map_ok
  by unfold_locales
    (auto simp: update_conv delete_conv map_ok_def distinct_update distinct_delete)

lemma map_keys_update [simp]:
  "set (map_keys (AList.update k v m)) = insert k (set (map_keys m))"
  by (simp add: map_keys_def dom_update)

lemma map_keys_delete [simp]:
  "set (map_keys (AList.delete k m)) = set (map_keys m) - {k}"
  by (auto simp: map_keys_def delete_keys)

lemma map_keys_Nil [simp]: "map_keys [] = []"
  by (simp add: map_keys_def)

lemma map_ok_Nil [simp]: "map_ok []"
  by (simp add: map_ok_def)

lemma map_of_keys: "map_of m k = None \<longleftrightarrow> k \<notin> set (map_keys m)"
  by (simp add: map_keys_def map_of_eq_None_iff)

lemma set_update:
  "map_ok m \<Longrightarrow> set (AList.update k v m) = insert (k, v) {p \<in> set m. fst p \<noteq> k}"
  by (induction m) (auto simp: map_ok_def rev_image_eqI)

lemma map_ok_mem: "map_ok m \<Longrightarrow> (k, v) \<in> set m \<longleftrightarrow> map_of m k = Some v"
  by (simp add: map_ok_def)

lemma find_unique:
  assumes "x \<in> set xs" and "P x" and "\<forall>y\<in>set xs. P y \<longrightarrow> y = x"
  shows "find P xs = Some x"
proof (cases "find P xs")
  case None
  with assms(1,2) show ?thesis by (auto simp: find_None_iff)
next
  case (Some y)
  then have "y \<in> set xs" and "P y" by (metis find_Some_iff nth_mem)+
  with assms(3) Some show ?thesis by simp
qed

section \<open>Iteration over a Go map\<close>

text \<open>
  Go leaves the order of \<open>for k := range m\<close> unspecified. The order is a choice of
  the environment: a list of positions, used when it is a permutation of the positions
  of the keys and replaced by the list order otherwise. Every permutation of the keys is
  obtained from some choice, so a statement about all choices is a statement about all
  iteration orders.
\<close>

definition is_perm :: "nat list \<Rightarrow> nat \<Rightarrow> bool" where
  "is_perm p n = (length p = n \<and> distinct p \<and> list_all (\<lambda>i. i < n) p)"

definition range_by :: "nat list \<Rightarrow> 'a list \<Rightarrow> 'a list" where
  "range_by p xs = (if is_perm p (length xs) then map (\<lambda>i. xs ! i) p else xs)"

lemma is_perm_set: "is_perm p n \<Longrightarrow> set p = {..<n}"
  unfolding is_perm_def list_all_iff
  by (intro card_subset_eq) (auto simp: distinct_card)

lemma mset_range_by [simp]: "mset (range_by p xs) = mset xs"
proof (cases "is_perm p (length xs)")
  case True
  then have "mset p = mset [0..<length xs]"
    by (intro set_eq_iff_mset_eq_distinct [THEN iffD1])
      (auto simp: is_perm_set, auto simp: is_perm_def)
  then have "mset (map (\<lambda>i. xs ! i) p) = mset (map (\<lambda>i. xs ! i) [0..<length xs])"
    by (metis mset_map)
  with True show ?thesis by (simp add: range_by_def map_nth)
qed (simp add: range_by_def)

lemma set_range_by [simp]: "set (range_by p xs) = set xs"
  by (metis mset_range_by set_mset_mset)

lemma distinct_range_by [simp]: "distinct (range_by p xs) = distinct xs"
  by (metis mset_range_by mset_eq_imp_distinct_iff)

lemma length_range_by [simp]: "length (range_by p xs) = length xs"
  by (metis mset_range_by size_mset)

lemma range_by_Nil [simp]: "range_by p [] = []"
  by (metis length_0_conv length_range_by)

text \<open>Every order of the keys is the order of some choice.\<close>

lemma range_by_complete:
  assumes "mset ys = mset xs" and "distinct xs" shows "\<exists>p. range_by p xs = ys"
proof -
  let ?at = "\<lambda>y. the_inv_into {..<length xs} ((!) xs) y"
  have inj: "inj_on ((!) xs) {..<length xs}"
    using assms(2) by (auto simp: inj_on_def nth_eq_iff_index_eq)
  have set: "set ys = (!) xs ` {..<length xs}"
    using assms(1) by (metis mset_eq_setD nth_image take_all_iff le_refl lessThan_atLeast0)
  have at: "?at y < length xs" "xs ! ?at y = y" if "y \<in> set ys" for y
    using the_inv_into_into [OF inj, of y "{..<length xs}"] f_the_inv_into_f [OF inj, of y]
      that set by auto
  have "distinct ys" using assms by (metis mset_eq_imp_distinct_iff)
  moreover have "inj_on ?at (set ys)" by (metis (no_types, lifting) at(2) inj_onI)
  ultimately have "is_perm (map ?at ys) (length xs)"
    using at(1) assms(1) by (auto simp: is_perm_def distinct_map list_all_iff)
      (metis size_mset)
  moreover have "map (\<lambda>i. xs ! i) (map ?at ys) = ys"
    using at(2) by (simp add: map_idI)
  ultimately have "range_by (map ?at ys) xs = ys" by (simp add: range_by_def)
  then show ?thesis ..
qed

section \<open>Transition systems\<close>

text \<open>
  A component that runs forever is a set of start states and a labelled step relation; a
  run is the list of its labels, newest first, with the state it ends in. What the
  component promises is an invariant of the states its runs reach, or that a simpler
  system has the same runs.
\<close>

inductive run :: "('s \<Rightarrow> bool) \<Rightarrow> ('l \<Rightarrow> 's \<Rightarrow> 's \<Rightarrow> bool) \<Rightarrow> 'l list \<Rightarrow> 's \<Rightarrow> bool"
  for init :: "'s \<Rightarrow> bool" and step :: "'l \<Rightarrow> 's \<Rightarrow> 's \<Rightarrow> bool" where
  run_init: "init s \<Longrightarrow> run init step [] s"
| run_step: "run init step tr s \<Longrightarrow> step l s t \<Longrightarrow> run init step (l # tr) t"

lemma run_append:
  "run (\<lambda>x. x = s) step tr' t \<Longrightarrow> run init step tr s \<Longrightarrow> run init step (tr' @ tr) t"
  by (induction rule: run.induct) (auto intro: run.run_step)

locale invariant_system =
  fixes init :: "'s \<Rightarrow> bool" and step :: "'l \<Rightarrow> 's \<Rightarrow> 's \<Rightarrow> bool" and inv :: "'s \<Rightarrow> bool"
  assumes inv_init: "init s \<Longrightarrow> inv s"
    and inv_step: "inv s \<Longrightarrow> step l s t \<Longrightarrow> inv t"
begin

lemma inv_run: "run init step tr s \<Longrightarrow> inv s"
  by (induction rule: run.induct) (auto intro: inv_init inv_step)

end

locale simulated_system = invariant_system init step inv
  for init :: "'s \<Rightarrow> bool" and step :: "'l \<Rightarrow> 's \<Rightarrow> 's \<Rightarrow> bool" and inv :: "'s \<Rightarrow> bool" +
  fixes ainit :: "'a \<Rightarrow> bool" and astep :: "'l \<Rightarrow> 'a \<Rightarrow> 'a \<Rightarrow> bool" and abs :: "'s \<Rightarrow> 'a"
  assumes abs_init: "init s \<Longrightarrow> ainit (abs s)"
    and abs_step: "inv s \<Longrightarrow> step l s t \<Longrightarrow> astep l (abs s) (abs t)"
begin

lemma sim_run: "run init step tr s \<Longrightarrow> run ainit astep tr (abs s)"
proof (induction rule: run.induct)
  case (run_init s)
  then show ?case by (blast intro: abs_init run.run_init)
next
  case (run_step tr s l t)
  then have "inv s" by (blast intro: inv_run)
  with run_step show ?case by (blast intro: abs_step run.run_step)
qed

end

text \<open>A component can always finish when, outside its final states, some step brings it nearer
  to one; the measure bounds the number of steps needed.\<close>

locale progress_system = invariant_system init step inv
  for init :: "'s \<Rightarrow> bool" and step :: "'l \<Rightarrow> 's \<Rightarrow> 's \<Rightarrow> bool" and inv :: "'s \<Rightarrow> bool" +
  fixes final :: "'s \<Rightarrow> bool" and todo :: "'s \<Rightarrow> nat"
  assumes progress: "inv s \<Longrightarrow> \<not> final s \<Longrightarrow> \<exists>l t. step l s t \<and> todo t < todo s"
begin

lemma can_finish:
  "run init step tr s \<Longrightarrow> \<exists>tr' t. run init step (tr' @ tr) t \<and> final t \<and> length tr' \<le> todo s"
proof (induction "todo s" arbitrary: tr s rule: less_induct)
  case less
  show ?case
  proof (cases "final s")
    case True
    then show ?thesis using less.prems by (intro exI [of _ "[]"]) auto
  next
    case False
    then obtain l t where t: "step l s t" "todo t < todo s"
      using progress [OF inv_run [OF less.prems]] by blast
    with less obtain tr' u where "run init step (tr' @ l # tr) u" "final u" "length tr' \<le> todo t"
      by (meson run.run_step)
    with t(2) show ?thesis by (intro exI [of _ "tr' @ [l]"]) auto
  qed
qed

end

text \<open>A component must finish, under every schedule, when each of its steps brings it nearer to
  a final state and only final states have no step.\<close>

locale bounded_system =
  fixes step :: "'l \<Rightarrow> 's \<Rightarrow> 's \<Rightarrow> bool" and inv :: "'s \<Rightarrow> bool"
    and final :: "'s \<Rightarrow> bool" and todo :: "'s \<Rightarrow> nat"
  assumes keeps: "inv s \<Longrightarrow> step l s t \<Longrightarrow> inv t"
    and decreases: "inv s \<Longrightarrow> step l s t \<Longrightarrow> todo t < todo s"
    and goes_on: "inv s \<Longrightarrow> \<not> final s \<Longrightarrow> \<exists>l t. step l s t"
begin

lemma every_run:
  "run (\<lambda>x. x = s) step tr t \<Longrightarrow> inv s \<Longrightarrow>
     inv t \<and> length tr + todo t \<le> todo s \<and> (final t \<or> (\<exists>l u. step l t u))"
proof (induction rule: run.induct)
  case (run_step tr t l u)
  then show ?case using keeps [of t l u] decreases [of t l u] goes_on [of u] by fastforce
qed (use goes_on in auto)

end

sublocale bounded_system \<subseteq> progress_system inv step inv final todo
  using keeps decreases goes_on by unfold_locales blast+

end
