(* ===== verification/GoStrings.thy ===== *)
theory GoStrings
  imports Prelude "HOL-Library.Sublist"
begin

text \<open>
  The functions of Go's \<open>strings\<close>, \<open>strconv\<close> and \<open>path/filepath\<close> packages that
  the program calls, on strings as lists of bytes (\<open>char\<close>). Separators are single
  bytes, as in every call of the program. White space is the ASCII white space: the
  strings of the program (interface names, ports, labels, log lines) are ASCII.
\<close>

definition nl :: string where "nl = [CHR 0x0A]"

section \<open>Splitting, joining, searching\<close>

fun Split :: "string \<Rightarrow> char \<Rightarrow> string list" where
  "Split [] c = [[]]"
| "Split (x # xs) c =
     (if x = c then [] # Split xs c
      else case Split xs c of [] \<Rightarrow> [[x]] | y # ys \<Rightarrow> (x # y) # ys)"

fun Join :: "string list \<Rightarrow> string \<Rightarrow> string" where
  "Join [] sep = []"
| "Join [x] sep = x"
| "Join (x # y # xs) sep = x @ sep @ Join (y # xs) sep"

fun HasPrefix :: "string \<Rightarrow> string \<Rightarrow> bool" where
  "HasPrefix s [] = True"
| "HasPrefix [] (p # ps) = False"
| "HasPrefix (x # xs) (p # ps) = (x = p \<and> HasPrefix xs ps)"

fun Contains :: "string \<Rightarrow> string \<Rightarrow> bool" where
  "Contains [] sub = (sub = [])"
| "Contains (x # xs) sub = (HasPrefix (x # xs) sub \<or> Contains xs sub)"

text \<open>\<open>strings.Index\<close> for a one-byte needle: \<open>-1\<close> when it is absent.\<close>

fun strings_Index :: "string \<Rightarrow> char \<Rightarrow> int" where
  "strings_Index [] c = -1"
| "strings_Index (x # xs) c =
     (if x = c then 0 else if strings_Index xs c = -1 then -1 else strings_Index xs c + 1)"

text \<open>\<open>strings.Replace(s, old, "", -1)\<close> for a non-empty \<open>old\<close>.\<close>

fun RemoveAll :: "string \<Rightarrow> string \<Rightarrow> string" where
  "RemoveAll old [] = []"
| "RemoveAll old (x # xs) =
     (if old \<noteq> [] \<and> HasPrefix (x # xs) old
      then RemoveAll old (drop (length old - 1) xs)
      else x # RemoveAll old xs)"

definition isSpace :: "char \<Rightarrow> bool" where
  "isSpace c = (c \<in> {CHR '' '', CHR 0x09, CHR 0x0A, CHR 0x0B, CHR 0x0C, CHR 0x0D})"

definition TrimSpace :: "string \<Rightarrow> string" where
  "TrimSpace s = rev (dropWhile isSpace (rev (dropWhile isSpace s)))"

text \<open>The end of a line for \<open>bufio\<close>: one carriage return before the line feed is not part of
  it.\<close>

definition dropCR :: "string \<Rightarrow> string" where
  "dropCR l = (if l \<noteq> [] \<and> last l = CHR 0x0D then butlast l else l)"

section \<open>Decimal numbers\<close>

definition digits :: string where "digits = ''0123456789''"

definition digit_char :: "nat \<Rightarrow> char" where
  "digit_char n = digits ! n"

definition digit_val :: "char \<Rightarrow> nat option" where
  "digit_val c = map_of (zip digits [0..<10]) c"

fun show_nat :: "nat \<Rightarrow> string" where
  "show_nat n = (if n < 10 then [digit_char n] else show_nat (n div 10) @ [digit_char (n mod 10)])"

declare show_nat.simps [simp del]

definition Itoa :: "int \<Rightarrow> string" where
  "Itoa i = (if i < 0 then CHR ''-'' # show_nat (nat (- i)) else show_nat (nat i))"

fun read_digits :: "nat \<Rightarrow> string \<Rightarrow> nat option" where
  "read_digits n [] = Some n"
| "read_digits n (c # cs) =
     (case digit_val c of None \<Rightarrow> None | Some d \<Rightarrow> read_digits (10 * n + d) cs)"

text \<open>\<open>strconv.Atoi\<close>: an optional sign, at least one digit, a value of 64 bits.\<close>

definition read_unsigned :: "string \<Rightarrow> nat option" where
  "read_unsigned s = (if s = [] then None else read_digits 0 s)"

definition Atoi :: "string \<Rightarrow> int res" where
  "Atoi s =
     (let neg = (s \<noteq> [] \<and> hd s = CHR ''-'');
          signed = (s \<noteq> [] \<and> (hd s = CHR ''-'' \<or> hd s = CHR ''+''))
      in case read_unsigned (if signed then tl s else s) of
           None \<Rightarrow> Inl (NewErr ''invalid syntax'')
         | Some n \<Rightarrow>
             (let v = (if neg then - int n else int n)
              in if in_int64 v then Inr v else Inl (NewErr ''value out of range'')))"

section \<open>Paths\<close>

text \<open>\<open>filepath.Clean\<close>, component by component: a stack of kept components, newest
  first.\<close>

fun clean_stack :: "bool \<Rightarrow> string list \<Rightarrow> string list \<Rightarrow> string list" where
  "clean_stack rooted st [] = rev st"
| "clean_stack rooted st (p # ps) =
     (if p = [] \<or> p = ''.'' then clean_stack rooted st ps
      else if p = ''..'' then
        (if st \<noteq> [] \<and> hd st \<noteq> ''..'' then clean_stack rooted (tl st) ps
         else if rooted then clean_stack rooted st ps
         else clean_stack rooted (p # st) ps)
      else clean_stack rooted (p # st) ps)"

definition filepath_Clean :: "string \<Rightarrow> string" where
  "filepath_Clean s =
     (let rooted = (s \<noteq> [] \<and> hd s = CHR ''/'');
          body = Join (clean_stack rooted [] (Split s (CHR ''/''))) ''/'';
          r = (if rooted then CHR ''/'' # body else body)
      in if r = [] then ''.'' else r)"

definition filepath_Join :: "string list \<Rightarrow> string" where
  "filepath_Join ps =
     (let qs = dropWhile (\<lambda>p. p = []) ps
      in if qs = [] then [] else filepath_Clean (Join qs ''/''))"

section \<open>Facts about splitting and joining\<close>

lemma Split_not_Nil [simp]: "Split s c \<noteq> []"
  by (cases s) (auto split: list.splits)

lemma Split_no_sep: "c \<notin> set s \<Longrightarrow> Split s c = [s]"
  by (induction s) auto

lemma Split_sep: "Split (a @ c # b) c = Split a c @ Split b c"
proof (induction a)
  case (Cons x a)
  obtain y ys where "Split a c = y # ys" by (cases "Split a c") auto
  with Cons show ?case by simp
qed simp

lemma Split_append_sep: "c \<notin> set s \<Longrightarrow> Split (s @ c # t) c = s # Split t c"
  by (induction s) auto

lemma Split_elems_no_sep: "p \<in> set (Split s c) \<Longrightarrow> c \<notin> set p"
  by (induction s arbitrary: p) (auto split: if_splits list.splits)

lemma Split_length: "length (Split s c) = Suc (count_list s c)"
  by (induction s) (auto split: list.splits)

lemma Split_length_less_2: "length (Split s c) < 2 \<longleftrightarrow> c \<notin> set s"
  by (simp add: Split_length count_list_0_iff)

lemma Split_two: "c \<in> set s \<Longrightarrow> \<exists>a b rest. Split s c = a # b # rest"
  using Split_length_less_2 [of s c]
  by (cases "Split s c" rule: remdups_adj.cases) (auto simp: numeral_2_eq_2)

text \<open>Joining with a separator no element contains is undone by splitting.\<close>

lemma Split_Join:
  assumes "xs \<noteq> []" and "\<forall>x\<in>set xs. c \<notin> set x"
  shows "Split (Join xs [c]) c = xs"
  using assms
  by (induction xs "[c]" rule: Join.induct) (simp_all add: Split_no_sep Split_append_sep)

lemma Join_Split: "Join (Split s c) [c] = s"
proof (induction s)
  case (Cons x xs)
  obtain y ys where "Split xs c = y # ys" by (cases "Split xs c") auto
  with Cons show ?case by (cases ys) auto
qed simp

lemma Join_eq_Nil: "Join xs sep = [] \<Longrightarrow> sep \<noteq> [] \<Longrightarrow> xs = [] \<or> xs = [[]]"
  by (induction xs sep rule: Join.induct) auto

lemma HasPrefix_prefix: "HasPrefix s p \<longleftrightarrow> prefix p s"
  by (induction s p rule: HasPrefix.induct) auto

lemma Contains_sublist: "Contains s sub \<longleftrightarrow> sublist sub s"
  by (induction s sub rule: Contains.induct) (auto simp: HasPrefix_prefix sublist_Cons_right)

lemma Contains_append: "Contains s sub \<Longrightarrow> Contains (a @ s @ b) sub"
  unfolding Contains_sublist by (meson sublist_appendI sublist_order.order.trans)

lemma Contains_self [simp]: "Contains (a @ s @ b) s"
  by (simp add: Contains_sublist)

lemma Index_absent: "strings_Index s c = -1 \<longleftrightarrow> c \<notin> set s"
proof -
  have "strings_Index s c \<ge> -1" for s by (induction s) auto
  then show ?thesis
    by (induction s) (auto, smt (verit))
qed

lemma Index_after: "c \<notin> set a \<Longrightarrow> strings_Index (a @ c # b) c = int (length a)"
  by (induction a) auto

text \<open>The slice \<open>s[strings.Index(s, c)+1:]\<close> of the program.\<close>

definition after_first :: "string \<Rightarrow> char \<Rightarrow> string" where
  "after_first s c = drop (nat (strings_Index s c + 1)) s"

lemma after_first_absent: "c \<notin> set s \<Longrightarrow> after_first s c = s"
  by (simp add: after_first_def Index_absent [THEN iffD2])

lemma after_first_present: "c \<notin> set a \<Longrightarrow> after_first (a @ c # b) c = b"
  by (simp add: after_first_def Index_after nat_add_distrib)

section \<open>Facts about removal and trimming\<close>

lemma RemoveAll_absent: "\<not> Contains s old \<Longrightarrow> RemoveAll old s = s"
  by (induction s) auto

lemma Contains_hd: "x \<notin> set s \<Longrightarrow> \<not> Contains s (x # old)"
  unfolding Contains_sublist by (auto dest: set_mono_sublist)

lemma TrimSpace_id:
  assumes "s = [] \<or> (\<not> isSpace (hd s) \<and> \<not> isSpace (last s))"
  shows "TrimSpace s = s"
proof (cases s rule: rev_cases)
  case (snoc ys y)
  with assms have hd: "\<not> isSpace (hd s)" and last: "\<not> isSpace y" by auto
  from hd have "dropWhile isSpace s = s" by (cases s) simp_all
  with last snoc show ?thesis by (simp add: TrimSpace_def)
qed (simp add: TrimSpace_def)

lemma TrimSpace_no_space: "\<forall>c\<in>set s. \<not> isSpace c \<Longrightarrow> TrimSpace s = s"
  by (rule TrimSpace_id) auto

section \<open>Printing and reading numbers\<close>

lemma digit_val_char [simp]: "n < 10 \<Longrightarrow> digit_val (digit_char n) = Some n"
  by (auto simp: digit_val_def digit_char_def digits_def less_Suc_eq numeral_eq_Suc upt_rec)

lemma digit_val_other:
  "c \<notin> set ''0123456789'' \<Longrightarrow> digit_val c = None"
  by (simp add: digit_val_def digits_def numeral_eq_Suc upt_rec)

lemma digit_char_in [simp]: "n < 10 \<Longrightarrow> digit_char n \<in> set digits"
  unfolding digit_char_def by (rule nth_mem) (simp add: digits_def)

lemma show_nat_not_Nil [simp]: "show_nat n \<noteq> []"
  by (subst show_nat.simps) auto

lemma show_nat_digits: "set (show_nat n) \<subseteq> set digits"
proof (induction n rule: show_nat.induct)
  case (1 n)
  then show ?case by (cases "n < 10") (auto simp: show_nat.simps [of n])
qed

lemma read_digits_append:
  "read_digits n (s @ t) = (case read_digits n s of None \<Rightarrow> None | Some m \<Rightarrow> read_digits m t)"
  by (induction n s rule: read_digits.induct) (auto split: option.splits)

lemma read_show_nat: "read_digits 0 (show_nat n) = Some n"
proof (induction n rule: show_nat.induct)
  case (1 n)
  show ?case
  proof (cases "n < 10")
    case True
    then show ?thesis by (simp add: show_nat.simps [of n])
  next
    case False
    with 1 have "read_digits 0 (show_nat (n div 10)) = Some (n div 10)" by simp
    with False show ?thesis
      by (simp add: show_nat.simps [of n] read_digits_append)
  qed
qed

lemma hd_show_nat: "hd (show_nat n) \<in> set digits"
  using show_nat_digits [of n] by (meson hd_in_set show_nat_not_Nil subsetD)

lemma Atoi_Itoa_ok: "in_int64 i \<Longrightarrow> Atoi (Itoa i) = Inr i"
proof -
  assume i: "in_int64 i"
  have sign: "hd (show_nat n) \<noteq> CHR ''-''" "hd (show_nat n) \<noteq> CHR ''+''" for n
    using hd_show_nat [of n] by (auto simp: digits_def)
  show ?thesis
    using i sign [of "nat i"]
    by (auto simp: Atoi_def Itoa_def Let_def read_unsigned_def read_show_nat)
qed

lemma Itoa_chars: "set (Itoa i) \<subseteq> insert (CHR ''-'') (set digits)"
  using show_nat_digits [of "nat i"] show_nat_digits [of "nat (- i)"]
  by (auto simp: Itoa_def)

lemma Itoa_not_Nil [simp]: "Itoa i \<noteq> []"
  by (simp add: Itoa_def)

lemma Itoa_no_comma: "CHR '','' \<notin> set (Itoa i)"
  using Itoa_chars [of i] by (auto simp: digits_def)

lemma Itoa_no_blank: "CHR '' '' \<notin> set (Itoa i)"
  using Itoa_chars [of i] by (auto simp: digits_def)

lemma Itoa_no_space: "\<forall>c\<in>set (Itoa i). \<not> isSpace c"
  using Itoa_chars [of i] by (auto simp: digits_def isSpace_def)

lemma TrimSpace_Itoa [simp]: "TrimSpace (Itoa i) = Itoa i"
  by (rule TrimSpace_no_space) (rule Itoa_no_space)

text \<open>A blank inside a number is a syntax error.\<close>

lemma read_digits_bad: "digit_val c = None \<Longrightarrow> c \<in> set s \<Longrightarrow> read_digits n s = None"
  by (induction n s rule: read_digits.induct) (auto split: option.splits)

lemma Atoi_blank:
  assumes "CHR '' '' \<in> set s" shows "\<exists>e. Atoi s = Inl e"
proof -
  have blank: "digit_val (CHR '' '') = None" by (rule digit_val_other) simp
  have "CHR '' '' \<in> set (tl s)" if "hd s = CHR ''-'' \<or> hd s = CHR ''+''"
    using assms that by (cases s) auto
  with assms show ?thesis
    by (auto simp: Atoi_def Let_def read_unsigned_def read_digits_bad [OF blank])
qed

end
