(* ===== verification/Api.thy ===== *)
theory Api
  imports GoStrings "HOL-Library.AList_Mapping"
begin

text \<open>
  The API types of \<open>api/v1/authenticator_types.go\<close>. A Go pointer field is an
  \<open>option\<close>, a slice is a list and a \<open>map[string]string\<close> is a \<open>mapping\<close>
  (\<open>None\<close> for a nil map where the code tells nil from empty). Field names carry
  a prefix where Go reuses a field name in several structs.
\<close>

type_synonym IfState = string

definition IfStateUninitialized :: IfState where "IfStateUninitialized = ''Uninitialized''"
definition IfStateDisabled :: IfState where "IfStateDisabled = ''Disabled''"
definition IfStateCountryUpdate :: IfState where "IfStateCountryUpdate = ''CountryUpdate''"
definition IfStateAcs :: IfState where "IfStateAcs = ''ACS''"
definition IfStateHtScan :: IfState where "IfStateHtScan = ''HT Scan''"
definition IfStateDfs :: IfState where "IfStateDfs = ''DFS''"
definition IfStateEnabled :: IfState where "IfStateEnabled = ''Enabled''"
definition IfStateUnknown :: IfState where "IfStateUnknown = ''Unknown''"

lemmas IfState_defs = IfStateUninitialized_def IfStateDisabled_def IfStateCountryUpdate_def
  IfStateAcs_def IfStateHtScan_def IfStateDfs_def IfStateEnabled_def IfStateUnknown_def

record SecretKeyRef =
  skr_Name :: string
  skr_Key :: string

record Local =
  UserFileSecret :: "SecretKeyRef option"
  CaCertSecret :: "SecretKeyRef option"
  ServerCertSecret :: "SecretKeyRef option"
  PrivateKeySecret :: "SecretKeyRef option"
  PrivateKeyPassphrase :: string
  RadiusClientSecret :: "SecretKeyRef option"
  local_AuthPort :: int

record Radius =
  AuthServer :: string
  radius_AuthPort :: int
  AuthSecret :: string

record Auth =
  auth_Local :: "Local option"
  auth_Radius :: "Radius option"

record Config =
  EapReauthPeriod :: int

record Ports =
  Tcp :: "int list"
  Udp :: "int list"

record TrafficControl =
  UnprotectedPorts :: "Ports option"

record AuthenticatorSpec =
  Enabled :: bool
  spec_Interfaces :: "string list"
  Authentication :: Auth
  Configuration :: "Config option"
  Image :: string
  NodeSelector :: "(string, string) mapping option"
  spec_TrafficControl :: "TrafficControl option"

record Interface =
  if_Name :: string
  if_State :: IfState
  AuthenticatedClients :: "string list"

record AuthenticatorStatus =
  status_Interfaces :: "Interface list"

text \<open>The part of \<open>metav1.ObjectMeta\<close> that the program reads or writes.\<close>

record OwnerReference =
  or_APIVersion :: string
  or_Kind :: string
  or_Name :: string
  or_UID :: string
  or_Controller :: bool
  BlockOwnerDeletion :: bool

record ObjectMeta =
  om_Name :: string
  om_Namespace :: string
  om_UID :: string
  ResourceVersion :: string
  om_Labels :: "(string, string) mapping"
  OwnerReferences :: "OwnerReference list"

record NamespacedName =
  nn_Namespace :: string
  nn_Name :: string

record Authenticator =
  a_Meta :: ObjectMeta
  a_Spec :: AuthenticatorSpec
  a_Status :: AuthenticatorStatus

end
