(* ===== verification/Host.thy ===== *)
theory Host
  imports Api "HOL-Library.Word"
begin

text \<open>
  The boundary between the monitor and the machine it runs on. Everything outside the
  repository (the kernel's netlink interface, the programs run through \<open>bash -c\<close>,
  sysfs, the hostapd control socket, the API server, the event recorder, the Prometheus
  registry, the clock) answers through an \<open>env\<close>, a parameter of the model. An answer
  is an arbitrary function of the history of all earlier calls, so a theorem about every
  \<open>env\<close> holds for every behaviour of the outside world, failures included.

  A history lists the calls the program made, newest first; a call that changes
  something outside carries its result, \<open>None\<close> for success.
\<close>

section \<open>Links as netlink reports them\<close>

datatype LinkOperState =
    OperUnknown | OperNotPresent | OperDown | OperLowerLayerDown
  | OperTesting | OperDormant | OperUp

record VfAttr =
  vf_ID :: int
  vf_Vlan :: int

record Link =
  link_Name :: string
  OperState :: LinkOperState
  link_Vfs :: "VfAttr list"

definition VF_LINK_STATE_AUTO :: "32 word" where "VF_LINK_STATE_AUTO = 0"
definition VF_LINK_STATE_DISABLE :: "32 word" where "VF_LINK_STATE_DISABLE = 2"

section \<open>Calls and histories\<close>

datatype call =
    CLinkByName string
  | CLinkSetVfVlan string int int "err option"
  | CLinkSetVfState string int "32 word" "err option"
  | CLookPath string
  | CRun string "err option"
  | CStat string
  | CGlob string
  | CReadDir string
  | CTempFile "err option"
  | CRemove
  | CDial string "err option"
  | CWrite string "err option"
  | CClose "err option"
  | CSubscribe string
  | CUnsubscribe string
  | CGet NamespacedName
  | CStatusUpdate Authenticator "err option"
  | CEventf "Authenticator option" string string string
  | CAuthenticated string
  | CDeAuthenticated string
  | CAuthFailed string
  | CNow
  | CLogError string err

type_synonym hist = "call list"

record env =
  env_LinkByName :: "hist \<Rightarrow> string \<Rightarrow> Link res"
  env_LinkSetVfVlan :: "hist \<Rightarrow> Link \<Rightarrow> int \<Rightarrow> int \<Rightarrow> err option"
  env_LinkSetVfState :: "hist \<Rightarrow> Link \<Rightarrow> int \<Rightarrow> 32 word \<Rightarrow> err option"
  env_LookPath :: "hist \<Rightarrow> string \<Rightarrow> err option"
  env_Run :: "hist \<Rightarrow> string \<Rightarrow> err option"
  env_Stat :: "hist \<Rightarrow> string \<Rightarrow> bool res"
  env_Glob :: "hist \<Rightarrow> string \<Rightarrow> string list res"
  env_ReadDir :: "hist \<Rightarrow> string \<Rightarrow> string list res"
  env_TempFile :: "hist \<Rightarrow> err option"
  env_Dial :: "hist \<Rightarrow> string \<Rightarrow> err option"
  env_Write :: "hist \<Rightarrow> string \<Rightarrow> err option"
  env_Close :: "hist \<Rightarrow> err option"
  env_Get :: "hist \<Rightarrow> NamespacedName \<Rightarrow> Authenticator res"
  env_StatusUpdate :: "hist \<Rightarrow> Authenticator \<Rightarrow> err option"
  env_Now :: "hist \<Rightarrow> int"
  env_Order :: "hist \<Rightarrow> nat list"

section \<open>The primitive calls\<close>

definition LinkByName :: "env \<Rightarrow> string \<Rightarrow> hist \<Rightarrow> Link res \<times> hist" where
  [go_defs]: "LinkByName E n h = (env_LinkByName E h n, CLinkByName n # h)"

definition LinkSetVfVlan :: "env \<Rightarrow> Link \<Rightarrow> int \<Rightarrow> int \<Rightarrow> hist \<Rightarrow> err option \<times> hist" where
  [go_defs]: "LinkSetVfVlan E l i v h =
     (let r = env_LinkSetVfVlan E h l i v in (r, CLinkSetVfVlan (link_Name l) i v r # h))"

definition LinkSetVfState :: "env \<Rightarrow> Link \<Rightarrow> int \<Rightarrow> 32 word \<Rightarrow> hist \<Rightarrow> err option \<times> hist" where
  [go_defs]: "LinkSetVfState E l i s h =
     (let r = env_LinkSetVfState E h l i s in (r, CLinkSetVfState (link_Name l) i s r # h))"

definition LookPath :: "env \<Rightarrow> string \<Rightarrow> hist \<Rightarrow> err option \<times> hist" where
  [go_defs]: "LookPath E p h = (env_LookPath E h p, CLookPath p # h)"

text \<open>\<open>exec.Command("bash", "-c", cmd).Run()\<close>\<close>

definition Run :: "env \<Rightarrow> string \<Rightarrow> hist \<Rightarrow> err option \<times> hist" where
  [go_defs]: "Run E cmd h = (let r = env_Run E h cmd in (r, CRun cmd r # h))"

definition Stat :: "env \<Rightarrow> string \<Rightarrow> hist \<Rightarrow> bool res \<times> hist" where
  [go_defs]: "Stat E p h = (env_Stat E h p, CStat p # h)"

definition Glob :: "env \<Rightarrow> string \<Rightarrow> hist \<Rightarrow> string list res \<times> hist" where
  [go_defs]: "Glob E p h = (env_Glob E h p, CGlob p # h)"

definition ReadDir :: "env \<Rightarrow> string \<Rightarrow> hist \<Rightarrow> string list res \<times> hist" where
  [go_defs]: "ReadDir E p h = (env_ReadDir E h p, CReadDir p # h)"

definition TempFile :: "env \<Rightarrow> hist \<Rightarrow> err option \<times> hist" where
  [go_defs]: "TempFile E h = (let r = env_TempFile E h in (r, CTempFile r # h))"

definition DialUnix :: "env \<Rightarrow> string \<Rightarrow> hist \<Rightarrow> err option \<times> hist" where
  [go_defs]: "DialUnix E n h = (let r = env_Dial E h n in (r, CDial n r # h))"

definition ConnWrite :: "env \<Rightarrow> string \<Rightarrow> hist \<Rightarrow> err option \<times> hist" where
  [go_defs]: "ConnWrite E s h = (let r = env_Write E h s in (r, CWrite s r # h))"

definition ConnClose :: "env \<Rightarrow> hist \<Rightarrow> err option \<times> hist" where
  [go_defs]: "ConnClose E h = (let r = env_Close E h in (r, CClose r # h))"

definition ClientGet :: "env \<Rightarrow> NamespacedName \<Rightarrow> hist \<Rightarrow> Authenticator res \<times> hist" where
  [go_defs]: "ClientGet E k h = (env_Get E h k, CGet k # h)"

definition StatusUpdate :: "env \<Rightarrow> Authenticator \<Rightarrow> hist \<Rightarrow> err option \<times> hist" where
  [go_defs]: "StatusUpdate E a h = (let r = env_StatusUpdate E h a in (r, CStatusUpdate a r # h))"

definition Now :: "env \<Rightarrow> hist \<Rightarrow> int \<times> hist" where
  [go_defs]: "Now E h = (env_Now E h, CNow # h)"

text \<open>The order in which one \<open>for ... range m\<close> visits its keys.\<close>

definition range_keys :: "env \<Rightarrow> hist \<Rightarrow> 'k list \<Rightarrow> 'k list" where
  "range_keys E h ks = range_by (env_Order E h) ks"

lemma mset_range_keys [simp]: "mset (range_keys E h ks) = mset ks"
  by (simp add: range_keys_def)

lemma set_range_keys [simp]: "set (range_keys E h ks) = set ks"
  by (simp add: range_keys_def)

lemma distinct_range_keys [simp]: "distinct (range_keys E h ks) = distinct ks"
  by (simp add: range_keys_def)

lemma length_range_keys [simp]: "length (range_keys E h ks) = length ks"
  by (simp add: range_keys_def)

lemma range_keys_Nil [simp]: "range_keys E h [] = []"
  by (simp add: range_keys_def)

section \<open>Reading a history\<close>

text \<open>
  The VLAN and the link state a virtual function was last given, and the commands that
  were run, as far as the calls succeeded. These read the history only: they say what
  the program asked for and was granted.
\<close>

fun vf_vlan :: "hist \<Rightarrow> string \<Rightarrow> int \<Rightarrow> int option" where
  "vf_vlan [] n i = None"
| "vf_vlan (CLinkSetVfVlan n' i' v r # h) n i =
     (if n' = n \<and> i' = i \<and> r = None then Some v else vf_vlan h n i)"
| "vf_vlan (c # h) n i = vf_vlan h n i"

fun vf_state :: "hist \<Rightarrow> string \<Rightarrow> int \<Rightarrow> 32 word option" where
  "vf_state [] n i = None"
| "vf_state (CLinkSetVfState n' i' s r # h) n i =
     (if n' = n \<and> i' = i \<and> r = None then Some s else vf_state h n i)"
| "vf_state (c # h) n i = vf_state h n i"

fun runs :: "hist \<Rightarrow> (string \<times> err option) list" where
  "runs [] = []"
| "runs (CRun cmd r # h) = (cmd, r) # runs h"
| "runs (c # h) = runs h"

fun writes :: "hist \<Rightarrow> (string \<times> err option) list" where
  "writes [] = []"
| "writes (CWrite s r # h) = (s, r) # writes h"
| "writes (c # h) = writes h"

section \<open>Frames\<close>

text \<open>
  An operation extends the history it starts from; \<open>only P h' h\<close> says that all it
  added are calls of the class \<open>P\<close>. The classes: calls that only read, calls that set
  up a VF, shell commands.
\<close>

definition only :: "(call \<Rightarrow> bool) \<Rightarrow> hist \<Rightarrow> hist \<Rightarrow> bool" where
  "only P h' h = (\<exists>cs. h' = cs @ h \<and> list_all P cs)"

fun is_read :: "call \<Rightarrow> bool" where
  "is_read (CLinkByName n) = True"
| "is_read (CLookPath n) = True"
| "is_read (CStat n) = True"
| "is_read (CGlob n) = True"
| "is_read (CReadDir n) = True"
| "is_read (CGet n) = True"
| "is_read CNow = True"
| "is_read c = False"

fun is_vf_call :: "call \<Rightarrow> bool" where
  "is_vf_call (CLinkSetVfVlan n i v r) = True"
| "is_vf_call (CLinkSetVfState n i v r) = True"
| "is_vf_call c = is_read c"

fun is_run_call :: "call \<Rightarrow> bool" where
  "is_run_call (CRun cmd r) = True"
| "is_run_call c = is_read c"

definition is_tc_call :: "call \<Rightarrow> bool" where
  "is_tc_call c = (is_vf_call c \<or> is_run_call c)"

lemma is_read_vf [simp]: "is_read c \<Longrightarrow> is_vf_call c"
  by (cases c) auto

lemma is_read_run [simp]: "is_read c \<Longrightarrow> is_run_call c"
  by (cases c) auto

lemma only_refl [simp]: "only P h h"
  by (simp add: only_def)

lemma only_Cons: "only P h' (c # h) \<Longrightarrow> P c \<Longrightarrow> only P h' h"
  by (force simp: only_def)

lemma only_add [simp]: "P c \<Longrightarrow> only P h' h \<Longrightarrow> only P (c # h') h"
  by (force simp: only_def intro: exI [of _ "c # _"])

lemma only_trans: "only P h2 h1 \<Longrightarrow> only P h1 h0 \<Longrightarrow> only P h2 h0"
  by (force simp: only_def)

lemma only_mono: "only P h' h \<Longrightarrow> (\<And>c. P c \<Longrightarrow> Q c) \<Longrightarrow> only Q h' h"
  unfolding only_def by (metis list.pred_mono_strong)

lemma only_read_vf: "only is_read h' h \<Longrightarrow> only is_vf_call h' h"
  by (erule only_mono) auto

lemma only_read_run: "only is_read h' h \<Longrightarrow> only is_run_call h' h"
  by (erule only_mono) auto

lemma only_vf_tc: "only is_vf_call h' h \<Longrightarrow> only is_tc_call h' h"
  by (erule only_mono) (auto simp: is_tc_call_def)

lemma only_run_tc: "only is_run_call h' h \<Longrightarrow> only is_tc_call h' h"
  by (erule only_mono) (auto simp: is_tc_call_def)

lemma only_induct:
  assumes "only P h' h" and "f h = f0" and "\<And>c g. P c \<Longrightarrow> f (c # g) = f g"
  shows "f h' = f0"
proof -
  obtain cs where "h' = cs @ h" and "list_all P cs" using assms(1) by (auto simp: only_def)
  then show ?thesis by (induction cs arbitrary: h') (auto simp: assms(2,3))
qed

lemma runs_vf_call: "is_vf_call c \<Longrightarrow> runs (c # h) = runs h"
  by (cases c) auto

lemma vf_vlan_run_call: "is_run_call c \<Longrightarrow> vf_vlan (c # h) n i = vf_vlan h n i"
  by (cases c) auto

lemma vf_state_run_call: "is_run_call c \<Longrightarrow> vf_state (c # h) n i = vf_state h n i"
  by (cases c) auto

lemma only_vf_runs: "only is_vf_call h' h \<Longrightarrow> runs h' = runs h"
  by (erule only_induct) (auto simp: runs_vf_call)

lemma only_read_runs: "only is_read h' h \<Longrightarrow> runs h' = runs h"
  by (blast intro: only_vf_runs only_read_vf)

lemma only_run_vf_vlan: "only is_run_call h' h \<Longrightarrow> vf_vlan h' n i = vf_vlan h n i"
  by (erule only_induct [where f = "\<lambda>h. vf_vlan h n i"]) (auto simp: vf_vlan_run_call)

lemma only_run_vf_state: "only is_run_call h' h \<Longrightarrow> vf_state h' n i = vf_state h n i"
  by (erule only_induct [where f = "\<lambda>h. vf_state h n i"]) (auto simp: vf_state_run_call)

text \<open>Calls that neither set up a VF nor run a command.\<close>

fun is_other :: "call \<Rightarrow> bool" where
  "is_other (CLinkSetVfVlan n i v r) = False"
| "is_other (CLinkSetVfState n i v r) = False"
| "is_other (CRun cmd r) = False"
| "is_other c = True"

lemma is_read_other [simp]: "is_read c \<Longrightarrow> is_other c"
  by (cases c) auto

lemma only_other_runs: "only is_other h' h \<Longrightarrow> runs h' = runs h"
  by (erule only_induct) (auto elim: is_other.elims)

lemma only_other_vf_vlan: "only is_other h' h \<Longrightarrow> vf_vlan h' n i = vf_vlan h n i"
  by (erule only_induct [where f = "\<lambda>h. vf_vlan h n i"]) (auto elim: is_other.elims)

lemma only_other_vf_state: "only is_other h' h \<Longrightarrow> vf_state h' n i = vf_state h n i"
  by (erule only_induct [where f = "\<lambda>h. vf_state h n i"]) (auto elim: is_other.elims)

section \<open>A calm machine\<close>

text \<open>
  An environment in which every call succeeds: every link exists whose name has no blank,
  the one called \<open>eth0\<close> reports the given VFs and is the only SR-IOV PF, without VF network
  devices; the API server returns the given object. The examples of the development run
  on it.
\<close>

definition calm :: "VfAttr list \<Rightarrow> Authenticator \<Rightarrow> env" where
  "calm vfs a =
     \<lparr>env_LinkByName = (\<lambda>h n. if CHR '' '' \<in> set n then Inl (Ext ''no such device'')
                         else Inr \<lparr>link_Name = n, OperState = OperUp,
                                   link_Vfs = (if n = ''eth0'' then vfs else [])\<rparr>),
      env_LinkSetVfVlan = (\<lambda>h l i v. None),
      env_LinkSetVfState = (\<lambda>h l i s. None),
      env_LookPath = (\<lambda>h p. None),
      env_Run = (\<lambda>h c. None),
      env_Stat = (\<lambda>h p. if p = ''/sys/class/net/eth0/device/sriov_numvfs'' then Inr False
                         else Inl (Ext ''no such file'')),
      env_Glob = (\<lambda>h p. Inr []),
      env_ReadDir = (\<lambda>h p. Inr []),
      env_TempFile = (\<lambda>h. None),
      env_Dial = (\<lambda>h n. None),
      env_Write = (\<lambda>h s. None),
      env_Close = (\<lambda>h. None),
      env_Get = (\<lambda>h k. Inr a),
      env_StatusUpdate = (\<lambda>h x. None),
      env_Now = (\<lambda>h. 0),
      env_Order = (\<lambda>h. [])\<rparr>"

lemma calm_sel [simp]:
  "env_LinkByName (calm vfs a) h n = (if CHR '' '' \<in> set n then Inl (Ext ''no such device'')
     else Inr \<lparr>link_Name = n, OperState = OperUp, link_Vfs = (if n = ''eth0'' then vfs else [])\<rparr>)"
  "env_LinkSetVfVlan (calm vfs a) h l i v = None"
  "env_LinkSetVfState (calm vfs a) h l i s = None"
  "env_LookPath (calm vfs a) h p = None"
  "env_Run (calm vfs a) h c = None"
  "env_Stat (calm vfs a) h p = (if p = ''/sys/class/net/eth0/device/sriov_numvfs''
     then Inr False else Inl (Ext ''no such file''))"
  "env_Glob (calm vfs a) h p = Inr []"
  "env_ReadDir (calm vfs a) h p = Inr []"
  "env_TempFile (calm vfs a) h = None"
  "env_Dial (calm vfs a) h p = None"
  "env_Write (calm vfs a) h p = None"
  "env_Close (calm vfs a) h = None"
  "env_Get (calm vfs a) h k = Inr a"
  "env_StatusUpdate (calm vfs a) h x = None"
  "env_Now (calm vfs a) h = 0"
  "range_keys (calm vfs a) h ks = ks"
  by (auto simp: calm_def range_keys_def range_by_def is_perm_def)

end
