(* ===== verification/Sriov.thy ===== *)
theory Sriov
  imports Host
begin

text \<open>
  \<open>internal/trafficcontrol/sriov.go\<close>: the record of a physical function (PF) with
  its virtual functions (VFs), the VLAN and link state each VF is given, and the
  discovery of the interfaces that belong to a PF.
\<close>

section \<open>State\<close>

definition ReservedVlan :: int where "ReservedVlan = 4095"

record VFInfo =
  Index :: int
  Vlan :: int

text \<open>\<open>AuthenticatedAddrs\<close> is a Go map whose values are all nil: the list of its
  keys. \<open>VFs\<close> maps a VF number to its record; the back pointer \<open>Parent\<close> of a
  \<open>VFInfo\<close> is the PF argument of the operations on VFs, and \<open>NetLinkMgr\<close> is the
  environment.\<close>

record PFInfo =
  pf_Name :: string
  Authenticated :: bool
  AuthenticatedAddrs :: "string list"
  VFs :: "(int \<times> VFInfo) list"

section \<open>VLAN and link state of the VFs\<close>

definition ConfigureVlanState :: "env \<Rightarrow> PFInfo \<Rightarrow> VFInfo \<Rightarrow> hist \<Rightarrow> err option \<times> hist" where
  "ConfigureVlanState E parent vf h =
     (case LinkByName E (pf_Name parent) h of
        (Inl e, h1) \<Rightarrow> (Some e, h1)
      | (Inr pfLink, h1) \<Rightarrow>
          (let vlan = (if \<not> Authenticated parent then ReservedVlan else Vlan vf);
               state = (if \<not> Authenticated parent then VF_LINK_STATE_DISABLE
                        else VF_LINK_STATE_AUTO)
           in case LinkSetVfVlan E pfLink (Index vf) vlan h1 of
                (Some e, h2) \<Rightarrow> (Some e, h2)
              | (None, h2) \<Rightarrow> LinkSetVfState E pfLink (Index vf) state h2))"

fun configure_loop :: "env \<Rightarrow> PFInfo \<Rightarrow> VFInfo list \<Rightarrow> hist \<Rightarrow> err option \<times> hist" where
  "configure_loop E pf [] h = (None, h)"
| "configure_loop E pf (vfInfo # rest) h =
     (case ConfigureVlanState E pf vfInfo h of
        (Some e, h1) \<Rightarrow> (Some e, h1)
      | (None, h1) \<Rightarrow> configure_loop E pf rest h1)"

definition ConfigureVlanStateForVFs :: "env \<Rightarrow> PFInfo \<Rightarrow> hist \<Rightarrow> err option \<times> hist" where
  "ConfigureVlanStateForVFs E pf h =
     configure_loop E pf (map snd (range_keys E h (VFs pf))) h"

section \<open>VLAN changes made by others\<close>

fun vlan_change_loop ::
  "env \<Rightarrow> VfAttr list \<Rightarrow> PFInfo \<Rightarrow> hist \<Rightarrow> err option \<times> PFInfo \<times> hist" where
  "vlan_change_loop E [] pf h = (None, pf, h)"
| "vlan_change_loop E (vf # rest) pf h =
     (case map_of (VFs pf) (vf_ID vf) of
        None \<Rightarrow> vlan_change_loop E rest pf h
      | Some vfInfo \<Rightarrow>
          (if vf_Vlan vf \<noteq> ReservedVlan \<and> Vlan vfInfo \<noteq> vf_Vlan vf
           then (let vfInfo' = vfInfo\<lparr>Vlan := vf_Vlan vf\<rparr>;
                     pf' = pf\<lparr>VFs := AList.update (vf_ID vf) vfInfo' (VFs pf)\<rparr>
                 in case ConfigureVlanState E pf' vfInfo' h of
                      (Some e, h1) \<Rightarrow> (Some e, pf', h1)
                    | (None, h1) \<Rightarrow> vlan_change_loop E rest pf' h1)
           else vlan_change_loop E rest pf h))"

definition HandlePfEventForVlanChange ::
  "env \<Rightarrow> PFInfo \<Rightarrow> hist \<Rightarrow> err option \<times> PFInfo \<times> hist" where
  "HandlePfEventForVlanChange E pf h =
     (case LinkByName E (pf_Name pf) h of
        (Inl e, h1) \<Rightarrow> (Some e, pf, h1)
      | (Inr pfLink, h1) \<Rightarrow> vlan_change_loop E (link_Vfs pfLink) pf h1)"

section \<open>Discovery\<close>

definition vf_entry :: "VfAttr \<Rightarrow> int \<times> VFInfo" where
  "vf_entry vf = (vf_ID vf, \<lparr>Index = vf_ID vf, Vlan = vf_Vlan vf\<rparr>)"

definition GetSriovPFInfo :: "env \<Rightarrow> string \<Rightarrow> hist \<Rightarrow> PFInfo res \<times> hist" where
  "GetSriovPFInfo E ifName h =
     (case LinkByName E ifName h of
        (Inl e, h1) \<Rightarrow> (Inl e, h1)
      | (Inr pfLink, h1) \<Rightarrow>
          (Inr \<lparr>pf_Name = ifName, Authenticated = False, AuthenticatedAddrs = [],
                VFs = fold (\<lambda>(k, v). AList.update k v) (map vf_entry (link_Vfs pfLink)) []\<rparr>,
           h1))"

definition sysClassNet :: string where "sysClassNet = ''/sys/class/net/''"

definition dirExists :: "env \<Rightarrow> string \<Rightarrow> hist \<Rightarrow> bool \<times> hist" where
  "dirExists E dirname h =
     (case Stat E dirname h of (Inl e, h1) \<Rightarrow> (False, h1) | (Inr isdir, h1) \<Rightarrow> (isdir, h1))"

definition IsSriovPF :: "env \<Rightarrow> string \<Rightarrow> hist \<Rightarrow> bool \<times> hist" where
  "IsSriovPF E ifName h =
     (case Stat E (filepath_Join [sysClassNet, ifName, ''device'', ''sriov_numvfs'']) h of
        (Inl e, h1) \<Rightarrow> (False, h1)
      | (Inr _, h1) \<Rightarrow> (True, h1))"

fun vf_names_loop :: "env \<Rightarrow> string list \<Rightarrow> string list \<Rightarrow> hist \<Rightarrow> string list res \<times> hist" where
  "vf_names_loop E vfNames [] h = (Inr vfNames, h)"
| "vf_names_loop E vfNames (vfDir # rest) h =
     (let vfNetDir = filepath_Join [vfDir, ''net'']
      in case dirExists E vfNetDir h of
           (False, h1) \<Rightarrow> vf_names_loop E vfNames rest h1
         | (True, h1) \<Rightarrow>
             (case ReadDir E vfNetDir h1 of
                (Inl e, h2) \<Rightarrow>
                  (Inl (WrapErr (''failed to read vf net directory '' @ vfNetDir @ '': '') e), h2)
              | (Inr [], h2) \<Rightarrow> vf_names_loop E vfNames rest h2
              | (Inr (vfIfName # _), h2) \<Rightarrow>
                  (case LinkByName E vfIfName h2 of
                     (Inl e, h3) \<Rightarrow>
                       (Inl (WrapErr (''failed to get netlink '' @ vfIfName @ '': '') e), h3)
                   | (Inr vfLink, h3) \<Rightarrow>
                       vf_names_loop E (vfNames @ [link_Name vfLink]) rest h3)))"

definition GetSriovVFs :: "env \<Rightarrow> string \<Rightarrow> hist \<Rightarrow> string list res \<times> hist" where
  "GetSriovVFs E ifName h =
     (case IsSriovPF E ifName h of
        (False, h1) \<Rightarrow>
          (Inl (NewErr (''interface '' @ ifName @ '' is not a sriov pf type'')), h1)
      | (True, h1) \<Rightarrow>
          (case Glob E (filepath_Join [sysClassNet, ifName, ''device'', ''virtfn*'']) h1 of
             (Inl e, h2) \<Rightarrow> (Inl e, h2)
           | (Inr vfsDir, h2) \<Rightarrow> vf_names_loop E [] vfsDir h2))"

definition GetAssociatedInterfaces :: "env \<Rightarrow> string \<Rightarrow> hist \<Rightarrow> string list res \<times> hist" where
  "GetAssociatedInterfaces E ifName h =
     (case IsSriovPF E ifName h of
        (False, h1) \<Rightarrow> (Inr [ifName], h1)
      | (True, h1) \<Rightarrow>
          (case GetSriovVFs E ifName h1 of
             (Inl e, h2) \<Rightarrow> (Inl e, h2)
           | (Inr vfs, h2) \<Rightarrow> (Inr (ifName # vfs), h2)))"

section \<open>Well-formed PF records\<close>

text \<open>Every entry of \<open>VFs\<close> is filed under its own number, once.\<close>

definition pf_ok :: "PFInfo \<Rightarrow> bool" where
  "pf_ok pf = (map_ok (VFs pf) \<and> list_all (\<lambda>(k, v). Index v = k) (VFs pf) \<and>
               distinct (AuthenticatedAddrs pf))"

text \<open>What a VF of this PF is meant to carry.\<close>

definition target_vlan :: "PFInfo \<Rightarrow> VFInfo \<Rightarrow> int" where
  "target_vlan pf vf = (if Authenticated pf then Vlan vf else ReservedVlan)"

definition target_state :: "PFInfo \<Rightarrow> 32 word" where
  "target_state pf = (if Authenticated pf then VF_LINK_STATE_AUTO else VF_LINK_STATE_DISABLE)"

text \<open>The netlink library answers a lookup by name with a link of that name.\<close>

definition names_ok :: "env \<Rightarrow> bool" where
  "names_ok E = (\<forall>h n l. env_LinkByName E h n = Inr l \<longrightarrow> link_Name l = n)"

definition vfs_set :: "hist \<Rightarrow> PFInfo \<Rightarrow> bool" where
  "vfs_set h pf = (\<forall>(k, vf)\<in>set (VFs pf).
     vf_vlan h (pf_Name pf) k = Some (target_vlan pf vf) \<and>
     vf_state h (pf_Name pf) k = Some (target_state pf))"

text \<open>A PF with one VF on VLAN 100, and an API object, for the examples.\<close>

definition pf0 :: PFInfo where
  "pf0 = \<lparr>pf_Name = ''eth0'', Authenticated = False, AuthenticatedAddrs = [],
          VFs = [(0, \<lparr>Index = 0, Vlan = 100\<rparr>)]\<rparr>"

definition a0 :: Authenticator where
  "a0 = \<lparr>a_Meta = \<lparr>om_Name = ''auth'', om_Namespace = ''ns'', om_UID = ''u1'',
            ResourceVersion = ''1'', om_Labels = Mapping.empty, OwnerReferences = []\<rparr>,
         a_Spec = \<lparr>Enabled = True, spec_Interfaces = [''eth0''],
            Authentication = \<lparr>auth_Local = None, auth_Radius = None\<rparr>,
            Configuration = None, Image = [], NodeSelector = None,
            spec_TrafficControl = None\<rparr>,
         a_Status = \<lparr>status_Interfaces = []\<rparr>\<rparr>"

lemma pf0_ok: "pf_ok pf0"
  by (simp add: pf_ok_def pf0_def map_ok_def)

lemma calm_names_ok: "names_ok (calm vfs a)"
  by (simp add: names_ok_def split: if_splits)

section \<open>What the operations leave alone\<close>

lemma ConfigureVlanState_only [frame]:
  "only is_vf_call (snd (ConfigureVlanState E pf vf h)) h"
  by (auto simp: ConfigureVlanState_def go_defs Let_def split: sum.splits option.splits)

lemma configure_loop_only [frame]: "only is_vf_call (snd (configure_loop E pf vfs h)) h"
proof (induction E pf vfs h rule: configure_loop.induct)
  case (2 E pf vf rest h)
  then show ?case
    using ConfigureVlanState_only [of E pf vf h]
    by (auto split: prod.splits option.splits dest: only_trans)
qed simp

lemma ConfigureVlanStateForVFs_only [frame]:
  "only is_vf_call (snd (ConfigureVlanStateForVFs E pf h)) h"
  by (simp add: ConfigureVlanStateForVFs_def configure_loop_only)

lemma IsSriovPF_only [frame]: "only is_read (snd (IsSriovPF E n h)) h"
  by (auto simp: IsSriovPF_def go_defs split: sum.splits)

lemma vf_names_loop_only [frame]: "only is_read (snd (vf_names_loop E acc ds h)) h"
proof (induction ds arbitrary: acc h)
  case (Cons d ds)
  note IH1 = only_Cons [OF Cons] and IH2 = only_Cons [OF only_Cons [OF Cons]]
    and IH3 = only_Cons [OF only_Cons [OF only_Cons [OF Cons]]]
  show ?case
    by (auto simp: Let_def dirExists_def go_defs IH1 IH2 IH3
        split: sum.splits bool.splits list.splits)
qed simp

lemma GetSriovVFs_only [frame]: "only is_read (snd (GetSriovVFs E n h)) h"
  using IsSriovPF_only [of E n h]
  by (auto simp: GetSriovVFs_def go_defs split: prod.splits bool.splits sum.splits
      intro: only_trans [OF only_Cons [OF vf_names_loop_only]] only_add)

lemma GetAssociatedInterfaces_only [frame]:
  "only is_read (snd (GetAssociatedInterfaces E n h)) h"
  using IsSriovPF_only [of E n h] GetSriovVFs_only
  by (auto simp: GetAssociatedInterfaces_def split: prod.splits bool.splits sum.splits)
    (metis only_trans snd_conv)+

section \<open>What the operations achieve\<close>

lemma ConfigureVlanState_done:
  assumes "names_ok E" and "ConfigureVlanState E pf vf h = (None, h')"
  shows "vf_vlan h' n i = (if n = pf_Name pf \<and> i = Index vf then Some (target_vlan pf vf)
                           else vf_vlan h n i)"
    and "vf_state h' n i = (if n = pf_Name pf \<and> i = Index vf then Some (target_state pf)
                            else vf_state h n i)"
  using assms
  by (auto simp: ConfigureVlanState_def go_defs Let_def names_ok_def target_vlan_def
      target_state_def split: sum.splits option.splits if_splits)

lemma configure_loop_done:
  assumes "names_ok E" and "configure_loop E pf vfs h = (None, h')"
    and "distinct (map Index vfs)"
  shows "vf_vlan h' n i =
           (case find (\<lambda>vf. n = pf_Name pf \<and> Index vf = i) vfs of
              Some vf \<Rightarrow> Some (target_vlan pf vf) | None \<Rightarrow> vf_vlan h n i) \<and>
         vf_state h' n i =
           (case find (\<lambda>vf. n = pf_Name pf \<and> Index vf = i) vfs of
              Some vf \<Rightarrow> Some (target_state pf) | None \<Rightarrow> vf_state h n i)"
  using assms(2,3)
proof (induction vfs arbitrary: h)
  case (Cons vf vfs)
  then obtain h1 where h1: "ConfigureVlanState E pf vf h = (None, h1)"
    and rest: "configure_loop E pf vfs h1 = (None, h')"
    by (auto split: prod.splits option.splits)
  have no: "Index vf = i \<Longrightarrow> find (\<lambda>vf. n = pf_Name pf \<and> Index vf = i) vfs = None"
    using Cons.prems(2) by (auto simp: find_None_iff image_iff)
  show ?case
    using Cons.IH [OF rest] Cons.prems(2) no ConfigureVlanState_done [OF assms(1) h1, of n i]
    by (auto split: option.splits)
qed simp

lemma find_range_keys:
  assumes "pf_ok pf" and "(k, vf) \<in> set (VFs pf)"
  shows "find (\<lambda>v. Index v = k) (map snd (range_keys E h (VFs pf))) = Some vf"
proof -
  let ?vs = "map snd (range_keys E h (VFs pf))"
  have idx: "Index v = k'" if "(k', v) \<in> set (VFs pf)" for k' v
    using assms(1) that by (auto simp: pf_ok_def list_all_iff)
  have "v = vf" if "v \<in> set ?vs" and "Index v = k" for v
    using that assms idx by (auto simp: pf_ok_def map_ok_def)
      (metis (no_types) map_of_is_SomeI option.inject)
  moreover have "vf \<in> set ?vs" and "Index vf = k"
    using assms(2) idx by force+
  ultimately show ?thesis by (intro find_unique) blast+
qed

lemma distinct_range_index:
  assumes "pf_ok pf" shows "distinct (map Index (map snd (range_keys E h (VFs pf))))"
proof -
  have "map Index (map snd (range_keys E h (VFs pf))) = map fst (range_keys E h (VFs pf))"
    using assms by (auto simp: pf_ok_def list_all_iff)
  moreover have "mset (map fst (range_keys E h (VFs pf))) = mset (map fst (VFs pf))"
    by (metis mset_map mset_range_keys)
  ultimately show ?thesis
    using assms by (metis map_ok_def mset_eq_imp_distinct_iff pf_ok_def)
qed

text \<open>When \<open>ConfigureVlanStateForVFs\<close> reports success, every VF of the PF has been given what
  the authentication state calls for, whatever order the map iteration took, and VFs of other
  PFs are untouched.\<close>

lemma configure_vfs_set:
  assumes "pf_ok pf" and "names_ok E" and "ConfigureVlanStateForVFs E pf h = (None, h')"
  shows "vfs_set h' pf"
  using configure_loop_done [OF assms(2) assms(3) [unfolded ConfigureVlanStateForVFs_def]
      distinct_range_index [OF assms(1)], of "pf_Name pf"] find_range_keys [OF assms(1)]
  unfolding vfs_set_def by auto

lemma configure_vfs_other:
  assumes "pf_ok pf" and "names_ok E" and "ConfigureVlanStateForVFs E pf h = (None, h')"
    and "n \<noteq> pf_Name pf"
  shows "vf_vlan h' n i = vf_vlan h n i \<and> vf_state h' n i = vf_state h n i"
  using configure_loop_done [OF assms(2) assms(3) [unfolded ConfigureVlanStateForVFs_def]
      distinct_range_index [OF assms(1)], of n i] assms(4)
  by (simp add: find_None_iff [THEN iffD2] split: option.splits)

section \<open>Failing closed\<close>

text \<open>A call that, if it sets up a VF at all, cuts it off.\<close>

fun closing_call :: "call \<Rightarrow> bool" where
  "closing_call (CLinkSetVfVlan n i v r) = (v = ReservedVlan)"
| "closing_call (CLinkSetVfState n i s r) = (s = VF_LINK_STATE_DISABLE)"
| "closing_call c = is_read c"

lemma closing_read [simp]: "is_read c \<Longrightarrow> closing_call c"
  by (cases c) auto

lemma ConfigureVlanState_closing:
  "\<not> Authenticated pf \<Longrightarrow> only closing_call (snd (ConfigureVlanState E pf vf h)) h"
  by (auto simp: ConfigureVlanState_def go_defs Let_def split: sum.splits option.splits)

lemma configure_loop_closing:
  "\<not> Authenticated pf \<Longrightarrow> only closing_call (snd (configure_loop E pf vfs h)) h"
proof (induction E pf vfs h rule: configure_loop.induct)
  case (2 E pf vf rest h)
  then show ?case
    using ConfigureVlanState_closing [of pf E vf h]
    by (auto split: prod.splits option.splits dest: only_trans)
qed simp

lemma configure_vfs_closing:
  "\<not> Authenticated pf \<Longrightarrow> only closing_call (snd (ConfigureVlanStateForVFs E pf h)) h"
  by (simp add: ConfigureVlanStateForVFs_def configure_loop_closing)

section \<open>VLAN changes\<close>

lemma vlan_change_Cons:
  assumes "vlan_change_loop E (vf # rest) pf h = (r, pf', h')"
  obtains (skip) "vlan_change_loop E rest pf h = (r, pf', h')"
  | (fail) vi e where "map_of (VFs pf) (vf_ID vf) = Some vi"
      "pf' = pf\<lparr>VFs := AList.update (vf_ID vf) (vi\<lparr>Vlan := vf_Vlan vf\<rparr>) (VFs pf)\<rparr>"
      "ConfigureVlanState E pf' (vi\<lparr>Vlan := vf_Vlan vf\<rparr>) h = (Some e, h')" "r = Some e"
  | (step) vi pf1 h1 where "map_of (VFs pf) (vf_ID vf) = Some vi"
      "pf1 = pf\<lparr>VFs := AList.update (vf_ID vf) (vi\<lparr>Vlan := vf_Vlan vf\<rparr>) (VFs pf)\<rparr>"
      "ConfigureVlanState E pf1 (vi\<lparr>Vlan := vf_Vlan vf\<rparr>) h = (None, h1)"
      "vlan_change_loop E rest pf1 h1 = (r, pf', h')"
  using assms by (auto simp: Let_def split: option.splits if_splits prod.splits)

definition same_pf :: "PFInfo \<Rightarrow> PFInfo \<Rightarrow> bool" where
  "same_pf pf' pf = (pf_Name pf' = pf_Name pf \<and> Authenticated pf' = Authenticated pf \<and>
     AuthenticatedAddrs pf' = AuthenticatedAddrs pf \<and>
     set (map_keys (VFs pf')) = set (map_keys (VFs pf)))"

lemma same_pf_update:
  "map_of (VFs pf) k = Some vi \<Longrightarrow> same_pf (pf\<lparr>VFs := AList.update k v (VFs pf)\<rparr>) pf"
  unfolding same_pf_def using map_of_keys [of "VFs pf" k] by auto

lemma vlan_change_loop_same [frame]:
  "vlan_change_loop E vfs pf h = (r, pf', h') \<Longrightarrow> same_pf pf' pf"
proof (induction vfs arbitrary: pf h)
  case (Cons vf rest)
  from Cons.prems show ?case
  proof (cases rule: vlan_change_Cons)
    case skip
    then show ?thesis by (rule Cons.IH)
  next
    case (fail vi e)
    then show ?thesis by (simp add: same_pf_update)
  next
    case (step vi pf1 h1)
    then show ?thesis using same_pf_update [of pf "vf_ID vf" vi] Cons.IH [OF step(4)]
      by (simp add: same_pf_def)
  qed
qed (simp add: same_pf_def)

lemma pf_ok_update:
  "pf_ok pf \<Longrightarrow> Index v = k \<Longrightarrow> pf_ok (pf\<lparr>VFs := AList.update k v (VFs pf)\<rparr>)"
  by (auto simp: pf_ok_def list_all_iff amap.ok_put set_update)

lemma pf_ok_Index: "pf_ok pf \<Longrightarrow> map_of (VFs pf) k = Some v \<Longrightarrow> Index v = k"
  by (auto simp: pf_ok_def list_all_iff map_ok_mem [symmetric])

lemma vlan_change_loop_only [frame]:
  "vlan_change_loop E vfs pf h = (r, pf', h') \<Longrightarrow> only is_vf_call h' h"
proof (induction vfs arbitrary: pf h)
  case (Cons vf rest)
  from Cons.prems show ?case
    by (cases rule: vlan_change_Cons)
      (metis Cons.IH ConfigureVlanState_only only_trans snd_conv)+
qed simp

lemma vlan_change_loop_closing:
  "\<not> Authenticated pf \<Longrightarrow> vlan_change_loop E vfs pf h = (r, pf', h') \<Longrightarrow>
     only closing_call h' h"
proof (induction vfs arbitrary: pf h)
  case (Cons vf rest)
  from Cons.prems(2) show ?case
  proof (cases rule: vlan_change_Cons)
    case skip
    with Cons show ?thesis by blast
  next
    case (fail vi e)
    with Cons.prems(1) ConfigureVlanState_closing show ?thesis
      by (metis PFInfo.select_convs(2) PFInfo.surjective PFInfo.update_convs(4) snd_conv)
  next
    case (step vi pf1 h1)
    then have "\<not> Authenticated pf1" using Cons.prems(1) by simp
    with step Cons.IH ConfigureVlanState_closing show ?thesis
      by (metis only_trans snd_conv)
  qed
qed simp

lemma vlan_change_loop_ok:
  "pf_ok pf \<Longrightarrow> vlan_change_loop E vfs pf h = (r, pf', h') \<Longrightarrow> pf_ok pf'"
proof (induction vfs arbitrary: pf h)
  case (Cons vf rest)
  have upd: "pf_ok (pf\<lparr>VFs := AList.update (vf_ID vf) (vi\<lparr>Vlan := v\<rparr>) (VFs pf)\<rparr>)"
    if "map_of (VFs pf) (vf_ID vf) = Some vi" for vi v
    using Cons.prems(1) pf_ok_Index [OF Cons.prems(1) that] by (intro pf_ok_update) simp_all
  from Cons.prems(2) show ?case
    by (cases rule: vlan_change_Cons) (use Cons upd in blast)+
qed simp

lemma vfs_set_update:
  assumes ok: "pf_ok pf" "names_ok E" and old: "vfs_set h pf"
    and vi: "Index vi = k"
    and conf: "ConfigureVlanState E (pf\<lparr>VFs := AList.update k vi (VFs pf)\<rparr>) vi h = (None, h')"
  shows "vfs_set h' (pf\<lparr>VFs := AList.update k vi (VFs pf)\<rparr>)"
  using old ConfigureVlanState_done [OF ok(2) conf] vi ok(1)
  by (auto simp: vfs_set_def set_update pf_ok_def target_vlan_def target_state_def)

lemma vlan_change_loop_set:
  assumes "names_ok E" and "vlan_change_loop E vfs pf h = (None, pf', h')"
    and "pf_ok pf" and "vfs_set h pf"
  shows "vfs_set h' pf'"
  using assms(2,3,4)
proof (induction vfs arbitrary: pf h)
  case (Cons vf rest)
  from Cons.prems(1) show ?case
  proof (cases rule: vlan_change_Cons)
    case skip
    with Cons show ?thesis by blast
  next
    case (step vi pf1 h1)
    let ?vi = "vi\<lparr>Vlan := vf_Vlan vf\<rparr>"
    have idx: "Index ?vi = vf_ID vf" using pf_ok_Index [OF Cons.prems(2) step(1)] by simp
    have "vfs_set h1 pf1"
      using vfs_set_update [OF Cons.prems(2) assms(1) Cons.prems(3) idx] step(2,3) by simp
    moreover have "pf_ok pf1" using pf_ok_update [OF Cons.prems(2) idx] step(2) by simp
    ultimately show ?thesis using Cons.IH [OF step(4)] by blast
  qed simp
qed simp

lemma vlan_change_loop_other:
  "vlan_change_loop E vfs pf h = (r, pf', h') \<Longrightarrow> k \<notin> vf_ID ` set vfs \<Longrightarrow>
     map_of (VFs pf') k = map_of (VFs pf) k"
proof (induction vfs arbitrary: pf h)
  case (Cons vf rest)
  from Cons.prems(1) show ?case
    by (cases rule: vlan_change_Cons) (use Cons in \<open>auto simp: update_conv'\<close>)
qed simp

lemma vlan_change_loop_records:
  assumes "vlan_change_loop E vfs pf h = (None, pf', h')" and "distinct (map vf_ID vfs)"
    and "vf \<in> set vfs" and "map_of (VFs pf) (vf_ID vf) = Some vi"
  shows "map_of (VFs pf') (vf_ID vf) =
           Some (if vf_Vlan vf = ReservedVlan then vi else vi\<lparr>Vlan := vf_Vlan vf\<rparr>)"
  using assms
proof (induction vfs arbitrary: pf h)
  case (Cons x rest)
  show ?case
  proof (cases "x = vf")
    case True
    have id: "vi\<lparr>Vlan := vf_Vlan vf\<rparr> = vi" if "Vlan vi = vf_Vlan vf" using that by simp
    from True Cons.prems(2) have "vf_ID vf \<notin> vf_ID ` set rest" by simp
    with True Cons.prems(1,4) id show ?thesis
      by (auto simp: Let_def update_conv' split: option.splits if_splits prod.splits
          dest!: vlan_change_loop_other)
  next
    case False
    with Cons.prems have rest: "vf \<in> set rest" and ne: "vf_ID x \<noteq> vf_ID vf" by auto
    from Cons.prems(1) show ?thesis
      by (cases rule: vlan_change_Cons)
        (use Cons rest ne in \<open>auto simp: update_conv'\<close>)
  qed
qed simp

lemma vlan_change_loop_quiet:
  "\<forall>vf\<in>set vfs. vf_Vlan vf = ReservedVlan \<or>
     (\<forall>vi. map_of (VFs pf) (vf_ID vf) = Some vi \<longrightarrow> Vlan vi = vf_Vlan vf) \<Longrightarrow>
   vlan_change_loop E vfs pf h = (None, pf, h)"
  by (induction vfs) (auto split: option.splits)



text \<open>
  An event that reports no change (every VF untracked, on the reserved VLAN, or on the
  VLAN on record) makes no call but the lookup. The handler's own settings therefore do
  not trigger further settings; and a VF that somebody puts back on its recorded VLAN
  while no client is authenticated is left there, off the reserved VLAN.
\<close>

lemma vlan_change_quiet:
  assumes "env_LinkByName E h (pf_Name pf) = Inr l"
    and "\<forall>vf\<in>set (link_Vfs l). vf_Vlan vf = ReservedVlan \<or>
      (\<forall>vi. map_of (VFs pf) (vf_ID vf) = Some vi \<longrightarrow> Vlan vi = vf_Vlan vf)"
  shows "HandlePfEventForVlanChange E pf h = (None, pf, CLinkByName (pf_Name pf) # h)"
  using assms by (simp add: HandlePfEventForVlanChange_def LinkByName_def vlan_change_loop_quiet)

lemma vlan_change_quiet_witness:
  "\<not> Authenticated pf0 \<and>
   HandlePfEventForVlanChange (calm [\<lparr>vf_ID = 0, vf_Vlan = 100\<rparr>] a0) pf0 [] =
     (None, pf0, [CLinkByName ''eth0''])"
  using vlan_change_quiet [of "calm [\<lparr>vf_ID = 0, vf_Vlan = 100\<rparr>] a0" "[]" pf0]
  by (simp add: pf0_def)

section \<open>The record of a PF\<close>

lemma vf_entries_ok:
  "map_ok m \<Longrightarrow> list_all (\<lambda>(k, v). Index v = k) m \<Longrightarrow>
   list_all (\<lambda>(k, v). Index v = k) (fold (\<lambda>(k, v). AList.update k v) (map vf_entry vfs) m)"
proof (induction vfs arbitrary: m)
  case (Cons vf vfs)
  let ?m = "AList.update (vf_ID vf) \<lparr>Index = vf_ID vf, Vlan = vf_Vlan vf\<rparr> m"
  from Cons.prems have "map_ok ?m" and "list_all (\<lambda>(k, v). Index v = k) ?m"
    by (auto simp: list_all_iff set_update amap.ok_put)
  then have "list_all (\<lambda>(k, v). Index v = k)
    (fold (\<lambda>(k, v). AList.update k v) (map vf_entry vfs) ?m)" by (rule Cons.IH)
  then show ?case by (simp add: vf_entry_def [of vf])
qed simp

lemma GetSriovPFInfo_fields:
  assumes "GetSriovPFInfo E n h = (Inr pf, h')"
  shows "pf_ok pf \<and> pf_Name pf = n \<and> \<not> Authenticated pf \<and> AuthenticatedAddrs pf = [] \<and>
    only is_read h' h \<and>
    (\<exists>l. env_LinkByName E h n = Inr l \<and>
       map_of (VFs pf) = map_of (rev (map vf_entry (link_Vfs l))))"
  using assms vf_entries_ok [of "[]"] amap.ok_put_pairs [of "[]"]
  by (auto simp: GetSriovPFInfo_def LinkByName_def pf_ok_def amap.look_put_pairs fun_eq_iff
      split: sum.splits option.splits)

end
