(* ===== verification/TrafficControl.thy ===== *)
theory TrafficControl
  imports Sriov
begin

text \<open>
  \<open>internal/trafficcontrol/tc.go\<close>: the \<open>tc\<close> commands that admit or drop the traffic
  of a MAC address, and the set-up and removal of the filters of an interface.
\<close>

section \<open>Commands\<close>

definition allow_cmd :: "string \<Rightarrow> string \<Rightarrow> string" where
  "allow_cmd iface macAddress =
     ''tc filter replace dev '' @ iface @
     '' ingress pref 9000 protocol all flower src_mac '' @ macAddress @ '' action ok''"

definition deny_cmd :: "string \<Rightarrow> string \<Rightarrow> string" where
  "deny_cmd iface macAddress =
     ''tc filter replace dev '' @ iface @
     '' ingress pref 9000 protocol all flower src_mac '' @ macAddress @ '' action drop''"

fun run_all :: "env \<Rightarrow> string list \<Rightarrow> hist \<Rightarrow> err option \<times> hist" where
  "run_all E [] h = (None, h)"
| "run_all E (cmd # cmds) h =
     (case Run E cmd h of
        (Some e, h1) \<Rightarrow> (Some e, h1)
      | (None, h1) \<Rightarrow> run_all E cmds h1)"

section \<open>Admitting and dropping a MAC address\<close>

definition AllowTrafficFromMac ::
  "env \<Rightarrow> PFInfo \<Rightarrow> string \<Rightarrow> hist \<Rightarrow> err option \<times> PFInfo \<times> hist" where
  "AllowTrafficFromMac E pf macAddress h =
     (let first = (length (AuthenticatedAddrs pf) = 1);
          pf1 = (if first then pf\<lparr>Authenticated := True\<rparr> else pf)
      in case (if first then ConfigureVlanStateForVFs E pf1 h else (None, h)) of
           (Some e, h1) \<Rightarrow> (Some e, pf1, h1)
         | (None, h1) \<Rightarrow>
             (case LookPath E ''tc'' h1 of
                (Some e, h2) \<Rightarrow> (Some e, pf1, h2)
              | (None, h2) \<Rightarrow>
                  (case GetAssociatedInterfaces E (pf_Name pf1) h2 of
                     (Inl e, h3) \<Rightarrow> (Some e, pf1, h3)
                   | (Inr interfaces, h3) \<Rightarrow>
                       (case run_all E (map (\<lambda>iface. allow_cmd iface macAddress) interfaces) h3 of
                          (r, h4) \<Rightarrow> (r, pf1, h4)))))"

definition DenyTrafficFromMac ::
  "env \<Rightarrow> PFInfo \<Rightarrow> string \<Rightarrow> hist \<Rightarrow> err option \<times> PFInfo \<times> hist" where
  "DenyTrafficFromMac E pf macAddress h =
     (let none = (length (AuthenticatedAddrs pf) = 0);
          pf1 = (if none then pf\<lparr>Authenticated := False\<rparr> else pf)
      in case (if none then ConfigureVlanStateForVFs E pf1 h else (None, h)) of
           (Some e, h1) \<Rightarrow> (Some e, pf1, h1)
         | (None, h1) \<Rightarrow>
             (case LookPath E ''tc'' h1 of
                (Some e, h2) \<Rightarrow> (Some e, pf1, h2)
              | (None, h2) \<Rightarrow>
                  (case GetAssociatedInterfaces E (pf_Name pf1) h2 of
                     (Inl e, h3) \<Rightarrow> (Some e, pf1, h3)
                   | (Inr interfaces, h3) \<Rightarrow>
                       (case run_all E (map (\<lambda>iface. deny_cmd iface macAddress) interfaces) h3 of
                          (r, h4) \<Rightarrow> (r, pf1, h4)))))"

section \<open>Setting an interface up and resetting it\<close>

definition ResetInterface :: "env \<Rightarrow> string \<Rightarrow> hist \<Rightarrow> err option \<times> hist" where
  "ResetInterface E ifName h =
     (case LookPath E ''tc'' h of
        (Some e, h1) \<Rightarrow> (Some e, h1)
      | (None, h1) \<Rightarrow>
          (case Run E (''tc qdisc del dev '' @ ifName @ '' ingress >/dev/null 2>&1 || true'') h1 of
             (Some e, h2) \<Rightarrow> (Some e, h2)
           | (None, h2) \<Rightarrow>
               Run E (''tc qdisc del dev '' @ ifName @ '' clsact >/dev/null 2>&1 || true'') h2))"

definition port_cmd :: "string \<Rightarrow> string \<Rightarrow> int \<Rightarrow> string" where
  "port_cmd ifName protocol port =
     ''tc filter add dev '' @ ifName @ '' ingress pref 9999 protocol ip u32 match '' @ protocol @
     '' dst '' @ Itoa port @ '' 0xffff action ok index 99''"

definition port6_cmd :: "string \<Rightarrow> int \<Rightarrow> string" where
  "port6_cmd ifName port =
     ''tc filter add dev '' @ ifName @ '' ingress pref 9999 protocol ipv6 u32 match ip6 dport '' @
     Itoa port @ '' 0xffff action ok index 100''"

text \<open>The port filters are added one by one; a failure is logged and the loop goes on.\<close>

fun run_each :: "env \<Rightarrow> string list \<Rightarrow> hist \<Rightarrow> hist" where
  "run_each E [] h = h"
| "run_each E (cmd # cmds) h = run_each E cmds (snd (Run E cmd h))"

definition UnprotectPorts ::
  "env \<Rightarrow> string \<Rightarrow> string \<Rightarrow> int list \<Rightarrow> hist \<Rightarrow> err option \<times> hist" where
  "UnprotectPorts E ifName protocol ports h =
     (case LookPath E ''tc'' h of
        (Some e, h1) \<Rightarrow> (Some e, h1)
      | (None, h1) \<Rightarrow> (None, run_each E (map (port_cmd ifName protocol) ports) h1))"

definition UnprotectIPv6Ports :: "env \<Rightarrow> string \<Rightarrow> int list \<Rightarrow> hist \<Rightarrow> err option \<times> hist" where
  "UnprotectIPv6Ports E ifName ports h =
     (case LookPath E ''tc'' h of
        (Some e, h1) \<Rightarrow> (Some e, h1)
      | (None, h1) \<Rightarrow> (None, run_each E (map (port6_cmd ifName) ports) h1))"

definition qdisc_cmd :: "string \<Rightarrow> string" where
  "qdisc_cmd ifName = ''tc qdisc add dev '' @ ifName @ '' clsact || return $?''"

definition drop_cmd :: "string \<Rightarrow> string" where
  "drop_cmd ifName = ''tc filter add dev '' @ ifName @
     '' ingress pref 10001 protocol all matchall action drop index 101 || return $?''"

definition eapol_cmd :: "string \<Rightarrow> string" where
  "eapol_cmd ifName = ''tc filter add dev '' @ ifName @
     '' ingress pref 10000 protocol 0x888e matchall action ok index 100 || return $?''"

definition tcpProtoStr :: string where "tcpProtoStr = ''tcp''"
definition udpProtoStr :: string where "udpProtoStr = ''udp''"

definition unprotect_all ::
  "env \<Rightarrow> string \<Rightarrow> int list \<Rightarrow> int list \<Rightarrow> hist \<Rightarrow> err option \<times> hist" where
  "unprotect_all E ifName tcpPorts udpPorts h =
     (case (if tcpPorts \<noteq> [] then UnprotectPorts E ifName tcpProtoStr tcpPorts h else (None, h)) of
        (Some e, h1) \<Rightarrow> (Some e, h1)
      | (None, h1) \<Rightarrow>
          (case (if udpPorts \<noteq> [] then UnprotectPorts E ifName udpProtoStr udpPorts h1
                 else (None, h1)) of
             (Some e, h2) \<Rightarrow> (Some e, h2)
           | (None, h2) \<Rightarrow>
               (let unprotectPorts = tcpPorts @ udpPorts
                in if unprotectPorts \<noteq> [] then UnprotectIPv6Ports E ifName unprotectPorts h2
                   else (None, h2))))"

definition InitInterfaceForEAPTraffic ::
  "env \<Rightarrow> string \<Rightarrow> int list \<Rightarrow> int list \<Rightarrow> hist \<Rightarrow> err option \<times> hist" where
  "InitInterfaceForEAPTraffic E ifName tcpPorts udpPorts h =
     (case ResetInterface E ifName h of
        (Some e, h1) \<Rightarrow> (Some e, h1)
      | (None, h1) \<Rightarrow>
          (case Run E (qdisc_cmd ifName) h1 of
             (Some e, h2) \<Rightarrow> (Some e, h2)
           | (None, h2) \<Rightarrow>
               (case Run E (drop_cmd ifName) h2 of
                  (Some e, h3) \<Rightarrow> (Some e, h3)
                | (None, h3) \<Rightarrow>
                    (case IsSriovPF E ifName h3 of
                       (False, h4) \<Rightarrow> (None, h4)
                     | (True, h4) \<Rightarrow>
                         (case Run E (eapol_cmd ifName) h4 of
                            (Some e, h5) \<Rightarrow> (Some e, h5)
                          | (None, h5) \<Rightarrow> unprotect_all E ifName tcpPorts udpPorts h5)))))"

section \<open>What a history says about a MAC address\<close>

text \<open>
  The verdict last given to a MAC address on an interface, by the commands that
  succeeded.
\<close>

datatype verdict = Accept | Drop

fun mac_verdict :: "(string \<times> err option) list \<Rightarrow> string \<Rightarrow> string \<Rightarrow> verdict option" where
  "mac_verdict [] iface mac = None"
| "mac_verdict ((cmd, r) # rs) iface mac =
     (if r \<noteq> None then mac_verdict rs iface mac
      else if cmd = allow_cmd iface mac then Some Accept
      else if cmd = deny_cmd iface mac then Some Drop
      else mac_verdict rs iface mac)"

definition no_blank :: "string \<Rightarrow> bool" where
  "no_blank s = (CHR '' '' \<notin> set s)"

text \<open>The commands for different addresses or interfaces differ, since neither contains
  a blank: their blank-separated words differ.\<close>

lemma allow_cmd_words:
  "no_blank i \<Longrightarrow> no_blank m \<Longrightarrow> Split (allow_cmd i m) (CHR '' '') =
     [''tc'', ''filter'', ''replace'', ''dev'', i, ''ingress'', ''pref'', ''9000'', ''protocol'',
      ''all'', ''flower'', ''src_mac'', m, ''action'', ''ok'']"
  by (simp add: allow_cmd_def no_blank_def Split_append_sep)

lemma deny_cmd_words:
  "no_blank i \<Longrightarrow> no_blank m \<Longrightarrow> Split (deny_cmd i m) (CHR '' '') =
     [''tc'', ''filter'', ''replace'', ''dev'', i, ''ingress'', ''pref'', ''9000'', ''protocol'',
      ''all'', ''flower'', ''src_mac'', m, ''action'', ''drop'']"
  by (simp add: deny_cmd_def no_blank_def Split_append_sep)

lemma allow_cmd_inject:
  assumes "no_blank i" "no_blank m" "no_blank i'" "no_blank m'"
  shows "allow_cmd i m = allow_cmd i' m' \<longleftrightarrow> i = i' \<and> m = m'"
proof
  assume "allow_cmd i m = allow_cmd i' m'"
  then have "Split (allow_cmd i m) (CHR '' '') = Split (allow_cmd i' m') (CHR '' '')" by simp
  then show "i = i' \<and> m = m'" unfolding allow_cmd_words [OF assms(1,2)] allow_cmd_words [OF assms(3,4)]
    by blast
qed simp

lemma deny_cmd_inject:
  assumes "no_blank i" "no_blank m" "no_blank i'" "no_blank m'"
  shows "deny_cmd i m = deny_cmd i' m' \<longleftrightarrow> i = i' \<and> m = m'"
proof
  assume "deny_cmd i m = deny_cmd i' m'"
  then have "Split (deny_cmd i m) (CHR '' '') = Split (deny_cmd i' m') (CHR '' '')" by simp
  then show "i = i' \<and> m = m'" unfolding deny_cmd_words [OF assms(1,2)] deny_cmd_words [OF assms(3,4)]
    by blast
qed simp

lemma allow_not_deny:
  assumes "no_blank i" "no_blank m" "no_blank i'" "no_blank m'"
  shows "allow_cmd i m \<noteq> deny_cmd i' m'"
proof
  assume "allow_cmd i m = deny_cmd i' m'"
  then have "last (Split (allow_cmd i m) (CHR '' '')) = last (Split (deny_cmd i' m') (CHR '' ''))"
    by simp
  then show False unfolding allow_cmd_words [OF assms(1,2)] deny_cmd_words [OF assms(3,4)] by simp
qed

lemmas cmd_simps = allow_cmd_inject deny_cmd_inject allow_not_deny allow_not_deny [symmetric]

section \<open>Frames\<close>

lemma run_all_only [frame]: "only is_run_call (snd (run_all E cmds h)) h"
proof (induction E cmds h rule: run_all.induct)
  case (2 E cmd cmds h)
  then show ?case
    by (cases "env_Run E h cmd") (auto simp: Run_def Let_def intro: only_Cons)
qed simp

lemma run_all_ok:
  "run_all E cmds h = (None, h') \<Longrightarrow> runs h' = rev (map (\<lambda>c. (c, None)) cmds) @ runs h"
proof (induction cmds arbitrary: h)
  case (Cons c cmds)
  then show ?case by (cases "env_Run E h c") (auto simp: Run_def Let_def)
qed simp

lemma run_each_runs:
  "map fst (runs (run_each E cmds h)) = rev cmds @ map fst (runs h)"
  by (induction E cmds h rule: run_each.induct) (auto simp: Run_def Let_def)

section \<open>The common shape of allow and deny\<close>

text \<open>
  Both operations first bring the VFs in line with the authentication flag when the set
  of clients has just become a singleton (allow) or empty (deny), and then run one
  command per associated interface.
\<close>

definition apply_policy ::
  "env \<Rightarrow> bool \<Rightarrow> (string \<Rightarrow> string) \<Rightarrow> PFInfo \<Rightarrow> hist \<Rightarrow> err option \<times> hist" where
  "apply_policy E conf cmd pf h =
     (case (if conf then ConfigureVlanStateForVFs E pf h else (None, h)) of
        (Some e, h1) \<Rightarrow> (Some e, h1)
      | (None, h1) \<Rightarrow>
          (case LookPath E ''tc'' h1 of
             (Some e, h2) \<Rightarrow> (Some e, h2)
           | (None, h2) \<Rightarrow>
               (case GetAssociatedInterfaces E (pf_Name pf) h2 of
                  (Inl e, h3) \<Rightarrow> (Some e, h3)
                | (Inr interfaces, h3) \<Rightarrow> run_all E (map cmd interfaces) h3)))"

definition allow_pf :: "PFInfo \<Rightarrow> PFInfo" where
  "allow_pf pf = (if length (AuthenticatedAddrs pf) = 1 then pf\<lparr>Authenticated := True\<rparr> else pf)"

definition deny_pf :: "PFInfo \<Rightarrow> PFInfo" where
  "deny_pf pf = (if length (AuthenticatedAddrs pf) = 0 then pf\<lparr>Authenticated := False\<rparr> else pf)"

lemma Allow_apply:
  "AllowTrafficFromMac E pf mac h =
     (case apply_policy E (length (AuthenticatedAddrs pf) = 1) (\<lambda>i. allow_cmd i mac)
             (allow_pf pf) h of (r, h') \<Rightarrow> (r, allow_pf pf, h'))"
  by (auto simp: AllowTrafficFromMac_def apply_policy_def allow_pf_def Let_def
      split: prod.splits option.splits sum.splits)

lemma Deny_apply:
  "DenyTrafficFromMac E pf mac h =
     (case apply_policy E (length (AuthenticatedAddrs pf) = 0) (\<lambda>i. deny_cmd i mac)
             (deny_pf pf) h of (r, h') \<Rightarrow> (r, deny_pf pf, h'))"
  by (auto simp: DenyTrafficFromMac_def apply_policy_def deny_pf_def Let_def
      split: prod.splits option.splits sum.splits)

lemma apply_policy_only [frame]:
  "apply_policy E conf cmd pf h = (r, h') \<Longrightarrow> only is_tc_call h' h"
  unfolding apply_policy_def
  using ConfigureVlanStateForVFs_only [of E pf h, THEN only_vf_tc]
    GetAssociatedInterfaces_only [THEN only_read_run, THEN only_run_tc, of E "pf_Name pf"]
    run_all_only [THEN only_run_tc, of E]
  by (auto simp: LookPath_def is_tc_call_def split: prod.splits option.splits sum.splits if_splits)
    (metis (no_types, lifting) is_read.simps(2) is_read_run is_tc_call_def only_Cons only_add
      only_trans snd_conv)+

section \<open>Interface names\<close>

text \<open>The kernel gives no network device a name with a blank in it.\<close>

definition blank_free :: "env \<Rightarrow> bool" where
  "blank_free E = (\<forall>h n l. env_LinkByName E h n = Inr l \<longrightarrow> no_blank (link_Name l))"

lemma vf_names_loop_blank:
  "blank_free E \<Longrightarrow> \<forall>i\<in>set acc. no_blank i \<Longrightarrow> vf_names_loop E acc ds h = (Inr ifs, h') \<Longrightarrow>
   \<forall>i\<in>set ifs. no_blank i"
proof (induction ds arbitrary: acc h)
  case (Cons d ds)
  have new: "\<forall>i\<in>set (acc @ [link_Name l]). no_blank i"
    if "env_LinkByName E g n = Inr l" for g n l
    using that Cons.prems(1,2) by (auto simp: blank_free_def)
  show ?case
    using Cons.prems(3) Cons.IH [OF Cons.prems(1,2)] Cons.IH [OF Cons.prems(1) new]
    by (auto simp: Let_def go_defs split: prod.splits bool.splits sum.splits list.splits)
qed simp

lemma associated_blank:
  assumes "GetAssociatedInterfaces E n h = (Inr ifs, h')" and "blank_free E" and "no_blank n"
  shows "\<forall>i\<in>set ifs. no_blank i"
  using assms vf_names_loop_blank [OF assms(2), of "[]"]
  by (auto simp: GetAssociatedInterfaces_def GetSriovVFs_def
      split: prod.splits bool.splits sum.splits)

lemma associated_hd:
  "GetAssociatedInterfaces E n h = (Inr ifs, h') \<Longrightarrow> \<exists>vfs. ifs = n # vfs"
  by (auto simp: GetAssociatedInterfaces_def split: prod.splits bool.splits sum.splits)

section \<open>What allow and deny achieve\<close>

lemma run_all_prefix:
  "\<exists>cs. runs (snd (run_all E cmds h)) = cs @ runs h \<and> fst ` set cs \<subseteq> set cmds"
proof (induction cmds arbitrary: h)
  case (Cons c cmds)
  show ?case
  proof (cases "env_Run E h c")
    case None
    obtain cs where "runs (snd (run_all E cmds (CRun c None # h))) = cs @ (c, None) # runs h"
      and "fst ` set cs \<subseteq> set cmds"
      using Cons.IH [of "CRun c None # h"] by auto
    with None show ?thesis
      by (intro exI [of _ "cs @ [(c, None)]"]) (auto simp: Run_def Let_def)
  next
    case (Some e)
    then show ?thesis
      by (intro exI [of _ "[(c, Some e)]"]) (simp add: Run_def Let_def)
  qed
qed simp

text \<open>Whatever happens, only commands for associated interfaces are run.\<close>

lemma apply_policy_runs:
  assumes "apply_policy E conf cmd pf h = (r, h')" and "blank_free E" and "no_blank (pf_Name pf)"
  shows "\<exists>cs. runs h' = cs @ runs h \<and> (\<forall>(c, r)\<in>set cs. \<exists>i. no_blank i \<and> c = cmd i)"
proof -
  let ?c = "if conf then ConfigureVlanStateForVFs E pf h else (None, h)"
  have c: "runs (snd ?c) = runs h"
    using only_vf_runs [OF ConfigureVlanStateForVFs_only] by simp
  obtain ga h3 where g: "GetAssociatedInterfaces E (pf_Name pf) (CLookPath ''tc'' # snd ?c) = (ga, h3)"
    by fastforce
  have h3: "runs h3 = runs h"
    using only_read_runs [OF GetAssociatedInterfaces_only, of E "pf_Name pf" "CLookPath ''tc'' # snd ?c"]
      g c by simp
  show ?thesis
  proof (cases "fst ?c = None \<and> env_LookPath E (snd ?c) ''tc'' = None \<and> (\<exists>ifs. ga = Inr ifs)")
    case True
    then obtain ifs where ifs: "ga = Inr ifs" by blast
    with True g assms(1) have run: "run_all E (map cmd ifs) h3 = (r, h')"
      by (cases ?c) (auto simp: apply_policy_def LookPath_def)
    have blank: "\<forall>i\<in>set ifs. no_blank i"
      using associated_blank [OF _ assms(2,3)] g ifs by simp
    obtain cs where cs: "runs h' = cs @ runs h3" "fst ` set cs \<subseteq> cmd ` set ifs"
      using run_all_prefix [of E "map cmd ifs" h3] run by auto
    have "\<exists>i. no_blank i \<and> c = cmd i" if "(c, x) \<in> set cs" for c x
    proof -
      from that have "c \<in> fst ` set cs" by force
      with cs(2) blank show ?thesis by blast
    qed
    with cs(1) h3 show ?thesis by auto
  next
    case False
    then have "runs h' = runs h"
      using assms(1) g c h3
      by (cases ?c; cases ga) (auto simp: apply_policy_def LookPath_def split: option.splits)
    then show ?thesis by simp
  qed
qed

lemma apply_policy_ok:
  assumes "apply_policy E conf cmd pf h = (None, h')"
  obtains h1 g ifs g' where
    "(if conf then ConfigureVlanStateForVFs E pf h else (None, h)) = (None, h1)"
    "only is_run_call h' h1"
    "GetAssociatedInterfaces E (pf_Name pf) g = (Inr ifs, g')"
    "runs h' = rev (map (\<lambda>i. (cmd i, None)) ifs) @ runs h"
proof -
  from assms obtain h1 where
    h1: "(if conf then ConfigureVlanStateForVFs E pf h else (None, h)) = (None, h1)"
    and rest: "(case GetAssociatedInterfaces E (pf_Name pf) (CLookPath ''tc'' # h1) of
                  (Inl e, h3) \<Rightarrow> (Some e, h3)
                | (Inr interfaces, h3) \<Rightarrow> run_all E (map cmd interfaces) h3) = (None, h')"
    unfolding apply_policy_def LookPath_def by (auto split: prod.splits option.splits)
  from rest obtain ifs g' where
    g: "GetAssociatedInterfaces E (pf_Name pf) (CLookPath ''tc'' # h1) = (Inr ifs, g')"
    and run: "run_all E (map cmd ifs) g' = (None, h')"
    by (auto split: prod.splits sum.splits)
  have read: "only is_read g' h1"
    using only_Cons [OF GetAssociatedInterfaces_only] g by (metis is_read.simps(2) snd_conv)
  have "runs h1 = runs h"
    using h1 only_vf_runs [OF ConfigureVlanStateForVFs_only, of E pf h] by (auto split: if_splits)
  then have "runs h' = rev (map (\<lambda>i. (cmd i, None)) ifs) @ runs h"
    using run_all_ok [OF run] only_read_runs [OF read] by (simp add: comp_def)
  moreover have "only is_run_call h' h1"
    using only_trans [OF run_all_only only_read_run [OF read], of E "map cmd ifs"] run by simp
  ultimately show thesis using that [OF h1 _ g] by blast
qed

section \<open>Verdicts\<close>

lemma mac_verdict_allow:
  assumes "\<forall>i\<in>set ifs. no_blank i" and "no_blank m" "no_blank i'" "no_blank m'"
  shows "mac_verdict (map (\<lambda>i. (allow_cmd i m, None)) ifs @ rs) i' m' =
    (if m' = m \<and> i' \<in> set ifs then Some Accept else mac_verdict rs i' m')"
  using assms by (induction ifs) (auto simp: cmd_simps)

lemma mac_verdict_deny:
  assumes "\<forall>i\<in>set ifs. no_blank i" and "no_blank m" "no_blank i'" "no_blank m'"
  shows "mac_verdict (map (\<lambda>i. (deny_cmd i m, None)) ifs @ rs) i' m' =
    (if m' = m \<and> i' \<in> set ifs then Some Drop else mac_verdict rs i' m')"
  using assms by (induction ifs) (auto simp: cmd_simps)

lemma mac_verdict_other:
  assumes "\<forall>(c, r)\<in>set cs. \<exists>i. no_blank i \<and> (c = allow_cmd i m \<or> c = deny_cmd i m)"
    and "no_blank m" "no_blank i'" "no_blank m'" "m' \<noteq> m"
  shows "mac_verdict (cs @ rs) i' m' = mac_verdict rs i' m'"
  using assms by (induction cs) (auto simp: cmd_simps)

text \<open>Discovery finds the same interfaces whenever it succeeds.\<close>

definition stable :: "env \<Rightarrow> string \<Rightarrow> string list \<Rightarrow> bool" where
  "stable E n ifs = (\<forall>h r h'. GetAssociatedInterfaces E n h = (Inr r, h') \<longrightarrow> r = ifs)"

definition host_ok :: "string \<Rightarrow> string list \<Rightarrow> env \<Rightarrow> bool" where
  "host_ok n ifs E = (names_ok E \<and> blank_free E \<and> stable E n ifs)"

section \<open>The contract of traffic control\<close>

text \<open>
  What the monitor relies on: the flag \<open>Authenticated\<close> follows the size of the client
  set at the two places where it can change, the VFs are brought in line with the flag,
  and exactly the given address gets the new verdict, on all interfaces of the PF.
\<close>

locale mac_policy =
  fixes allow :: "env \<Rightarrow> PFInfo \<Rightarrow> string \<Rightarrow> hist \<Rightarrow> err option \<times> PFInfo \<times> hist"
    and deny :: "env \<Rightarrow> PFInfo \<Rightarrow> string \<Rightarrow> hist \<Rightarrow> err option \<times> PFInfo \<times> hist"
  assumes allow_state: "allow E pf m h = (r, pf', h') \<Longrightarrow> pf' = allow_pf pf"
    and deny_state: "deny E pf m h = (r, pf', h') \<Longrightarrow> pf' = deny_pf pf"
    and allow_calls: "allow E pf m h = (r, pf', h') \<Longrightarrow> only is_tc_call h' h"
    and deny_calls: "deny E pf m h = (r, pf', h') \<Longrightarrow> only is_tc_call h' h"
    and allow_vfs: "allow E pf m h = (None, pf', h') \<Longrightarrow> names_ok E \<Longrightarrow> pf_ok pf \<Longrightarrow>
      (length (AuthenticatedAddrs pf) \<noteq> 1 \<longrightarrow> vfs_set h pf) \<Longrightarrow> vfs_set h' pf'"
    and deny_vfs: "deny E pf m h = (None, pf', h') \<Longrightarrow> names_ok E \<Longrightarrow> pf_ok pf \<Longrightarrow>
      (AuthenticatedAddrs pf \<noteq> [] \<longrightarrow> vfs_set h pf) \<Longrightarrow> vfs_set h' pf'"
    and allow_others: "allow E pf m h = (r, pf', h') \<Longrightarrow> blank_free E \<Longrightarrow>
      no_blank (pf_Name pf) \<Longrightarrow> no_blank m \<Longrightarrow> no_blank i \<Longrightarrow> no_blank m' \<Longrightarrow> m' \<noteq> m \<Longrightarrow>
      mac_verdict (runs h') i m' = mac_verdict (runs h) i m'"
    and deny_others: "deny E pf m h = (r, pf', h') \<Longrightarrow> blank_free E \<Longrightarrow>
      no_blank (pf_Name pf) \<Longrightarrow> no_blank m \<Longrightarrow> no_blank i \<Longrightarrow> no_blank m' \<Longrightarrow> m' \<noteq> m \<Longrightarrow>
      mac_verdict (runs h') i m' = mac_verdict (runs h) i m'"
    and allow_verdict: "allow E pf m h = (None, pf', h') \<Longrightarrow> host_ok (pf_Name pf) ifs E \<Longrightarrow>
      no_blank (pf_Name pf) \<Longrightarrow> no_blank m \<Longrightarrow> i \<in> set ifs \<Longrightarrow>
      no_blank i \<and> mac_verdict (runs h') i m = Some Accept"
    and deny_verdict: "deny E pf m h = (None, pf', h') \<Longrightarrow> host_ok (pf_Name pf) ifs E \<Longrightarrow>
      no_blank (pf_Name pf) \<Longrightarrow> no_blank m \<Longrightarrow> i \<in> set ifs \<Longrightarrow>
      no_blank i \<and> mac_verdict (runs h') i m = Some Drop"

text \<open>The flag says whether the client set is empty.\<close>

definition auth_sync :: "PFInfo \<Rightarrow> bool" where
  "auth_sync pf = (Authenticated pf \<longleftrightarrow> AuthenticatedAddrs pf \<noteq> [])"

text \<open>The VFs and the verdicts are those of the recorded client set.\<close>

definition enforced :: "string list \<Rightarrow> hist \<Rightarrow> PFInfo \<Rightarrow> bool" where
  "enforced ifs h pf = (vfs_set h pf \<and>
     (\<forall>i\<in>set ifs. \<forall>m. no_blank m \<longrightarrow>
        (mac_verdict (runs h) i m = Some Accept \<longleftrightarrow> m \<in> set (AuthenticatedAddrs pf))))"

definition enroll :: "string \<Rightarrow> PFInfo \<Rightarrow> PFInfo" where
  "enroll m pf = pf\<lparr>AuthenticatedAddrs := List.insert m (AuthenticatedAddrs pf)\<rparr>"

definition expel :: "string \<Rightarrow> PFInfo \<Rightarrow> PFInfo" where
  "expel m pf = pf\<lparr>AuthenticatedAddrs := removeAll m (AuthenticatedAddrs pf)\<rparr>"

lemma enroll_sel [simp]:
  "pf_Name (enroll m pf) = pf_Name pf" "VFs (enroll m pf) = VFs pf"
  "Authenticated (enroll m pf) = Authenticated pf"
  "AuthenticatedAddrs (enroll m pf) = List.insert m (AuthenticatedAddrs pf)"
  by (simp_all add: enroll_def)

lemma expel_sel [simp]:
  "pf_Name (expel m pf) = pf_Name pf" "VFs (expel m pf) = VFs pf"
  "Authenticated (expel m pf) = Authenticated pf"
  "AuthenticatedAddrs (expel m pf) = removeAll m (AuthenticatedAddrs pf)"
  by (simp_all add: expel_def)

lemma policy_pf_sel [simp]:
  "pf_Name (allow_pf pf) = pf_Name pf" "VFs (allow_pf pf) = VFs pf"
  "AuthenticatedAddrs (allow_pf pf) = AuthenticatedAddrs pf"
  "pf_Name (deny_pf pf) = pf_Name pf" "VFs (deny_pf pf) = VFs pf"
  "AuthenticatedAddrs (deny_pf pf) = AuthenticatedAddrs pf"
  by (simp_all add: allow_pf_def deny_pf_def)

lemma pf_ok_policy [simp]:
  "pf_ok pf \<Longrightarrow> pf_ok (allow_pf pf)" "pf_ok pf \<Longrightarrow> pf_ok (deny_pf pf)"
  "pf_ok pf \<Longrightarrow> pf_ok (enroll m pf)" "pf_ok pf \<Longrightarrow> pf_ok (expel m pf)"
  by (simp_all add: pf_ok_def distinct_removeAll)

lemma vfs_set_enroll [simp]: "vfs_set h (enroll m pf) = vfs_set h pf"
  by (simp add: vfs_set_def target_vlan_def target_state_def)

lemma vfs_set_expel [simp]: "vfs_set h (expel m pf) = vfs_set h pf"
  by (simp add: vfs_set_def target_vlan_def target_state_def)

lemma auth_sync_allow: "auth_sync pf \<Longrightarrow> auth_sync (allow_pf (enroll m pf))"
  by (cases "AuthenticatedAddrs pf") (auto simp: auth_sync_def allow_pf_def List.insert_def)

lemma auth_sync_deny: "auth_sync pf \<Longrightarrow> auth_sync (deny_pf (expel m pf))"
  by (cases "AuthenticatedAddrs pf") (auto simp: auth_sync_def deny_pf_def)

context mac_policy
begin

lemma enroll_enforced:
  assumes run: "allow E (enroll m pf) m h = (None, pf', h')"
    and host: "host_ok (pf_Name pf) ifs E" "no_blank (pf_Name pf)" "no_blank m" "pf_ok pf"
    and old: "enforced ifs h pf"
  shows "enforced ifs h' pf'"
proof -
  from host(1) have E: "names_ok E" "blank_free E" by (auto simp: host_ok_def)
  note ok = allow_verdict [OF run]
  have "mac_verdict (runs h') i x = Some Accept \<longleftrightarrow> x \<in> set (AuthenticatedAddrs pf')"
    if "i \<in> set ifs" "no_blank x" for i x
    using ok [of ifs i] allow_others [OF run E(2), of i x] host old that allow_state [OF run]
    by (cases "x = m") (auto simp: enforced_def)
  moreover have "vfs_set h' pf'"
    using allow_vfs [OF run E(1)] host old by (simp add: enforced_def)
  ultimately show ?thesis by (auto simp: enforced_def)
qed

lemma expel_enforced:
  assumes run: "deny E (expel m pf) m h = (None, pf', h')"
    and host: "host_ok (pf_Name pf) ifs E" "no_blank (pf_Name pf)" "no_blank m" "pf_ok pf"
    and old: "enforced ifs h pf"
  shows "enforced ifs h' pf'"
proof -
  from host(1) have E: "names_ok E" "blank_free E" by (auto simp: host_ok_def)
  note ok = deny_verdict [OF run]
  have "mac_verdict (runs h') i x = Some Accept \<longleftrightarrow> x \<in> set (AuthenticatedAddrs pf')"
    if "i \<in> set ifs" "no_blank x" for i x
    using ok [of ifs i] deny_others [OF run E(2), of i x] host old that deny_state [OF run]
    by (cases "x = m") (auto simp: enforced_def)
  moreover have "vfs_set h' pf'"
    using deny_vfs [OF run E(1)] host old by (simp add: enforced_def)
  ultimately show ?thesis by (auto simp: enforced_def)
qed

lemma enroll_sync: "auth_sync pf \<Longrightarrow> allow E (enroll m pf) m h = (r, pf', h') \<Longrightarrow> auth_sync pf'"
  using allow_state auth_sync_allow by blast

lemma expel_sync: "auth_sync pf \<Longrightarrow> deny E (expel m pf) m h = (r, pf', h') \<Longrightarrow> auth_sync pf'"
  using deny_state auth_sync_deny by blast

end

section \<open>The code keeps the contract\<close>

lemma pf_ok_Authenticated [simp]: "pf_ok (pf\<lparr>Authenticated := b\<rparr>) = pf_ok pf"
  by (simp add: pf_ok_def)

lemma vfs_set_only_run: "only is_run_call h' h \<Longrightarrow> vfs_set h' pf = vfs_set h pf"
  by (simp add: vfs_set_def only_run_vf_vlan only_run_vf_state)

lemma apply_policy_vfs:
  assumes "apply_policy E conf cmd pf h = (None, h')" and "names_ok E" and "pf_ok pf"
    and "conf \<or> vfs_set h pf"
  shows "vfs_set h' pf"
  using assms(1)
proof (rule apply_policy_ok)
  fix h1 assume "(if conf then ConfigureVlanStateForVFs E pf h else (None, h)) = (None, h1)"
    and run: "only is_run_call h' h1"
  then have "vfs_set h1 pf"
    using assms(4) configure_vfs_set [OF assms(3,2)] by (auto split: if_splits)
  then show ?thesis by (simp add: vfs_set_only_run [OF run])
qed

lemma apply_policy_others:
  assumes "apply_policy E conf cmd pf h = (r, h')" and "blank_free E" and "no_blank (pf_Name pf)"
    and "cmd = (\<lambda>i. allow_cmd i m) \<or> cmd = (\<lambda>i. deny_cmd i m)"
    and "no_blank m" "no_blank i" "no_blank m'" "m' \<noteq> m"
  shows "mac_verdict (runs h') i m' = mac_verdict (runs h) i m'"
proof -
  obtain cs where "runs h' = cs @ runs h"
    and "\<forall>(c, r)\<in>set cs. \<exists>i. no_blank i \<and> c = cmd i"
    using apply_policy_runs [OF assms(1-3)] by blast
  moreover from this(2) assms(4)
  have "\<forall>(c, r)\<in>set cs. \<exists>i. no_blank i \<and> (c = allow_cmd i m \<or> c = deny_cmd i m)"
    by (auto split: prod.splits)
  ultimately show ?thesis using mac_verdict_other [OF _ assms(5-8)] by simp
qed

lemma apply_policy_verdict:
  assumes "apply_policy E conf cmd pf h = (None, h')" and "host_ok (pf_Name pf) ifs E"
    and "no_blank (pf_Name pf)" "no_blank m" "i \<in> set ifs"
  shows "no_blank i \<and> (cmd = (\<lambda>i. allow_cmd i m) \<longrightarrow> mac_verdict (runs h') i m = Some Accept) \<and>
    (cmd = (\<lambda>i. deny_cmd i m) \<longrightarrow> mac_verdict (runs h') i m = Some Drop)"
  using assms(1)
proof (rule apply_policy_ok)
  fix g ifs' g' assume g: "GetAssociatedInterfaces E (pf_Name pf) g = (Inr ifs', g')"
    and runs: "runs h' = rev (map (\<lambda>i. (cmd i, None)) ifs') @ runs h"
  from g assms(2) have "ifs' = ifs" by (auto simp: host_ok_def stable_def)
  moreover have "\<forall>i\<in>set ifs'. no_blank i"
    using associated_blank [OF g] assms(2,3) by (simp add: host_ok_def)
  ultimately show ?thesis
    using runs assms(4,5) mac_verdict_allow [of "rev ifs" m i m "runs h"]
      mac_verdict_deny [of "rev ifs" m i m "runs h"]
    by (auto simp: rev_map)
qed

lemma AllowD:
  "AllowTrafficFromMac E pf m h = (r, pf', h') \<Longrightarrow> pf' = allow_pf pf \<and>
   apply_policy E (length (AuthenticatedAddrs pf) = 1) (\<lambda>i. allow_cmd i m) (allow_pf pf) h = (r, h')"
  by (auto simp: Allow_apply split: prod.splits)

lemma DenyD:
  "DenyTrafficFromMac E pf m h = (r, pf', h') \<Longrightarrow> pf' = deny_pf pf \<and>
   apply_policy E (length (AuthenticatedAddrs pf) = 0) (\<lambda>i. deny_cmd i m) (deny_pf pf) h = (r, h')"
  by (auto simp: Deny_apply split: prod.splits)

interpretation tc: mac_policy AllowTrafficFromMac DenyTrafficFromMac
proof (unfold_locales, goal_cases)
  case 1
  then show ?case by (blast dest: AllowD)
next
  case 2
  then show ?case by (blast dest: DenyD)
next
  case 3
  then show ?case by (blast dest: AllowD apply_policy_only)
next
  case 4
  then show ?case by (blast dest: DenyD apply_policy_only)
next
  case (5 E pf m h pf' h')
  then show ?case
    using AllowD [OF 5(1)] apply_policy_vfs [of E _ "\<lambda>i. allow_cmd i m" "allow_pf pf" h h']
    by (auto simp: allow_pf_def split: if_splits)
next
  case (6 E pf m h pf' h')
  then show ?case
    using DenyD [OF 6(1)] apply_policy_vfs [of E _ "\<lambda>i. deny_cmd i m" "deny_pf pf" h h']
    by (auto simp: deny_pf_def split: if_splits)
next
  case (7 E pf m h r pf' h' i m')
  then show ?case
    using AllowD [OF 7(1)] by (auto intro: apply_policy_others [OF _ 7(2) _ disjI1 [OF refl]])
next
  case (8 E pf m h r pf' h' i m')
  then show ?case
    using DenyD [OF 8(1)] by (auto intro: apply_policy_others [OF _ 8(2) _ disjI2 [OF refl]])
next
  case (9 E pf m h pf' h' ifs i)
  then show ?case
    using AllowD [OF 9(1)] apply_policy_verdict [OF _ _ _ 9(4,5), of E _ _ "allow_pf pf" h h']
    by auto
next
  case (10 E pf m h pf' h' ifs i)
  then show ?case
    using DenyD [OF 10(1)] apply_policy_verdict [OF _ _ _ 10(4,5), of E _ _ "deny_pf pf" h h']
    by auto
qed

section \<open>Properties of allow and deny\<close>

text \<open>
  C10. When admitting a MAC address succeeds, exactly one accepting filter command per
  interface of the PF was run, the PF itself included, all with success; and a PF with a
  single client has all its VFs on their own VLANs with link state "auto".
\<close>

theorem allow_success:
  assumes "AllowTrafficFromMac E pf mac h = (None, pf', h')" and "pf_ok pf" and "names_ok E"
  shows "\<exists>g vfs g'. GetAssociatedInterfaces E (pf_Name pf) g = (Inr (pf_Name pf # vfs), g') \<and>
      runs h' = rev (map (\<lambda>i. (allow_cmd i mac, None)) (pf_Name pf # vfs)) @ runs h \<and>
      (length (AuthenticatedAddrs pf) = 1 \<longrightarrow> Authenticated pf' \<and> vfs_set h' pf')"
proof -
  note D = AllowD [OF assms(1)]
  then have ap: "apply_policy E (length (AuthenticatedAddrs pf) = 1)
      (\<lambda>i. allow_cmd i mac) (allow_pf pf) h = (None, h')" and pf': "pf' = allow_pf pf" by auto
  from ap obtain g ifs g' where
    g: "GetAssociatedInterfaces E (pf_Name (allow_pf pf)) g = (Inr ifs, g')" and
    r: "runs h' = rev (map (\<lambda>i. (allow_cmd i mac, None)) ifs) @ runs h"
    by (rule apply_policy_ok)
  moreover obtain vfs where "ifs = pf_Name pf # vfs" using associated_hd [OF g] by auto
  moreover have "length (AuthenticatedAddrs pf) = 1 \<longrightarrow> Authenticated pf' \<and> vfs_set h' pf'"
    using tc.allow_vfs [OF assms(1,3,2)] pf' by (auto simp: allow_pf_def)
  ultimately show ?thesis by auto
qed

definition pf1 :: PFInfo where
  "pf1 = pf0\<lparr>AuthenticatedAddrs := [''aa'']\<rparr>"

lemma pf1_ok: "pf_ok pf1"
  by (simp add: pf_ok_def pf1_def pf0_def map_ok_def)

lemma assoc_path: "filepath_Join [sysClassNet, ''eth0'', ''device'', ''sriov_numvfs''] =
    ''/sys/class/net/eth0/device/sriov_numvfs''"
  by code_simp

lemma calm_assoc: "GetAssociatedInterfaces (calm vfs a) ''eth0'' h =
   (Inr [''eth0''], CGlob (filepath_Join [sysClassNet, ''eth0'', ''device'', ''virtfn*'']) #
      CStat ''/sys/class/net/eth0/device/sriov_numvfs'' #
      CStat ''/sys/class/net/eth0/device/sriov_numvfs'' # h)"
  by (simp add: GetAssociatedInterfaces_def GetSriovVFs_def IsSriovPF_def go_defs assoc_path)

lemma calm_apply:
  "pf_Name pf = ''eth0'' \<Longrightarrow> apply_policy (calm vfs a) False cmd pf h =
     (None, CRun (cmd ''eth0'') None #
        snd (GetAssociatedInterfaces (calm vfs a) ''eth0'' (CLookPath ''tc'' # h)))"
  by (simp add: apply_policy_def calm_assoc go_defs)

text \<open>The first client of the one-VF example PF.\<close>

lemma allow_example:
  "AllowTrafficFromMac (calm vfs a) pf1 ''aa'' [] =
     (None, pf1\<lparr>Authenticated := True\<rparr>,
      CRun (allow_cmd ''eth0'' ''aa'') None #
      snd (GetAssociatedInterfaces (calm vfs a) ''eth0''
        [CLookPath ''tc'', CLinkSetVfState ''eth0'' 0 VF_LINK_STATE_AUTO None,
         CLinkSetVfVlan ''eth0'' 0 100 None, CLinkByName ''eth0'']))"
  by (simp add: Allow_apply apply_policy_def allow_pf_def pf1_def pf0_def calm_assoc
      ConfigureVlanStateForVFs_def ConfigureVlanState_def go_defs)

theorem allow_success_witness:
  "(case AllowTrafficFromMac (calm [] a0) pf1 ''aa'' [] of (r, pf', h') \<Rightarrow>
      r = None \<and> Authenticated pf' \<and> vfs_set h' pf' \<and>
      vf_vlan h' ''eth0'' 0 = Some 100 \<and> runs h' = [(allow_cmd ''eth0'' ''aa'', None)])"
proof -
  have "length (AuthenticatedAddrs pf1) = 1" and "pf_Name pf1 = ''eth0''"
    by (simp_all add: pf1_def pf0_def)
  then show ?thesis
    using allow_success [OF allow_example [of "[]" a0] pf1_ok calm_names_ok]
    by (simp add: allow_example calm_assoc)
qed

section \<open>Properties of the set-up\<close>

definition reset_cmds :: "string \<Rightarrow> string list" where
  "reset_cmds n = [''tc qdisc del dev '' @ n @ '' ingress >/dev/null 2>&1 || true'',
                   ''tc qdisc del dev '' @ n @ '' clsact >/dev/null 2>&1 || true'']"

definition port_cmds :: "string \<Rightarrow> int list \<Rightarrow> int list \<Rightarrow> string list" where
  "port_cmds n tcp udp = map (port_cmd n tcpProtoStr) tcp @ map (port_cmd n udpProtoStr) udp @
     map (port6_cmd n) (tcp @ udp)"

lemma ResetInterface_ok:
  "ResetInterface E n h = (None, h') \<Longrightarrow>
   runs h' = rev (map (\<lambda>c. (c, None)) (reset_cmds n)) @ runs h"
  by (auto simp: ResetInterface_def go_defs Let_def reset_cmds_def split: option.splits)

lemma unprotect_all_ok:
  assumes "unprotect_all E n tcp udp h = (None, h')"
  shows "map fst (runs h') = rev (port_cmds n tcp udp) @ map fst (runs h)"
  using assms
  by (auto simp: unprotect_all_def UnprotectPorts_def UnprotectIPv6Ports_def LookPath_def
      Let_def run_each_runs port_cmds_def split: option.splits if_splits)

definition sriov_path :: "string \<Rightarrow> string" where
  "sriov_path n = filepath_Join [sysClassNet, n, ''device'', ''sriov_numvfs'']"

text \<open>
  C35. A successful \<open>InitInterfaceForEAPTraffic\<close> ran, in this order: the two commands
  that clear old filters, the one that adds the \<open>clsact\<close> queue, the catch-all drop at
  preference 10001; and then, for an SR-IOV PF only, the filter that admits EAPOL frames
  at preference 10000 and one filter per unprotected port for IPv4 and IPv6. On an
  interface that is not an SR-IOV PF nothing admits EAPOL frames or unprotected ports.
\<close>

theorem init_interface_commands:
  assumes "InitInterfaceForEAPTraffic E n tcp udp h = (None, h')"
    and "\<forall>g. isl (env_Stat E g (sriov_path n)) = (\<not> pf)"
  shows "map fst (runs h') =
    rev (reset_cmds n @ [qdisc_cmd n, drop_cmd n] @
         (if pf then eapol_cmd n # port_cmds n tcp udp else [])) @ map fst (runs h)"
proof -
  obtain h1 where h1: "ResetInterface E n h = (None, h1)"
    and q: "env_Run E h1 (qdisc_cmd n) = None"
    using assms(1) by (auto simp: InitInterfaceForEAPTraffic_def go_defs Let_def
        split: prod.splits option.splits)
  let ?h3 = "CRun (drop_cmd n) None # CRun (qdisc_cmd n) None # h1"
  from assms(1) h1 q have d: "env_Run E (CRun (qdisc_cmd n) None # h1) (drop_cmd n) = None"
    and rest: "(case IsSriovPF E n ?h3 of (False, h4) \<Rightarrow> (None, h4)
      | (True, h4) \<Rightarrow> (case Run E (eapol_cmd n) h4 of (Some e, h5) \<Rightarrow> (Some e, h5)
         | (None, h5) \<Rightarrow> unprotect_all E n tcp udp h5)) = (None, h')"
    by (auto simp: InitInterfaceForEAPTraffic_def Run_def Let_def split: option.splits)
  have pf: "IsSriovPF E n ?h3 = (pf, CStat (sriov_path n) # ?h3)"
    using spec [OF assms(2), of ?h3]
    by (auto simp: IsSriovPF_def Stat_def sriov_path_def isl_def split: sum.splits)
  show ?thesis
    using rest ResetInterface_ok [OF h1]
    by (cases pf) (auto simp: pf Run_def Let_def rev_map comp_def
        split: option.splits dest!: unprotect_all_ok)
qed

text \<open>An interface without \<open>sriov_numvfs\<close> is left with nothing but the drop filter,
  although a UDP port was to be unprotected.\<close>

theorem init_interface_commands_witness:
  "let E = calm [] a0; h' = snd (InitInterfaceForEAPTraffic E ''nic1'' [] [319] []) in
   fst (InitInterfaceForEAPTraffic E ''nic1'' [] [319] []) = None \<and>
   map fst (runs h') = [drop_cmd ''nic1'', qdisc_cmd ''nic1''] @ rev (reset_cmds ''nic1'')"
proof -
  have path: "sriov_path ''nic1'' = ''/sys/class/net/nic1/device/sriov_numvfs''"
    unfolding sriov_path_def by code_simp
  have run: "InitInterfaceForEAPTraffic (calm [] a0) ''nic1'' [] [319] [] =
    (None, snd (InitInterfaceForEAPTraffic (calm [] a0) ''nic1'' [] [319] []))"
    using path by (simp add: InitInterfaceForEAPTraffic_def ResetInterface_def IsSriovPF_def
        go_defs sriov_path_def)
  show ?thesis
    using init_interface_commands [OF run, of False] path arg_cong [OF run, of fst]
    by (simp add: Let_def)
qed

end
