(* ===== verification/Monitor.thy ===== *)
theory Monitor
  imports TrafficControl
begin

text \<open>
  \<open>pkg/hostap/monitor.go\<close> and \<open>pkg/hostap/stats.go\<close>: the monitor of one interface.
  It reads hostapd's control socket, keeps the set of authenticated clients, turns it into
  traffic control, follows the link state, expires clients of a link that went down, and
  publishes the state in the \<open>Authenticator\<close> object. Each handler is a function from
  the monitor and the history to the new monitor and history; the interleaving of the
  handlers is the subject of the theory \<open>MonitorSystem\<close>.
\<close>

section \<open>Constants and state\<close>

definition staConnectedEvent :: string where "staConnectedEvent = ''AP-STA-CONNECTED''"
definition eapSuccessEvent :: string where "eapSuccessEvent = ''CTRL-EVENT-EAP-SUCCESS''"
definition staDisconnectedEvent :: string where "staDisconnectedEvent = ''AP-STA-DISCONNECTED''"
definition eapFailureEvent :: string where "eapFailureEvent = ''CTRL-EVENT-EAP-FAILURE''"
definition pingCommand :: string where "pingCommand = ''PING''"
definition attachCommand :: string where "attachCommand = ''ATTACH''"
definition statusCommand :: string where "statusCommand = ''STATUS''"
definition deauthenticateCommand :: string where "deauthenticateCommand = ''DEAUTHENTICATE''"

lemmas event_defs = staConnectedEvent_def eapSuccessEvent_def staDisconnectedEvent_def
  eapFailureEvent_def

definition hostapdSocketDir :: string where "hostapdSocketDir = ''/var/run/hostapd/''"
definition sockReadBufSize :: nat where "sockReadBufSize = 4096"
definition statusReply :: string where "statusReply = ''state=''"

definition solicitedEvents :: "string list" where
  "solicitedEvents = [''PONG'' @ nl, ''OK'' @ nl, statusReply]"

text \<open>\<open>int(2 * time.Second / time.Microsecond)\<close>\<close>

definition requestTimeout :: int where "requestTimeout = 2000000"

definition EventTypeNormal :: string where "EventTypeNormal = ''Normal''"
definition EventTypeWarning :: string where "EventTypeWarning = ''Warning''"

text \<open>The fields a caller sets, and the fields of a started monitor. \<open>HasClient\<close> is
  \<open>Client != nil\<close>; the socket, the link manager, the recorder and the logger are part
  of the environment.\<close>

record MonitorConfig =
  IfName :: string
  HasClient :: bool
  AuthNsName :: NamespacedName

record InterfaceMonitor = MonitorConfig +
  PfInfo :: PFInfo
  deauthRequests :: "(string \<times> int) list"
  operState :: LinkOperState
  ifEAPState :: IfState

section \<open>Messages of hostapd\<close>

fun contains_any :: "string \<Rightarrow> string list \<Rightarrow> bool" where
  "contains_any s [] = False"
| "contains_any s (p # ps) = (if Contains s p then True else contains_any s ps)"

definition isSolicitedEvent :: "string \<Rightarrow> bool" where
  "isSolicitedEvent eventStr = contains_any eventStr solicitedEvents"

definition status_line :: "string \<Rightarrow> (string \<times> string) list \<Rightarrow> (string \<times> string) list" where
  "status_line state statuses =
     (case Split state (CHR ''='') of
        [k] \<Rightarrow> AList.update k [] statuses
      | [k, v] \<Rightarrow> AList.update k v statuses
      | _ \<Rightarrow> statuses)"

definition if_state_of :: "string \<Rightarrow> IfState" where
  "if_state_of state =
     (if state = ''UNINITIALIZED'' then IfStateUninitialized
      else if state = ''DISABLED'' then IfStateDisabled
      else if state = ''COUNTRY_UPDATE'' then IfStateCountryUpdate
      else if state = ''ACS'' then IfStateAcs
      else if state = ''HT_SCAN'' then IfStateHtScan
      else if state = ''DFS'' then IfStateDfs
      else if state = ''ENABLED'' then IfStateEnabled
      else IfStateUnknown)"

definition getIfState :: "string \<Rightarrow> IfState" where
  "getIfState eventStr =
     (let statuses = fold status_line (Split eventStr (CHR 0x0A)) [];
          state = (case map_of statuses ''state'' of Some v \<Rightarrow> v | None \<Rightarrow> [])
      in if_state_of state)"

section \<open>Metrics\<close>

definition stats_Authenticated :: "string \<Rightarrow> hist \<Rightarrow> hist" where
  "stats_Authenticated iface h = CAuthenticated iface # h"

definition stats_DeAuthenticated :: "string \<Rightarrow> hist \<Rightarrow> hist" where
  "stats_DeAuthenticated iface h = CDeAuthenticated iface # h"

definition stats_AuthFailed :: "string \<Rightarrow> hist \<Rightarrow> hist" where
  "stats_AuthFailed iface h = CAuthFailed iface # h"

text \<open>The value of the gauge \<open>auth_success_total\<close> of an interface.\<close>

fun authSuccess :: "hist \<Rightarrow> string \<Rightarrow> int" where
  "authSuccess [] i = 0"
| "authSuccess (CAuthenticated n # h) i = authSuccess h i + (if n = i then 1 else 0)"
| "authSuccess (CDeAuthenticated n # h) i = authSuccess h i - (if n = i then 1 else 0)"
| "authSuccess (c # h) i = authSuccess h i"

section \<open>The Authenticator object\<close>

definition getAuthObject :: "env \<Rightarrow> 'a MonitorConfig_scheme \<Rightarrow> hist \<Rightarrow> Authenticator res \<times> hist" where
  "getAuthObject E m h = ClientGet E (AuthNsName m) h"

definition logEvent :: "env \<Rightarrow> InterfaceMonitor \<Rightarrow> string \<Rightarrow> string \<Rightarrow> hist \<Rightarrow> hist" where
  "logEvent E m eventType msg h =
     (if \<not> HasClient m then h
      else case getAuthObject E m h of
             (Inl e, h1) \<Rightarrow> CEventf None eventType (IfName m) msg # CLogError ''record-event'' e # h1
           | (Inr authObj, h1) \<Rightarrow> CEventf (Some authObj) eventType (IfName m) msg # h1)"

text \<open>The entry of this interface, the first of its name, is overwritten; a missing entry
  is appended.\<close>

fun set_if_status :: "string \<Rightarrow> IfState \<Rightarrow> string list \<Rightarrow> Interface list \<Rightarrow> Interface list" where
  "set_if_status n st clients [] =
     [\<lparr>if_Name = n, if_State = st, AuthenticatedClients = clients\<rparr>]"
| "set_if_status n st clients (i # is) =
     (if if_Name i = n then i\<lparr>if_State := st, AuthenticatedClients := clients\<rparr> # is
      else i # set_if_status n st clients is)"

definition status_attempt :: "env \<Rightarrow> InterfaceMonitor \<Rightarrow> hist \<Rightarrow> err option \<times> hist" where
  "status_attempt E m h =
     (case getAuthObject E m h of
        (Inl e, h1) \<Rightarrow> (Some e, h1)
      | (Inr authObj, h1) \<Rightarrow>
          StatusUpdate E
            (authObj\<lparr>a_Status := (a_Status authObj)\<lparr>status_Interfaces :=
               set_if_status (IfName m) (ifEAPState m)
                 (range_keys E h1 (AuthenticatedAddrs (PfInfo m)))
                 (status_Interfaces (a_Status authObj))\<rparr>\<rparr>) h1)"

text \<open>\<open>retry.RetryOnConflict\<close> of client-go: at most the given number of attempts, and a
  further one only after a conflict.\<close>

fun RetryOnConflict :: "nat \<Rightarrow> (hist \<Rightarrow> err option \<times> hist) \<Rightarrow> hist \<Rightarrow> err option \<times> hist" where
  "RetryOnConflict 0 fn h = (None, h)"
| "RetryOnConflict (Suc n) fn h =
     (case fn h of
        (None, h1) \<Rightarrow> (None, h1)
      | (Some e, h1) \<Rightarrow>
          (if IsConflict e \<and> n \<noteq> 0 then RetryOnConflict n fn h1 else (Some e, h1)))"

definition DefaultRetry_Steps :: nat where "DefaultRetry_Steps = 5"

definition updateInterfaceStatus :: "env \<Rightarrow> InterfaceMonitor \<Rightarrow> hist \<Rightarrow> err option \<times> hist" where
  "updateInterfaceStatus E m h =
     (if \<not> HasClient m then (None, h)
      else RetryOnConflict DefaultRetry_Steps (status_attempt E m) h)"

section \<open>Clients come and go\<close>

definition handleAuthenticateEvent ::
  "env \<Rightarrow> string \<Rightarrow> InterfaceMonitor \<Rightarrow> hist \<Rightarrow> err option \<times> InterfaceMonitor \<times> hist" where
  "handleAuthenticateEvent E addr m h =
     (case AllowTrafficFromMac E (enroll addr (PfInfo m)) addr h of
        (r, pf, h1) \<Rightarrow>
          (r, m\<lparr>PfInfo := pf, deauthRequests := AList.delete addr (deauthRequests m)\<rparr>, h1))"

definition handleDeAuthenticateEvent ::
  "env \<Rightarrow> string \<Rightarrow> InterfaceMonitor \<Rightarrow> hist \<Rightarrow> err option \<times> InterfaceMonitor \<times> hist" where
  "handleDeAuthenticateEvent E addr m h =
     (case DenyTrafficFromMac E (expel addr (PfInfo m)) addr h of
        (r, pf, h1) \<Rightarrow>
          (r, m\<lparr>PfInfo := pf, deauthRequests := AList.delete addr (deauthRequests m)\<rparr>, h1))"

section \<open>Dispatch of a hostapd message\<close>

definition event_switch ::
  "env \<Rightarrow> string \<Rightarrow> string \<Rightarrow> InterfaceMonitor \<Rightarrow> hist \<Rightarrow>
     err option \<times> InterfaceMonitor \<times> hist" where
  "event_switch E eventKeyStr arg m h =
     (if eventKeyStr = staConnectedEvent then handleAuthenticateEvent E arg m h
      else if eventKeyStr = eapSuccessEvent then
        (None, m, stats_Authenticated (IfName m)
                    (logEvent E m EventTypeNormal (''authenticated supplicant '' @ arg) h))
      else if eventKeyStr = staDisconnectedEvent then
        handleDeAuthenticateEvent E arg m
          (stats_DeAuthenticated (IfName m)
             (logEvent E m EventTypeNormal (''deauthenticated supplicant '' @ arg) h))
      else if eventKeyStr = eapFailureEvent then
        (None, m, stats_AuthFailed (IfName m)
                    (logEvent E m EventTypeWarning
                       (''authentication failure for supplicant '' @ arg) h))
      else (None, m, h))"

definition handleHostapdEvent ::
  "env \<Rightarrow> string \<Rightarrow> InterfaceMonitor \<Rightarrow> hist \<Rightarrow> err option \<times> InterfaceMonitor \<times> hist" where
  "handleHostapdEvent E eventStr m h =
     (case Split eventStr (CHR '' '') of
        key # arg # _ \<Rightarrow>
          (case event_switch E (after_first key (CHR ''>'')) arg m h of
             (r, m1, h1) \<Rightarrow> (r, m1, snd (updateInterfaceStatus E m1 h1)))
      | _ \<Rightarrow>
          (if isSolicitedEvent eventStr \<and> Contains eventStr statusReply
           then (let m1 = m\<lparr>ifEAPState := getIfState eventStr\<rparr>
                 in (None, m1, snd (updateInterfaceStatus E m1 h)))
           else (None, m, h)))"

text \<open>One round of the reading loop: what the socket delivered, and whether the loop goes
  on.\<close>

datatype read_result = ReadData string | ReadErr err

definition reply_round ::
  "env \<Rightarrow> read_result \<Rightarrow> InterfaceMonitor \<Rightarrow> hist \<Rightarrow> bool \<times> InterfaceMonitor \<times> hist" where
  "reply_round E rd m h =
     (case rd of
        ReadErr e \<Rightarrow> (if IsTimeout e then (True, m, h) else (False, m, CLogError ''sockread'' e # h))
      | ReadData s \<Rightarrow>
          (if s = [] then (True, m, h)
           else case handleHostapdEvent E s m h of
                  (Some e, m1, h1) \<Rightarrow> (True, m1, CLogError ''hostapd-event'' e # h1)
                | (None, m1, h1) \<Rightarrow> (True, m1, h1)))"

section \<open>Link events\<close>

definition writeCommand :: "env \<Rightarrow> string \<Rightarrow> hist \<Rightarrow> err option \<times> hist" where
  "writeCommand E command h = ConnWrite E command h"

definition deauthenticate :: "env \<Rightarrow> string \<Rightarrow> hist \<Rightarrow> err option \<times> hist" where
  "deauthenticate E addr h =
     (if addr = [] then (None, h)
      else ConnWrite E (deauthenticateCommand @ '' '' @ addr) h)"

fun deauth_loop :: "env \<Rightarrow> string list \<Rightarrow> (string \<times> int) list \<Rightarrow> hist \<Rightarrow> (string \<times> int) list \<times> hist" where
  "deauth_loop E [] reqs h = (reqs, h)"
| "deauth_loop E (addr # rest) reqs h =
     (let (r, h1) = deauthenticate E addr h;
          h2 = (case r of None \<Rightarrow> h1 | Some e \<Rightarrow> CLogError ''deauthenticating'' e # h1);
          (now, h3) = Now E h2
      in deauth_loop E rest (AList.update addr now reqs) h3)"

definition opstate_section :: "env \<Rightarrow> InterfaceMonitor \<Rightarrow> hist \<Rightarrow> InterfaceMonitor \<times> hist" where
  "opstate_section E m h =
     (let addrs = range_keys E h (AuthenticatedAddrs (PfInfo m))
      in if operState m = OperDown then
           (let (reqs, h1) = deauth_loop E addrs (deauthRequests m) h
            in (m\<lparr>deauthRequests := reqs\<rparr>, logEvent E m EventTypeWarning ''interface is down'' h1))
         else if operState m = OperUp then
           (m\<lparr>deauthRequests := fold AList.delete addrs (deauthRequests m)\<rparr>,
            logEvent E m EventTypeNormal ''interface is up'' h)
         else (m, h))"

definition handlePfEventForOpStateChange ::
  "env \<Rightarrow> Link \<Rightarrow> InterfaceMonitor \<Rightarrow> hist \<Rightarrow> InterfaceMonitor \<times> hist" where
  "handlePfEventForOpStateChange E link m h =
     (case opstate_section E (m\<lparr>operState := OperState link\<rparr>) h of
        (m1, h1) \<Rightarrow> (m1, snd (writeCommand E statusCommand h1)))"

definition handlePfEventForVfVlanChange ::
  "env \<Rightarrow> InterfaceMonitor \<Rightarrow> hist \<Rightarrow> InterfaceMonitor \<times> hist" where
  "handlePfEventForVfVlanChange E m h =
     (case HandlePfEventForVlanChange E (PfInfo m) h of
        (None, pf, h1) \<Rightarrow> (m\<lparr>PfInfo := pf\<rparr>, h1)
      | (Some e, pf, h1) \<Rightarrow> (m\<lparr>PfInfo := pf\<rparr>, CLogError ''error handling pf event'' e # h1))"

definition handleIfEvent ::
  "env \<Rightarrow> Link \<Rightarrow> InterfaceMonitor \<Rightarrow> hist \<Rightarrow> InterfaceMonitor \<times> hist" where
  "handleIfEvent E link m h =
     (case (if OperState link \<noteq> operState m then handlePfEventForOpStateChange E link m h
            else (m, h)) of
        (m1, h1) \<Rightarrow> handlePfEventForVfVlanChange E m1 h1)"

section \<open>Requests that were not answered\<close>

fun timeout_loop ::
  "env \<Rightarrow> int \<Rightarrow> (string \<times> int) list \<Rightarrow> InterfaceMonitor \<Rightarrow> hist \<Rightarrow> InterfaceMonitor \<times> hist" where
  "timeout_loop E now [] m h = (m, h)"
| "timeout_loop E now ((addr, reqTimeStamp) # rest) m h =
     (if wrap64 (now - reqTimeStamp) < requestTimeout then (m, h)
      else case DenyTrafficFromMac E (expel addr (PfInfo m)) addr h of
             (r, pf, h1) \<Rightarrow>
               timeout_loop E now rest
                 (m\<lparr>PfInfo := pf, deauthRequests := AList.delete addr (deauthRequests m)\<rparr>)
                 (case r of None \<Rightarrow> h1 | Some e \<Rightarrow> CLogError ''error applying deny traffic'' e # h1))"

definition handleRequestsTimeout :: "env \<Rightarrow> InterfaceMonitor \<Rightarrow> hist \<Rightarrow> InterfaceMonitor \<times> hist" where
  "handleRequestsTimeout E m h =
     (case Now E h of
        (now, h1) \<Rightarrow> timeout_loop E now (range_keys E h1 (deauthRequests m)) m h1)"

section \<open>Start and stop\<close>

text \<open>A read of the datagram socket into the reader's buffer: what does not fit is lost.\<close>

definition receive :: "string \<Rightarrow> string" where
  "receive message = take sockReadBufSize message"

text \<open>\<open>sendKeepAlive\<close>: one round, and whether the loop goes on.\<close>

definition keepalive_round :: "env \<Rightarrow> hist \<Rightarrow> bool \<times> hist" where
  "keepalive_round E h =
     (case ConnWrite E pingCommand h of
        (None, h1) \<Rightarrow> (True, h1)
      | (Some e, h1) \<Rightarrow>
          (if IsTimeout e then (True, h1) else (False, CLogError ''sockwrite'' e # h1)))"

text \<open>\<open>attachHostapd\<close> repeats its write while it times out; \<open>None\<close> is "never
  returns".\<close>

partial_function (option) attachHostapd :: "env \<Rightarrow> hist \<Rightarrow> (err option \<times> hist) option" where
  "attachHostapd E h =
     (case env_Write E h attachCommand of
        None \<Rightarrow> Some (None, CWrite attachCommand None # h)
      | Some e \<Rightarrow>
          (if IsTimeout e then attachHostapd E (CWrite attachCommand (Some e) # h)
           else Some (Some e, CLogError ''sockwrite'' e # CWrite attachCommand (Some e) # h)))"

text \<open>\<open>StopMonitor\<close> restores the VFs, closes the channel \<open>stop\<close>, and then
  unsubscribes and closes the socket; it ends by waiting for the goroutines.\<close>

definition stop_restore :: "env \<Rightarrow> InterfaceMonitor \<Rightarrow> hist \<Rightarrow> InterfaceMonitor \<times> hist" where
  "stop_restore E m h =
     (if \<not> Authenticated (PfInfo m)
      then (let pf = (PfInfo m)\<lparr>Authenticated := True\<rparr>
            in case ConfigureVlanStateForVFs E pf h of
                 (None, h1) \<Rightarrow> (m\<lparr>PfInfo := pf\<rparr>, h1)
               | (Some e, h1) \<Rightarrow> (m\<lparr>PfInfo := pf\<rparr>, CLogError ''restoring vf state'' e # h1))
      else (m, h))"

definition stop_close :: "env \<Rightarrow> InterfaceMonitor \<Rightarrow> hist \<Rightarrow> hist" where
  "stop_close E m h =
     (case ConnClose E (CUnsubscribe (IfName m) # h) of
        (None, h1) \<Rightarrow> h1
      | (Some e, h1) \<Rightarrow> CLogError ''error closing connection'' e # h1)"

definition StopMonitor :: "env \<Rightarrow> InterfaceMonitor \<Rightarrow> hist \<Rightarrow> InterfaceMonitor \<times> hist" where
  "StopMonitor E m h = (case stop_restore E m h of (m1, h1) \<Rightarrow> (m1, stop_close E m1 h1))"

definition NewInterfaceMonitor ::
  "string \<Rightarrow> (MonitorConfig \<Rightarrow> MonitorConfig) list \<Rightarrow> MonitorConfig" where
  "NewInterfaceMonitor ifName opts =
     fold (\<lambda>opt m. opt m) opts
       \<lparr>IfName = ifName, HasClient = False, AuthNsName = \<lparr>nn_Namespace = [], nn_Name = []\<rparr>\<rparr>"

text \<open>The part of \<open>StartMonitor\<close> before the goroutines start.\<close>

definition start_setup :: "env \<Rightarrow> MonitorConfig \<Rightarrow> hist \<Rightarrow> InterfaceMonitor res \<times> hist" where
  "start_setup E c h =
     (case TempFile E h of
        (Some e, h1) \<Rightarrow> (Inl e, h1)
      | (None, h1) \<Rightarrow>
          (case DialUnix E (filepath_Join [hostapdSocketDir, IfName c]) (CRemove # h1) of
             (Some e, h2) \<Rightarrow> (Inl e, h2)
           | (None, h2) \<Rightarrow>
               (case GetSriovPFInfo E (IfName c) h2 of
                  (Inl e, h3) \<Rightarrow> (Inl e, h3)
                | (Inr pfInfo, h3) \<Rightarrow>
                    (case ConfigureVlanStateForVFs E pfInfo h3 of
                       (Some e, h4) \<Rightarrow> (Inl e, h4)
                     | (None, h4) \<Rightarrow>
                         (Inr (MonitorConfig.extend c
                            \<lparr>PfInfo = pfInfo, deauthRequests = [], operState = OperUnknown,
                             ifEAPState = []\<rparr>),
                          CSubscribe (IfName c) # h4)))))"

text \<open>The whole of \<open>StartMonitor\<close>, as it runs while the goroutines it starts are idle.
  The outer \<open>None\<close> is an attach loop that never ends.\<close>

definition StartMonitor ::
  "env \<Rightarrow> MonitorConfig \<Rightarrow> hist \<Rightarrow> (InterfaceMonitor res \<times> hist) option" where
  "StartMonitor E c h =
     (case start_setup E c h of
        (Inl e, h1) \<Rightarrow> Some (Inl e, h1)
      | (Inr m, h1) \<Rightarrow>
          (case attachHostapd E h1 of
             None \<Rightarrow> None
           | Some (Some e, h2) \<Rightarrow> Some (Inl e, snd (StopMonitor E m h2))
           | Some (None, h2) \<Rightarrow>
               (let h3 = snd (writeCommand E statusCommand h2)
                in Some (Inr m, snd (updateInterfaceStatus E m h3)))))"

section \<open>The invariant of a monitor\<close>

text \<open>The set of clients, and those whose deauthentication was requested.\<close>

definition clients :: "InterfaceMonitor \<Rightarrow> string set" where
  "clients m = set (AuthenticatedAddrs (PfInfo m))"

definition pending :: "InterfaceMonitor \<Rightarrow> string set" where
  "pending m = set (map_keys (deauthRequests m))"

text \<open>
  The maps are maps, and requests are pending for clients only; while the monitor runs
  the flag \<open>Authenticated\<close> says whether there is a client.
\<close>

definition shape_ok :: "InterfaceMonitor \<Rightarrow> bool" where
  "shape_ok m = (pf_ok (PfInfo m) \<and> map_ok (deauthRequests m) \<and> pending m \<subseteq> clients m)"

definition mon_ok :: "InterfaceMonitor \<Rightarrow> bool" where
  "mon_ok m = (shape_ok m \<and> auth_sync (PfInfo m))"

text \<open>What a handler does to the invariant and to the two sets.\<close>

definition moves ::
  "InterfaceMonitor \<Rightarrow> string set \<Rightarrow> string set \<Rightarrow> InterfaceMonitor \<Rightarrow> bool" where
  "moves m S D m' = (shape_ok m' \<and> clients m' = S \<and> pending m' = D \<and>
     IfName m' = IfName m \<and> pf_Name (PfInfo m') = pf_Name (PfInfo m) \<and>
     (auth_sync (PfInfo m) \<longrightarrow> auth_sync (PfInfo m')))"

lemma monitor_sel [simp]:
  "clients (m\<lparr>ifEAPState := s\<rparr>) = clients m" "clients (m\<lparr>operState := st\<rparr>) = clients m"
  "clients (m\<lparr>deauthRequests := d\<rparr>) = clients m"
  "clients (m\<lparr>PfInfo := pf\<rparr>) = set (AuthenticatedAddrs pf)"
  "pending (m\<lparr>ifEAPState := s\<rparr>) = pending m" "pending (m\<lparr>operState := st\<rparr>) = pending m"
  "pending (m\<lparr>PfInfo := pf\<rparr>) = pending m"
  "pending (m\<lparr>deauthRequests := d\<rparr>) = set (map_keys d)"
  "shape_ok (m\<lparr>ifEAPState := s\<rparr>) = shape_ok m" "shape_ok (m\<lparr>operState := st\<rparr>) = shape_ok m"
  by (simp_all add: clients_def pending_def shape_ok_def)

lemma moves_refl: "shape_ok m \<Longrightarrow> moves m (clients m) (pending m) m"
  by (simp add: moves_def)

lemma handleAuthenticate_moves:
  assumes "handleAuthenticateEvent E addr m h = (r, m', h')" and "shape_ok m"
  shows "moves m (insert addr (clients m)) (pending m - {addr}) m'"
proof -
  obtain pf where pf: "AllowTrafficFromMac E (enroll addr (PfInfo m)) addr h = (r, pf, h')"
    and m': "m' = m\<lparr>PfInfo := pf, deauthRequests := AList.delete addr (deauthRequests m)\<rparr>"
    using assms(1) by (auto simp: handleAuthenticateEvent_def split: prod.splits)
  from pf have "pf = allow_pf (enroll addr (PfInfo m))" by (rule tc.allow_state)
  then show ?thesis
    using assms(2) tc.enroll_sync [OF _ pf] m' amap.ok_del
    by (auto simp: moves_def shape_ok_def clients_def pending_def)
qed

lemma handleDeAuthenticate_moves:
  assumes "handleDeAuthenticateEvent E addr m h = (r, m', h')" and "shape_ok m"
  shows "moves m (clients m - {addr}) (pending m - {addr}) m'"
proof -
  obtain pf where pf: "DenyTrafficFromMac E (expel addr (PfInfo m)) addr h = (r, pf, h')"
    and m': "m' = m\<lparr>PfInfo := pf, deauthRequests := AList.delete addr (deauthRequests m)\<rparr>"
    using assms(1) by (auto simp: handleDeAuthenticateEvent_def split: prod.splits)
  from pf have "pf = deny_pf (expel addr (PfInfo m))" by (rule tc.deny_state)
  then show ?thesis
    using assms(2) tc.expel_sync [OF _ pf] m' amap.ok_del
    by (auto simp: moves_def shape_ok_def clients_def pending_def)
qed

lemma event_switch_moves:
  assumes "event_switch E key arg m h = (r, m', h')" and "shape_ok m"
  shows "(key = staConnectedEvent \<longrightarrow> moves m (insert arg (clients m)) (pending m - {arg}) m') \<and>
    (key = staDisconnectedEvent \<longrightarrow> moves m (clients m - {arg}) (pending m - {arg}) m') \<and>
    (key \<noteq> staConnectedEvent \<longrightarrow> key \<noteq> staDisconnectedEvent \<longrightarrow> m' = m)"
  using assms handleAuthenticate_moves handleDeAuthenticate_moves
  by (auto simp: event_switch_def event_defs split: if_splits)

lemma deauth_loop_keys:
  "deauth_loop E addrs reqs h = (reqs', h') \<Longrightarrow>
   set (map_keys reqs') = set addrs \<union> set (map_keys reqs) \<and> (map_ok reqs \<longrightarrow> map_ok reqs')"
proof (induction addrs arbitrary: reqs h)
  case (Cons a rest)
  then obtain now h1 where "deauth_loop E rest (AList.update a now reqs) h1 = (reqs', h')"
    by (auto simp: Let_def split: prod.splits)
  from Cons.IH [OF this] show ?case by (auto simp: amap.ok_put)
qed simp

lemma keys_fold_delete:
  "set (map_keys (fold AList.delete ks m)) = set (map_keys m) - set ks"
  by (induction ks arbitrary: m) auto

lemma keys_fold_delete_Nil:
  "map_keys (fold AList.delete ks m) = [] \<longleftrightarrow> set (map_keys m) \<subseteq> set ks"
  by (simp flip: set_empty add: keys_fold_delete)

text \<open>When the link goes down every client becomes pending; when it comes up, none is.\<close>

lemma opstate_section_moves:
  assumes "opstate_section E m h = (m', h')" and "shape_ok m"
  shows "PfInfo m' = PfInfo m \<and> moves m (clients m)
    (if operState m = OperDown then clients m else if operState m = OperUp then {}
     else pending m) m'"
  using assms
  by (auto simp: opstate_section_def Let_def moves_def shape_ok_def clients_def pending_def
      amap.ok_del_all keys_fold_delete keys_fold_delete_Nil
      split: prod.splits if_splits dest!: deauth_loop_keys)

lemma HandlePf_same:
  assumes "HandlePfEventForVlanChange E pf h = (r, pf', h')" and "pf_ok pf"
  shows "same_pf pf' pf \<and> pf_ok pf'"
  using assms vlan_change_loop_same vlan_change_loop_ok
  by (auto simp: HandlePfEventForVlanChange_def LinkByName_def same_pf_def split: sum.splits)

lemma vlan_change_moves:
  assumes "handlePfEventForVfVlanChange E m h = (m', h')" and "shape_ok m"
  shows "moves m (clients m) (pending m) m'"
proof -
  obtain r pf h1 where pf: "HandlePfEventForVlanChange E (PfInfo m) h = (r, pf, h1)"
    by (metis prod_cases3)
  have "same_pf pf (PfInfo m) \<and> pf_ok pf"
    using HandlePf_same [OF pf] assms(2) by (simp add: shape_ok_def)
  with pf assms show ?thesis
    by (auto simp: handlePfEventForVfVlanChange_def moves_def shape_ok_def clients_def pending_def
        same_pf_def auth_sync_def split: option.splits)
qed

text \<open>Expiry removes clients that were pending, and nobody else.\<close>

lemma timeout_loop_moves:
  assumes "timeout_loop E now reqs m h = (m', h')" and "shape_ok m"
    and "fst ` set reqs \<subseteq> pending m" and "distinct (map fst reqs)"
  shows "\<exists>X \<subseteq> pending m. moves m (clients m - X) (pending m - X) m'"
  using assms
proof (induction reqs arbitrary: m h)
  case Nil
  then show ?case by (intro exI [of _ "{}"]) (simp add: moves_refl)
next
  case (Cons q rest)
  obtain addr ts where q: "q = (addr, ts)" by fastforce
  show ?case
  proof (cases "wrap64 (now - ts) < requestTimeout")
    case True
    with Cons.prems q show ?thesis by (intro exI [of _ "{}"]) (simp add: moves_refl)
  next
    case False
    obtain r m1 h1 where de: "handleDeAuthenticateEvent E addr m h = (r, m1, h1)"
      by (metis prod_cases3)
    with Cons.prems(1) q False obtain h2 where rest: "timeout_loop E now rest m1 h2 = (m', h')"
      by (auto simp: handleDeAuthenticateEvent_def split: prod.splits)
    have m1: "moves m (clients m - {addr}) (pending m - {addr}) m1"
      by (rule handleDeAuthenticate_moves [OF de Cons.prems(2)])
    then have sub: "fst ` set rest \<subseteq> pending m1"
      using Cons.prems(3,4) q by (auto simp: moves_def)
    obtain X where X: "X \<subseteq> pending m1" "moves m1 (clients m1 - X) (pending m1 - X) m'"
      using Cons.IH [OF rest _ sub] m1 Cons.prems(4) by (auto simp: moves_def)
    with m1 Cons.prems(3) q show ?thesis
      by (intro exI [of _ "insert addr X"]) (auto simp: moves_def)
  qed
qed

lemma handleRequestsTimeout_moves:
  assumes "handleRequestsTimeout E m h = (m', h')" and "shape_ok m"
  shows "\<exists>X \<subseteq> pending m. moves m (clients m - X) (pending m - X) m'"
proof -
  let ?h = "CNow # h"
  have loop: "timeout_loop E (env_Now E h) (range_keys E ?h (deauthRequests m)) m ?h = (m', h')"
    using assms(1) by (simp add: handleRequestsTimeout_def Now_def)
  have "mset (map fst (range_keys E ?h (deauthRequests m))) = mset (map fst (deauthRequests m))"
    by (metis mset_map mset_range_keys)
  then have "distinct (map fst (range_keys E ?h (deauthRequests m)))"
    using assms(2) by (metis map_ok_def mset_eq_imp_distinct_iff shape_ok_def)
  moreover have "fst ` set (range_keys E ?h (deauthRequests m)) \<subseteq> pending m"
    by (auto simp: pending_def map_keys_def)
  ultimately show ?thesis using timeout_loop_moves [OF loop assms(2)] by blast
qed

lemma start_setup_ok:
  assumes "start_setup E c h = (Inr m, h')"
  shows "shape_ok m \<and> auth_sync (PfInfo m) \<and> clients m = {} \<and> pending m = {} \<and>
    IfName m = IfName c \<and> pf_Name (PfInfo m) = IfName c \<and> \<not> Authenticated (PfInfo m)"
proof -
  obtain pf g g' where pf: "GetSriovPFInfo E (IfName c) g = (Inr pf, g')" and
    m: "m = MonitorConfig.extend c
      \<lparr>PfInfo = pf, deauthRequests = [], operState = OperUnknown, ifEAPState = []\<rparr>"
    using assms by (auto simp: start_setup_def split: prod.splits option.splits sum.splits)
  from GetSriovPFInfo_fields [OF pf] m show ?thesis
    by (auto simp: shape_ok_def clients_def pending_def auth_sync_def MonitorConfig.defs)
qed

section \<open>Frames\<close>

text \<open>Publishing, logging and asking clients to leave set up no VF, run no command and count
  nothing.\<close>

fun is_plain :: "call \<Rightarrow> bool" where
  "is_plain (CLinkSetVfVlan n i v r) = False"
| "is_plain (CLinkSetVfState n i v r) = False"
| "is_plain (CRun cmd r) = False"
| "is_plain (CAuthenticated n) = False"
| "is_plain (CDeAuthenticated n) = False"
| "is_plain (CAuthFailed n) = False"
| "is_plain c = True"

lemma plain_other: "only is_plain h' h \<Longrightarrow> only is_other h' h"
  by (erule only_mono) (auto elim!: is_plain.elims)

lemma logEvent_plain: "only is_plain (logEvent E m ty msg h) h"
  by (auto simp: logEvent_def getAuthObject_def go_defs split: sum.splits)

lemma status_attempt_plain: "only is_plain (snd (status_attempt E m h)) h"
  by (auto simp: status_attempt_def getAuthObject_def go_defs Let_def split: sum.splits)

lemma RetryOnConflict_only:
  assumes "\<And>h. only P (snd (fn h)) h" shows "only P (snd (RetryOnConflict n fn h)) h"
proof (induction n arbitrary: h)
  case (Suc n)
  have "only P (snd (fn h)) h" by (rule assms)
  then show ?case
    by (auto split: prod.splits option.splits intro: only_trans [OF Suc])
qed simp

lemma updateInterfaceStatus_plain: "only is_plain (snd (updateInterfaceStatus E m h)) h"
  by (simp add: updateInterfaceStatus_def RetryOnConflict_only status_attempt_plain)

lemma deauth_loop_plain: "only is_plain (snd (deauth_loop E addrs reqs h)) h"
proof (induction addrs arbitrary: reqs h)
  case (Cons a rest)
  note IH1 = only_Cons [OF Cons] and IH2 = only_Cons [OF only_Cons [OF Cons]]
    and IH3 = only_Cons [OF only_Cons [OF only_Cons [OF Cons]]]
  show ?case
    by (auto simp: Let_def deauthenticate_def go_defs IH1 IH2 IH3 split: option.splits)
qed simp

lemma opstate_section_plain: "only is_plain (snd (opstate_section E m h)) h"
proof -
  let ?addrs = "range_keys E h (AuthenticatedAddrs (PfInfo m))"
  have "only is_plain (logEvent E m ty msg (snd (deauth_loop E ?addrs reqs h))) h" for ty msg reqs
    by (rule only_trans [OF logEvent_plain deauth_loop_plain])
  then show ?thesis
    by (simp add: opstate_section_def Let_def logEvent_plain split_beta)
qed

lemmas logEvent_other [frame] = logEvent_plain [THEN plain_other]
lemmas status_attempt_other = status_attempt_plain [THEN plain_other]
lemmas updateInterfaceStatus_other [frame] = updateInterfaceStatus_plain [THEN plain_other]
lemmas deauth_loop_other [frame] = deauth_loop_plain [THEN plain_other]
lemmas opstate_section_other [frame] = opstate_section_plain [THEN plain_other]

end
