(* ===== verification/MonitorSystem.thy ===== *)
theory MonitorSystem
  imports Monitor
begin

text \<open>
  The goroutines of one monitor and their interleaving. \<open>StartMonitor\<close> starts four
  goroutines that share the monitor's state under \<open>addrMutex\<close>: the reader of hostapd's
  messages, the handler of link events, the keep-alive and the expiry of requests; the
  goroutine that called \<open>StartMonitor\<close> goes on with the attach command and later runs
  \<open>StopMonitor\<close>. A step is one critical section or one action outside the mutex (the
  restore of the VFs in \<open>StopMonitor\<close>, which does not take the mutex, is one step);
  the environment may answer differently at every step, and \<open>P\<close> says which
  environments are considered. Three of the goroutines look at the channel \<open>stop\<close> only at
  the top of their loop, where \<open>select\<close> has a \<open>default\<close>: when it is closed they return,
  and otherwise they go through the body once more, whatever happens to \<open>stop\<close> meanwhile.
\<close>

section \<open>States\<close>

text \<open>The reader is at the top of its loop, waits for a message, or still has to publish the
  status (and to log the error of the message it handled).\<close>

datatype reply_pc = RIdle | RRead | RStatus "err option" | RDone

text \<open>The keep-alive and the expiry of requests are at the top of their loop, in its body, or
  have returned.\<close>

datatype loop_pc = PTop | PBody | PEnd

text \<open>The link handler waits, or is before the critical section of a state change, before
  the status command that follows it, or before the check of the VLANs.\<close>

datatype if_pc = IIdle | IOpState | IWrite | IVlan | IDone

datatype main_pc = MAttach | MStatusCmd | MUpdate | MRun | MStop | MClose | MUnsub | MWait | MDone

record system =
  mon :: InterfaceMonitor
  hst :: hist
  reply :: reply_pc
  ifev :: if_pc
  keepalive :: loop_pc
  timer :: loop_pc
  main :: main_pc
  stop :: bool

inductive sys_init :: "(env \<Rightarrow> bool) \<Rightarrow> MonitorConfig \<Rightarrow> system \<Rightarrow> bool"
  for P :: "env \<Rightarrow> bool" and c :: MonitorConfig where
  started: "P E \<Longrightarrow> start_setup E c [] = (Inr m, h) \<Longrightarrow>
     sys_init P c \<lparr>mon = m, hst = h, reply = RIdle, ifev = IIdle, keepalive = PTop,
       timer = PTop, main = MAttach, stop = False\<rparr>"

section \<open>Steps\<close>

text \<open>What a step takes in from outside: a message of hostapd (its key without the level
  prefix, and its argument), a new link state to act on, a tick of the expiry timer.\<close>

datatype label = LMsg string string | LOper LinkOperState | LTick | LTau

inductive mstep :: "(env \<Rightarrow> bool) \<Rightarrow> label \<Rightarrow> system \<Rightarrow> system \<Rightarrow> bool"
  for P :: "env \<Rightarrow> bool" where
  reply_top: "reply s = RIdle \<Longrightarrow> \<not> stop s \<Longrightarrow> mstep P LTau s (s\<lparr>reply := RRead\<rparr>)"
| reply_event: "P E \<Longrightarrow> reply s = RRead \<Longrightarrow>
     Split (receive ev) (CHR '' '') = key # arg # rest \<Longrightarrow>
     event_switch E (after_first key (CHR ''>'')) arg (mon s) (hst s) = (r, m, h) \<Longrightarrow>
     mstep P (LMsg (after_first key (CHR ''>'')) arg) s (s\<lparr>mon := m, hst := h, reply := RStatus r\<rparr>)"
| reply_state: "reply s = RRead \<Longrightarrow> length (Split (receive ev) (CHR '' '')) < 2 \<Longrightarrow>
     isSolicitedEvent (receive ev) \<Longrightarrow> Contains (receive ev) statusReply \<Longrightarrow>
     mstep P LTau s (s\<lparr>mon := (mon s)\<lparr>ifEAPState := getIfState (receive ev)\<rparr>, reply := RStatus None\<rparr>)"
| reply_publish: "P E \<Longrightarrow> reply s = RStatus r \<Longrightarrow>
     updateInterfaceStatus E (mon s) (hst s) = (r', h) \<Longrightarrow>
     mstep P LTau s (s\<lparr>hst := (case r of None \<Rightarrow> h | Some e \<Rightarrow> CLogError ''hostapd-event'' e # h),
       reply := RIdle\<rparr>)"
| reply_again: "reply s = RRead \<Longrightarrow> mstep P LTau s (s\<lparr>reply := RIdle\<rparr>)"
| reply_broken: "reply s = RRead \<Longrightarrow> \<not> IsTimeout e \<Longrightarrow>
     mstep P LTau s (s\<lparr>hst := CLogError ''sockread'' e # hst s, reply := RDone\<rparr>)"
| reply_stop: "reply s = RIdle \<Longrightarrow> stop s \<Longrightarrow> mstep P LTau s (s\<lparr>reply := RDone\<rparr>)"
| if_event: "ifev s = IIdle \<Longrightarrow> main s \<notin> {MWait, MDone} \<Longrightarrow>
     mstep P LTau s (if OperState (link :: Link) \<noteq> operState (mon s)
                then s\<lparr>mon := (mon s)\<lparr>operState := OperState link\<rparr>, ifev := IOpState\<rparr>
                else s\<lparr>ifev := IVlan\<rparr>)"
| if_opstate: "P E \<Longrightarrow> ifev s = IOpState \<Longrightarrow> opstate_section E (mon s) (hst s) = (m, h) \<Longrightarrow>
     mstep P (LOper (operState (mon s))) s (s\<lparr>mon := m, hst := h, ifev := IWrite\<rparr>)"
| if_write: "P E \<Longrightarrow> ifev s = IWrite \<Longrightarrow> writeCommand E statusCommand (hst s) = (r, h) \<Longrightarrow>
     mstep P LTau s (s\<lparr>hst := h, ifev := IVlan\<rparr>)"
| if_vlan: "P E \<Longrightarrow> ifev s = IVlan \<Longrightarrow>
     handlePfEventForVfVlanChange E (mon s) (hst s) = (m, h) \<Longrightarrow>
     mstep P LTau s (s\<lparr>mon := m, hst := h, ifev := IIdle\<rparr>)"
| if_stop: "ifev s = IIdle \<Longrightarrow> stop s \<Longrightarrow> mstep P LTau s (s\<lparr>ifev := IDone\<rparr>)"
| keep_top: "keepalive s = PTop \<Longrightarrow> \<not> stop s \<Longrightarrow> mstep P LTau s (s\<lparr>keepalive := PBody\<rparr>)"
| keep_round: "P E \<Longrightarrow> keepalive s = PBody \<Longrightarrow> keepalive_round E (hst s) = (go, h) \<Longrightarrow>
     mstep P LTau s (s\<lparr>hst := h, keepalive := (if go then PTop else PEnd)\<rparr>)"
| keep_stop: "keepalive s = PTop \<Longrightarrow> stop s \<Longrightarrow> mstep P LTau s (s\<lparr>keepalive := PEnd\<rparr>)"
| timer_top: "timer s = PTop \<Longrightarrow> \<not> stop s \<Longrightarrow> mstep P LTau s (s\<lparr>timer := PBody\<rparr>)"
| timer_tick: "P E \<Longrightarrow> timer s = PBody \<Longrightarrow> handleRequestsTimeout E (mon s) (hst s) = (m, h) \<Longrightarrow>
     mstep P LTick s (s\<lparr>mon := m, hst := h, timer := PTop\<rparr>)"
| timer_stop: "timer s = PTop \<Longrightarrow> stop s \<Longrightarrow> mstep P LTau s (s\<lparr>timer := PEnd\<rparr>)"
| main_attach: "P E \<Longrightarrow> main s = MAttach \<Longrightarrow> ConnWrite E attachCommand (hst s) = (r, h) \<Longrightarrow>
     mstep P LTau s (case r of
         None \<Rightarrow> s\<lparr>hst := h, main := MStatusCmd\<rparr>
       | Some e \<Rightarrow> (if IsTimeout e then s\<lparr>hst := h\<rparr>
                    else s\<lparr>hst := CLogError ''sockwrite'' e # h, main := MStop\<rparr>))"
| main_status: "P E \<Longrightarrow> main s = MStatusCmd \<Longrightarrow> writeCommand E statusCommand (hst s) = (r, h) \<Longrightarrow>
     mstep P LTau s (s\<lparr>hst := h, main := MUpdate\<rparr>)"
| main_update: "P E \<Longrightarrow> main s = MUpdate \<Longrightarrow> updateInterfaceStatus E (mon s) (hst s) = (r, h) \<Longrightarrow>
     mstep P LTau s (s\<lparr>hst := h, main := MRun\<rparr>)"
| main_shutdown: "main s = MRun \<Longrightarrow> mstep P LTau s (s\<lparr>main := MStop\<rparr>)"
| main_restore: "P E \<Longrightarrow> main s = MStop \<Longrightarrow> stop_restore E (mon s) (hst s) = (m, h) \<Longrightarrow>
     mstep P LTau s (s\<lparr>mon := m, hst := h, main := MClose\<rparr>)"
| main_close: "main s = MClose \<Longrightarrow> mstep P LTau s (s\<lparr>stop := True, main := MUnsub\<rparr>)"
| main_unsub: "P E \<Longrightarrow> main s = MUnsub \<Longrightarrow>
     mstep P LTau s (s\<lparr>hst := stop_close E (mon s) (hst s), main := MWait\<rparr>)"
| main_wait: "main s = MWait \<Longrightarrow> reply s = RDone \<Longrightarrow> ifev s = IDone \<Longrightarrow>
     keepalive s = PEnd \<Longrightarrow> timer s = PEnd \<Longrightarrow> mstep P LTau s (s\<lparr>main := MDone\<rparr>)"

inductive_cases mstep_cases: "mstep P l s t"

text \<open>The monitor has not begun to shut down.\<close>

definition running :: "system \<Rightarrow> bool" where
  "running s = (main s \<in> {MAttach, MStatusCmd, MUpdate, MRun, MStop})"

section \<open>The invariant\<close>

text \<open>After \<open>StopMonitor\<close> has restored the VFs the flag \<open>Authenticated\<close> is raised
  regardless of the clients; everything else of the invariant holds in every state.\<close>

definition sys_inv :: "system \<Rightarrow> bool" where
  "sys_inv s = (shape_ok (mon s) \<and> (running s \<longrightarrow> auth_sync (PfInfo (mon s))))"

section \<open>The abstract port\<close>

text \<open>
  What the monitor promises about clients: a port with a set \<open>fst\<close> of admitted clients
  and the subset \<open>snd\<close> of those that were asked to leave. A client is admitted by a
  connect message only; it leaves by a disconnect message, or by a tick of the timer after
  it was asked to leave, which happens when the link goes down.
\<close>

inductive port_step :: "label \<Rightarrow> string set \<times> string set \<Rightarrow> string set \<times> string set \<Rightarrow> bool" where
  port_join: "port_step (LMsg staConnectedEvent m) (S, D) (insert m S, D - {m})"
| port_leave: "port_step (LMsg staDisconnectedEvent m) (S, D) (S - {m}, D - {m})"
| port_note: "key \<noteq> staConnectedEvent \<Longrightarrow> key \<noteq> staDisconnectedEvent \<Longrightarrow>
     port_step (LMsg key m) p p"
| port_down: "port_step (LOper OperDown) (S, D) (S, S)"
| port_up: "port_step (LOper OperUp) (S, D) (S, {})"
| port_oper: "st \<noteq> OperDown \<Longrightarrow> st \<noteq> OperUp \<Longrightarrow> port_step (LOper st) p p"
| port_expire: "X \<subseteq> D \<Longrightarrow> port_step LTick (S, D) (S - X, D - X)"
| port_tau: "port_step LTau p p"

definition port_init :: "string set \<times> string set \<Rightarrow> bool" where
  "port_init p = (p = ({}, {}))"

definition port_of :: "system \<Rightarrow> string set \<times> string set" where
  "port_of s = (clients (mon s), pending (mon s))"

lemma stop_restore_keeps:
  assumes "stop_restore E m h = (m', h')" and "shape_ok m"
  shows "shape_ok m' \<and> clients m' = clients m \<and> pending m' = pending m"
  using assms
  by (auto simp: stop_restore_def Let_def shape_ok_def clients_def pending_def
      split: prod.splits option.splits if_splits)

lemma mstep_inv: "mstep P l s t \<Longrightarrow> sys_inv s \<Longrightarrow> sys_inv t"
proof (induction rule: mstep.induct)
  case (reply_event E s ev key arg rest r m h)
  then show ?case
    using event_switch_moves [OF reply_event(4)] by (auto simp: sys_inv_def running_def moves_def)
next
  case (if_opstate E s m h)
  then show ?case
    using opstate_section_moves [OF if_opstate(3)] by (auto simp: sys_inv_def running_def moves_def)
next
  case (if_vlan E s m h)
  then show ?case
    using vlan_change_moves [OF if_vlan(3)] by (auto simp: sys_inv_def running_def moves_def)
next
  case (timer_tick E s m h)
  then show ?case
    using handleRequestsTimeout_moves [OF timer_tick(3)]
    by (auto simp: sys_inv_def running_def moves_def)
next
  case (main_restore E s m h)
  then show ?case
    using stop_restore_keeps [OF main_restore(3)] by (auto simp: sys_inv_def running_def)
qed (auto simp: sys_inv_def running_def auth_sync_def split: option.splits)

lemma mstep_port: "mstep P l s t \<Longrightarrow> sys_inv s \<Longrightarrow> port_step l (port_of s) (port_of t)"
proof (induction rule: mstep.induct)
  case (reply_event E s ev key arg rest r m h)
  then show ?case
    using event_switch_moves [OF reply_event(4)]
    by (cases "after_first key (CHR ''>'') = staConnectedEvent";
        cases "after_first key (CHR ''>'') = staDisconnectedEvent")
      (auto simp: sys_inv_def moves_def port_of_def intro: port_step.intros)
next
  case (if_opstate E s m h)
  then show ?case
    using opstate_section_moves [OF if_opstate(3)]
    by (cases "operState (mon s)")
      (auto simp: sys_inv_def moves_def port_of_def intro: port_step.intros)
next
  case (if_vlan E s m h)
  then show ?case
    using vlan_change_moves [OF if_vlan(3)]
    by (auto simp: sys_inv_def moves_def port_of_def intro: port_tau)
next
  case (timer_tick E s m h)
  then show ?case
    using handleRequestsTimeout_moves [OF timer_tick(3)]
    by (auto simp: sys_inv_def moves_def port_of_def intro: port_step.intros)
next
  case (main_restore E s m h)
  then show ?case
    using stop_restore_keeps [OF main_restore(3)]
    by (auto simp: sys_inv_def port_of_def intro: port_tau)
qed (auto simp: port_of_def intro: port_tau split: option.splits)

interpretation msys: simulated_system "sys_init P c" "mstep P" sys_inv
    port_init port_step port_of for P c
proof unfold_locales
  fix s assume "sys_init P c s"
  then show "sys_inv s" and "port_init (port_of s)"
    by (auto elim!: sys_init.cases dest!: start_setup_ok
        simp: sys_inv_def port_init_def port_of_def)
next
  fix l s t assume "sys_inv s" and "mstep P l s t"
  then show "sys_inv t" and "port_step l (port_of s) (port_of t)"
    using mstep_inv mstep_port by metis+
qed

text \<open>The clients of the port are determined by the messages alone as long as the link
  never went down; otherwise some of them may have expired.\<close>

fun connected :: "label list \<Rightarrow> string set" where
  "connected [] = {}"
| "connected (LMsg key a # tr) =
     (if key = staConnectedEvent then insert a (connected tr)
      else if key = staDisconnectedEvent then connected tr - {a} else connected tr)"
| "connected (l # tr) = connected tr"

lemma port_run:
  "run port_init port_step tr p \<Longrightarrow>
     snd p \<subseteq> fst p \<and> fst p \<subseteq> connected tr \<and>
     (LOper OperDown \<notin> set tr \<longrightarrow> snd p = {} \<and> fst p = connected tr)"
proof (induction rule: run.induct)
  case (run_step tr p l q)
  from run_step(2,3) show ?case
    by (induction rule: port_step.induct) (auto simp: event_defs)
qed (simp add: port_init_def)

section \<open>Enforcement\<close>

text \<open>An error of traffic control was logged.\<close>

fun is_tc_error :: "call \<Rightarrow> bool" where
  "is_tc_error (CLogError ctx e) =
     (ctx \<in> {''hostapd-event'', ''error applying deny traffic'', ''error handling pf event'',
        ''restoring vf state''})"
| "is_tc_error c = False"

definition tc_error :: "hist \<Rightarrow> bool" where
  "tc_error h = list_ex is_tc_error h"

lemma tc_error_mono: "only P h' h \<Longrightarrow> tc_error h \<Longrightarrow> tc_error h'"
  by (auto simp: only_def tc_error_def list_ex_iff)

lemma tc_error_simps [simp]:
  "\<not> tc_error []" "tc_error (c # h) \<longleftrightarrow> is_tc_error c \<or> tc_error h"
  by (simp_all add: tc_error_def)

lemma enforced_other: "only is_other h' h \<Longrightarrow> enforced ifs h' pf = enforced ifs h pf"
  by (simp add: enforced_def vfs_set_def only_other_runs only_other_vf_vlan only_other_vf_state)

lemma enforced_Cons [simp]: "is_other c \<Longrightarrow> enforced ifs (c # h) pf = enforced ifs h pf"
  by (rule enforced_other) simp

lemma vlan_change_enforced:
  assumes "handlePfEventForVfVlanChange E m h = (m', h')" and "names_ok E"
    and "pf_ok (PfInfo m)" and "enforced ifs h (PfInfo m)" and "\<not> tc_error h'"
  shows "enforced ifs h' (PfInfo m')"
proof -
  obtain r pf h1 where pf: "HandlePfEventForVlanChange E (PfInfo m) h = (r, pf, h1)"
    by (metis prod_cases3)
  with assms(1,5) have r: "r = None" and m': "m' = m\<lparr>PfInfo := pf\<rparr>" "h' = h1"
    by (auto simp: handlePfEventForVfVlanChange_def split: option.splits)
  obtain l :: Link where loop: "vlan_change_loop E (link_Vfs l) (PfInfo m)
      (CLinkByName (pf_Name (PfInfo m)) # h) = (None, pf, h1)"
    using pf r by (auto simp: HandlePfEventForVlanChange_def LinkByName_def split: sum.splits)
  have "vfs_set h1 pf"
    using vlan_change_loop_set [OF assms(2) loop assms(3)] assms(4)
    by (simp add: enforced_def vfs_set_def)
  moreover have "runs h1 = runs h"
    using only_vf_runs [OF vlan_change_loop_only [OF loop]] by simp
  moreover have "AuthenticatedAddrs pf = AuthenticatedAddrs (PfInfo m)"
    using HandlePf_same [OF pf assms(3)] by (simp add: same_pf_def)
  ultimately show ?thesis using assms(4) m' by (simp add: enforced_def)
qed

lemma deny_step_enforced:
  assumes "handleDeAuthenticateEvent E a m h = (None, m', h')"
    and "host_ok (pf_Name (PfInfo m)) ifs E" "no_blank (pf_Name (PfInfo m))" "no_blank a"
    and "shape_ok m" and "enforced ifs h (PfInfo m)"
  shows "enforced ifs h' (PfInfo m')"
  using assms tc.expel_enforced [of E a "PfInfo m" h _ h' ifs]
  by (auto simp: handleDeAuthenticateEvent_def shape_ok_def split: prod.splits)

lemma allow_step_enforced:
  assumes "handleAuthenticateEvent E a m h = (None, m', h')"
    and "host_ok (pf_Name (PfInfo m)) ifs E" "no_blank (pf_Name (PfInfo m))" "no_blank a"
    and "shape_ok m" and "enforced ifs h (PfInfo m)"
  shows "enforced ifs h' (PfInfo m')"
  using assms tc.enroll_enforced [of E a "PfInfo m" h _ h' ifs]
  by (auto simp: handleAuthenticateEvent_def shape_ok_def split: prod.splits)

lemma timeout_loop_mono: "timeout_loop E now reqs m h = (m', h') \<Longrightarrow> only (\<lambda>_. True) h' h"
proof (induction reqs arbitrary: m h)
  case (Cons q rest)
  obtain a ts where q: "q = (a, ts)" by fastforce
  obtain r pf h1 where d: "DenyTrafficFromMac E (expel a (PfInfo m)) a h = (r, pf, h1)"
    by (metis prod_cases3)
  have "only (\<lambda>_. True) h1 h" using tc.deny_calls [OF d] by (rule only_mono) simp
  with Cons q d show ?case
    by (auto split: if_splits option.splits dest!: Cons.IH intro: only_trans only_Cons)
qed simp

lemma timeout_loop_enforced:
  assumes "timeout_loop E now reqs m h = (m', h')" and "\<not> tc_error h'"
    and "host_ok (pf_Name (PfInfo m)) ifs E" "no_blank (pf_Name (PfInfo m))"
    and "\<forall>a\<in>fst ` set reqs. no_blank a"
    and "shape_ok m" and "enforced ifs h (PfInfo m)"
  shows "enforced ifs h' (PfInfo m')"
  using assms
proof (induction reqs arbitrary: m h)
  case (Cons q rest)
  obtain a ts where q: "q = (a, ts)" by fastforce
  show ?case
  proof (cases "wrap64 (now - ts) < requestTimeout")
    case True
    with Cons.prems q show ?thesis by simp
  next
    case False
    obtain r m1 h1 where de: "handleDeAuthenticateEvent E a m h = (r, m1, h1)"
      by (metis prod_cases3)
    with Cons.prems(1) q False have rest: "timeout_loop E now rest m1
      (case r of None \<Rightarrow> h1 | Some e \<Rightarrow> CLogError ''error applying deny traffic'' e # h1) = (m', h')"
      by (auto simp: handleDeAuthenticateEvent_def split: prod.splits)
    have "r = None"
      using tc_error_mono [OF timeout_loop_mono [OF rest]] Cons.prems(2) by (cases r) auto
    moreover note mv = handleDeAuthenticate_moves [OF de Cons.prems(6)]
    ultimately show ?thesis
      using Cons.IH [of m1 h1] rest Cons.prems q de deny_step_enforced [of E a m h m1 h1 ifs]
      by (auto simp: moves_def)
  qed
qed simp

lemma event_switch_enforced:
  assumes "event_switch E key a m h = (None, m', h')"
    and "host_ok (pf_Name (PfInfo m)) ifs E" "no_blank (pf_Name (PfInfo m))" "no_blank a"
    and "shape_ok m" and "enforced ifs h (PfInfo m)"
  shows "enforced ifs h' (PfInfo m')"
proof -
  have log: "enforced ifs (logEvent E m ty msg h) (PfInfo m)" for ty msg
    using assms(6) enforced_other [OF logEvent_other] by blast
  show ?thesis
    using assms allow_step_enforced [OF _ assms(2-6)] deny_step_enforced [OF _ assms(2-5)] log
    by (auto simp: event_switch_def stats_Authenticated_def stats_DeAuthenticated_def
        stats_AuthFailed_def split: if_splits)
qed

text \<open>Once an error of traffic control is logged, or about to be, nothing is claimed.\<close>

definition faultless :: "system \<Rightarrow> bool" where
  "faultless s = (\<not> tc_error (hst s) \<and> (\<forall>e. reply s \<noteq> RStatus (Some e)))"

definition enf_inv :: "string \<Rightarrow> string list \<Rightarrow> system \<Rightarrow> bool" where
  "enf_inv n ifs s = (sys_inv s \<and> pf_Name (PfInfo (mon s)) = n \<and> no_blank n \<and>
     (\<forall>a\<in>clients (mon s). no_blank a) \<and>
     (faultless s \<longrightarrow> enforced ifs (hst s) (PfInfo (mon s))))"

abbreviation grows :: "hist \<Rightarrow> hist \<Rightarrow> bool" where
  "grows \<equiv> only (\<lambda>_. True)"

lemma growsI: "only P h' h \<Longrightarrow> grows h' h"
  by (erule only_mono) simp

lemma event_switch_grows:
  assumes "event_switch E key a m h = (r, m', h')" shows "grows h' h"
proof -
  have log: "grows (logEvent E m ty msg h) h" for ty msg by (rule growsI [OF logEvent_other])
  have deny: "grows g' h" if "DenyTrafficFromMac E pf a (c # logEvent E m ty msg h) = (r, pf', g')"
    for pf c ty msg pf' g'
    by (rule only_trans [OF only_Cons [OF growsI [OF tc.deny_calls [OF that]] TrueI] log])
  show ?thesis
    using assms log deny growsI [OF tc.allow_calls]
    by (auto simp: event_switch_def stats_Authenticated_def stats_DeAuthenticated_def
        stats_AuthFailed_def handleAuthenticateEvent_def handleDeAuthenticateEvent_def
        split: if_splits prod.splits)
qed

lemma vlan_change_grows:
  assumes "handlePfEventForVfVlanChange E m h = (m', h')" shows "grows h' h"
proof -
  obtain r pf h1 where pf: "HandlePfEventForVlanChange E (PfInfo m) h = (r, pf, h1)"
    by (metis prod_cases3)
  have "grows h1 h"
    using pf only_Cons [OF growsI [OF vlan_change_loop_only] TrueI]
    by (auto simp: HandlePfEventForVlanChange_def LinkByName_def split: sum.splits)
  with pf assms show ?thesis
    by (auto simp: handlePfEventForVfVlanChange_def split: option.splits)
qed

lemma handleRequestsTimeout_enforced:
  assumes "handleRequestsTimeout E m h = (m', h')" and "\<not> tc_error h'"
    and "host_ok (pf_Name (PfInfo m)) ifs E" "no_blank (pf_Name (PfInfo m))"
    and "\<forall>a\<in>clients m. no_blank a" and "shape_ok m" and "enforced ifs h (PfInfo m)"
  shows "enforced ifs h' (PfInfo m')"
proof -
  let ?h = "CNow # h"
  have loop: "timeout_loop E (env_Now E h) (range_keys E ?h (deauthRequests m)) m ?h = (m', h')"
    using assms(1) by (simp add: handleRequestsTimeout_def Now_def)
  have "\<forall>a\<in>fst ` set (range_keys E ?h (deauthRequests m)). no_blank a"
    using assms(5,6) by (auto simp: shape_ok_def pending_def map_keys_def)
  from timeout_loop_enforced [OF loop assms(2-4) this assms(6)] assms(7) show ?thesis by simp
qed

lemma handleRequestsTimeout_grows: "handleRequestsTimeout E m h = (m', h') \<Longrightarrow> grows h' h"
  by (auto simp: handleRequestsTimeout_def Now_def dest!: timeout_loop_mono intro: only_Cons)

text \<open>A step that makes no VF call, runs no command and leaves the monitor's PF alone keeps
  the enforcement invariant.\<close>

lemma enf_inv_other:
  assumes "enf_inv n ifs s" and "sys_inv t" and "PfInfo (mon t) = PfInfo (mon s)"
    and "only is_other (hst t) (hst s)" and "faultless t \<longrightarrow> faultless s"
  shows "enf_inv n ifs t"
  using assms enforced_other [OF assms(4)] by (auto simp: enf_inv_def clients_def)

lemma faultless_grows:
  "grows (hst t) (hst s) \<Longrightarrow> faultless t \<Longrightarrow> (\<forall>e. reply s \<noteq> RStatus (Some e)) \<Longrightarrow> faultless s"
  using tc_error_mono by (auto simp: faultless_def)

text \<open>A step of the monitor's own is judged by what it does to the clients and to the
  enforcement.\<close>

lemma enf_inv_moves:
  assumes "enf_inv n ifs s" and "sys_inv t" and "moves (mon s) S D (mon t)"
    and "\<forall>a\<in>S. no_blank a" and "faultless t \<longrightarrow> faultless s"
    and "faultless t \<Longrightarrow> enforced ifs (hst s) (PfInfo (mon s)) \<Longrightarrow>
      enforced ifs (hst t) (PfInfo (mon t))"
  shows "enf_inv n ifs t"
  using assms unfolding enf_inv_def moves_def by simp

lemma reply_event_enf:
  assumes "enf_inv n ifs s" and "sys_inv t" and "host_ok n ifs E" and "reply s = RRead"
    and "no_blank a" and ev: "event_switch E key a (mon s) (hst s) = (r, m, h)"
    and t: "t = s\<lparr>mon := m, hst := h, reply := RStatus r\<rparr>"
  shows "enf_inv n ifs t"
proof -
  from assms(1) have inv: "shape_ok (mon s)" "pf_Name (PfInfo (mon s)) = n" "no_blank n"
    "\<forall>a\<in>clients (mon s). no_blank a" by (simp_all add: enf_inv_def sys_inv_def)
  note mv = event_switch_moves [OF ev inv(1)]
  have "faultless t \<longrightarrow> faultless s"
    using faultless_grows [of t s] event_switch_grows [OF ev] t assms(4) by simp
  moreover have "enforced ifs (hst t) (PfInfo (mon t))"
    if "faultless t" "enforced ifs (hst s) (PfInfo (mon s))"
  proof -
    have "r = None" using that(1) t by (cases r) (simp_all add: faultless_def)
    with event_switch_enforced [of E key a "mon s" "hst s" m h ifs] ev assms(3,5) inv that(2) t
    show ?thesis by simp
  qed
  moreover obtain S D where "moves (mon s) S D (mon t)" and "\<forall>a\<in>S. no_blank a"
  proof (cases "key = staConnectedEvent")
    case True
    then show thesis using mv that inv(4) assms(5) t
      by (metis insert_iff system.select_convs(1) system.surjective system.update_convs(1-3))
  next
    case False
    then show thesis using mv that inv(1,4) t moves_refl
      by (cases "key = staDisconnectedEvent")
        (metis Diff_iff system.select_convs(1) system.surjective system.update_convs(1-3))+
  qed
  ultimately show ?thesis using enf_inv_moves assms(1,2) by blast
qed

lemma timer_tick_enf:
  assumes "enf_inv n ifs s" and "sys_inv t" and "host_ok n ifs E"
    and to: "handleRequestsTimeout E (mon s) (hst s) = (m, h)"
    and t: "t = s\<lparr>mon := m, hst := h, timer := PTop\<rparr>"
  shows "enf_inv n ifs t"
proof -
  from assms(1) have inv: "shape_ok (mon s)" "pf_Name (PfInfo (mon s)) = n" "no_blank n"
    "\<forall>a\<in>clients (mon s). no_blank a" by (simp_all add: enf_inv_def sys_inv_def)
  obtain X where "moves (mon s) (clients (mon s) - X) (pending (mon s) - X) (mon t)"
    using handleRequestsTimeout_moves [OF to inv(1)] t by auto
  moreover have "faultless t \<longrightarrow> faultless s"
    using tc_error_mono [OF handleRequestsTimeout_grows [OF to]] t by (auto simp: faultless_def)
  moreover have "enforced ifs (hst t) (PfInfo (mon t))"
    if "faultless t" "enforced ifs (hst s) (PfInfo (mon s))"
    using handleRequestsTimeout_enforced [OF to] that inv assms(3) t by (simp add: faultless_def)
  ultimately show ?thesis
    using enf_inv_moves [OF assms(1,2)] inv(4) t by simp
qed

lemma if_vlan_enf:
  assumes "enf_inv n ifs s" and "sys_inv t" and "host_ok n ifs E"
    and vl: "handlePfEventForVfVlanChange E (mon s) (hst s) = (m, h)"
    and t: "t = s\<lparr>mon := m, hst := h, ifev := IIdle\<rparr>"
  shows "enf_inv n ifs t"
proof -
  from assms(1) have inv: "shape_ok (mon s)" "\<forall>a\<in>clients (mon s). no_blank a"
    by (simp_all add: enf_inv_def sys_inv_def)
  have "moves (mon s) (clients (mon s)) (pending (mon s)) (mon t)"
    using vlan_change_moves [OF vl inv(1)] t by simp
  moreover have "faultless t \<longrightarrow> faultless s"
    using tc_error_mono [OF vlan_change_grows [OF vl]] t by (auto simp: faultless_def)
  moreover have "enforced ifs (hst t) (PfInfo (mon t))"
    if "faultless t" "enforced ifs (hst s) (PfInfo (mon s))"
    using vlan_change_enforced [OF vl, of ifs] that inv assms(3) t
    by (simp add: faultless_def host_ok_def shape_ok_def)
  ultimately show ?thesis
    using enf_inv_moves [OF assms(1,2)] inv t by simp
qed

lemma stop_restore_enforced:
  assumes "stop_restore E m h = (m', h')" and "\<not> tc_error h'" and "names_ok E"
    and "pf_ok (PfInfo m)" and "enforced ifs h (PfInfo m)"
  shows "enforced ifs h' (PfInfo m') \<and> Authenticated (PfInfo m')"
proof (cases "Authenticated (PfInfo m)")
  case True
  with assms(1,5) show ?thesis by (simp add: stop_restore_def)
next
  case False
  let ?pf = "(PfInfo m)\<lparr>Authenticated := True\<rparr>"
  obtain r h1 where conf: "ConfigureVlanStateForVFs E ?pf h = (r, h1)" by fastforce
  with assms(1,2) False have r: "r = None" and m': "m' = m\<lparr>PfInfo := ?pf\<rparr>" "h' = h1"
    by (auto simp: stop_restore_def Let_def split: option.splits)
  have "vfs_set h1 ?pf" using configure_vfs_set [of ?pf E h h1] conf r assms(3,4) by simp
  moreover have "runs h1 = runs h"
    using only_vf_runs [OF ConfigureVlanStateForVFs_only, of E ?pf h] conf by simp
  ultimately show ?thesis using assms(5) m' by (simp add: enforced_def)
qed

lemma stop_restore_grows: "stop_restore E m h = (m', h') \<Longrightarrow> grows h' h"
  using growsI [OF ConfigureVlanStateForVFs_only, of E "(PfInfo m)\<lparr>Authenticated := True\<rparr>" h]
  by (auto simp: stop_restore_def Let_def split: if_splits prod.splits option.splits)

lemma main_restore_enf:
  assumes "enf_inv n ifs s" and "sys_inv t" and "host_ok n ifs E"
    and re: "stop_restore E (mon s) (hst s) = (m, h)"
    and t: "t = s\<lparr>mon := m, hst := h, main := MClose\<rparr>"
  shows "enf_inv n ifs t"
proof -
  from assms(1) have inv: "shape_ok (mon s)" "pf_Name (PfInfo (mon s)) = n" "no_blank n"
    "\<forall>a\<in>clients (mon s). no_blank a" by (simp_all add: enf_inv_def sys_inv_def)
  have "faultless t \<longrightarrow> faultless s"
    using tc_error_mono [OF stop_restore_grows [OF re]] t by (auto simp: faultless_def)
  moreover have "enforced ifs (hst t) (PfInfo (mon t))"
    if "faultless t" "enforced ifs (hst s) (PfInfo (mon s))"
    using stop_restore_enforced [OF re, of ifs] that inv(1) assms(3) t
    by (simp add: faultless_def host_ok_def shape_ok_def)
  moreover have "pf_Name (PfInfo m) = n" "clients m = clients (mon s)"
    using re inv(2) by (auto simp: stop_restore_def Let_def clients_def
        split: if_splits prod.splits option.splits)
  ultimately show ?thesis using assms(1,2) inv t by (auto simp: enf_inv_def)
qed

lemma mstep_enf:
  assumes step: "mstep (host_ok n ifs) l s t" and inv: "enf_inv n ifs s"
  shows "enf_inv n ifs t"
proof -
  have "sys_inv t" using mstep_inv [OF step] inv by (simp add: enf_inv_def)
  with step inv show ?thesis
  proof (induction rule: mstep.induct)
    case (reply_event E s ev key arg rest r m h)
    have "no_blank arg"
      using Split_elems_no_sep [of arg "receive ev" "CHR '' ''"] reply_event(3) by (simp add: no_blank_def)
    then show ?case by (rule reply_event_enf [OF reply_event(5,6,1,2) _ reply_event(4) refl])
  next
    case (timer_tick E s m h)
    show ?case by (rule timer_tick_enf [OF timer_tick(4,5,1,3) refl])
  next
    case (if_vlan E s m h)
    show ?case by (rule if_vlan_enf [OF if_vlan(4,5,1,3) refl])
  next
    case (if_opstate E s m h)
    then have "only is_other h (hst s)" "PfInfo m = PfInfo (mon s)"
      using opstate_section_other [of E "mon s" "hst s"] opstate_section_moves [OF if_opstate(3)]
      by (simp_all add: enf_inv_def sys_inv_def)
    moreover from this(1) have "tc_error (hst s) \<longrightarrow> tc_error h" using tc_error_mono by blast
    ultimately show ?case
      by (intro enf_inv_other [OF if_opstate(4,5)]) (auto simp: running_def faultless_def)
  next
    case (reply_publish E s r r' h)
    then have "only is_other h (hst s)"
      using updateInterfaceStatus_other [of E "mon s" "hst s"] by simp
    moreover from this have "tc_error (hst s) \<longrightarrow> tc_error h" using tc_error_mono by blast
    ultimately show ?case
      using reply_publish(2)
      by (intro enf_inv_other [OF reply_publish(4,5)])
        (auto simp: running_def faultless_def split: option.splits)
  next
    case (main_update E s r h)
    then have "only is_other h (hst s)"
      using updateInterfaceStatus_other [of E "mon s" "hst s"] by simp
    moreover from this have "tc_error (hst s) \<longrightarrow> tc_error h" using tc_error_mono by blast
    ultimately show ?case
      using main_update(2)
      by (intro enf_inv_other [OF main_update(4,5)]) (auto simp: running_def faultless_def)
  next
    case (main_restore E s m h)
    show ?case by (rule main_restore_enf [OF main_restore(4,5,1,3) refl])
  next
    case (main_unsub E s)
    then show ?case
      by (intro enf_inv_other [OF main_unsub(3,4)])
        (auto simp: faultless_def stop_close_def go_defs Let_def split: option.splits)
  next
    case (main_attach E s r h)
    then show ?case
      by (intro enf_inv_other [OF main_attach(4,5)])
        (auto simp: running_def faultless_def go_defs Let_def split: option.splits)
  next
    case (main_status E s r h)
    then show ?case
      by (intro enf_inv_other [OF main_status(4,5)])
        (auto simp: running_def faultless_def writeCommand_def go_defs Let_def)
  next
    case (if_write E s r h)
    then show ?case
      by (intro enf_inv_other [OF if_write(4,5)])
        (auto simp: running_def faultless_def writeCommand_def go_defs Let_def)
  next
    case (keep_round E s go h)
    then show ?case
      by (intro enf_inv_other [OF keep_round(4,5)])
        (auto simp: running_def faultless_def keepalive_round_def go_defs Let_def
          split: option.splits if_splits)
  qed (auto simp: enf_inv_def running_def faultless_def clients_def)
qed

lemma vf_call_no_error: "is_vf_call c \<Longrightarrow> \<not> is_tc_error c"
  by (cases c) auto

lemma start_setup_enforced:
  assumes "start_setup E c [] = (Inr m, h)" and "names_ok E"
  shows "enforced ifs h (PfInfo m) \<and> \<not> tc_error h"
proof -
  let ?g = "[CDial (filepath_Join [hostapdSocketDir, IfName c]) None, CRemove, CTempFile None]"
  obtain pf g' h4 where pf: "GetSriovPFInfo E (IfName c) ?g = (Inr pf, g')" and conf: "ConfigureVlanStateForVFs E pf g' = (None, h4)"
    and h: "h = CSubscribe (IfName c) # h4" and m: "PfInfo m = pf"
    using assms(1)
    by (auto simp: start_setup_def TempFile_def DialUnix_def Let_def MonitorConfig.defs
        split: prod.splits option.splits sum.splits)
  note f = GetSriovPFInfo_fields [OF pf]
  have "only is_read g' ?g" and vf: "only is_vf_call h4 g'"
    using f ConfigureVlanStateForVFs_only [of E pf g'] conf by simp_all
  then have "runs h4 = []" by (simp add: only_vf_runs only_read_runs)
  moreover have "vfs_set h4 pf" using configure_vfs_set [OF _ assms(2) conf] f by blast
  moreover have "\<not> tc_error h4"
  proof -
    have "only is_vf_call h4 ?g" using f vf only_read_vf only_trans by blast
    then show ?thesis
      using vf_call_no_error by (fastforce simp: only_def tc_error_def list_all_iff list_ex_iff)
  qed
  ultimately show ?thesis using f h m by (simp add: enforced_def vfs_set_def)
qed

interpretation enf: invariant_system "sys_init (host_ok (IfName c) ifs) c"
    "mstep (host_ok (IfName c) ifs)" "\<lambda>s. no_blank (IfName c) \<longrightarrow> enf_inv (IfName c) ifs s" for c ifs
proof unfold_locales
  fix s assume "sys_init (host_ok (IfName c) ifs) c s"
  then show "no_blank (IfName c) \<longrightarrow> enf_inv (IfName c) ifs s"
  proof cases
    case (started E m h)
    then show ?thesis
      using start_setup_ok [OF started(3)] start_setup_enforced [OF started(3), of ifs]
      by (simp add: enf_inv_def sys_inv_def host_ok_def)
  qed
next
  fix l s t assume "no_blank (IfName c) \<longrightarrow> enf_inv (IfName c) ifs s"
    and "mstep (host_ok (IfName c) ifs) l s t"
  then show "no_blank (IfName c) \<longrightarrow> enf_inv (IfName c) ifs t" by (blast intro: mstep_enf)
qed

section \<open>An example run\<close>

text \<open>The monitor of \<open>eth0\<close> starts and hostapd reports one client.\<close>

definition c0 :: MonitorConfig where
  "c0 = NewInterfaceMonitor ''eth0'' []"

definition E0 :: env where
  "E0 = calm [\<lparr>vf_ID = 0, vf_Vlan = 100\<rparr>] a0"

definition m0 :: InterfaceMonitor where
  "m0 = MonitorConfig.extend c0
     \<lparr>PfInfo = pf0, deauthRequests = [], operState = OperUnknown, ifEAPState = []\<rparr>"

definition s0 :: system where
  "s0 = \<lparr>mon = m0, hst = snd (start_setup E0 c0 []), reply = RIdle, ifev = IIdle,
     keepalive = PTop, timer = PTop, main = MAttach, stop = False\<rparr>"

definition s1 :: system where
  "s1 = (case event_switch E0 staConnectedEvent ''aa'' m0 (hst s0) of
     (r, m, h) \<Rightarrow> s0\<lparr>mon := m, hst := h, reply := RStatus r\<rparr>)"

lemma E0_host_ok: "host_ok ''eth0'' [''eth0''] E0"
  by (simp add: host_ok_def E0_def calm_names_ok blank_free_def stable_def calm_assoc no_blank_def
      split: if_splits)

lemma start_example:
  "start_setup E0 c0 [] =
     (Inr m0, [CSubscribe ''eth0'', CLinkSetVfState ''eth0'' 0 VF_LINK_STATE_DISABLE None,
        CLinkSetVfVlan ''eth0'' 0 4095 None, CLinkByName ''eth0'', CLinkByName ''eth0'',
        CDial (filepath_Join [hostapdSocketDir, ''eth0'']) None, CRemove, CTempFile None])"
  by (simp add: start_setup_def E0_def c0_def NewInterfaceMonitor_def go_defs GetSriovPFInfo_def
      vf_entry_def ConfigureVlanStateForVFs_def ConfigureVlanState_def m0_def pf0_def
      MonitorConfig.defs ReservedVlan_def)

lemma connect_example:
  "event_switch E0 staConnectedEvent ''aa'' m0 h =
     (None, m0\<lparr>PfInfo := pf1\<lparr>Authenticated := True\<rparr>\<rparr>,
      CRun (allow_cmd ''eth0'' ''aa'') None #
      snd (GetAssociatedInterfaces E0 ''eth0''
        (CLookPath ''tc'' # CLinkSetVfState ''eth0'' 0 VF_LINK_STATE_AUTO None #
         CLinkSetVfVlan ''eth0'' 0 100 None # CLinkByName ''eth0'' # h)))"
  by (simp add: event_switch_def handleAuthenticateEvent_def Allow_apply apply_policy_def
      allow_pf_def enroll_def m0_def E0_def pf1_def pf0_def calm_assoc
      ConfigureVlanStateForVFs_def ConfigureVlanState_def go_defs MonitorConfig.defs)

lemma E0_assoc: "GetAssociatedInterfaces E0 ''eth0'' h =
   (Inr [''eth0''], CGlob (filepath_Join [sysClassNet, ''eth0'', ''device'', ''virtfn*'']) #
      CStat ''/sys/class/net/eth0/device/sriov_numvfs'' #
      CStat ''/sys/class/net/eth0/device/sriov_numvfs'' # h)"
  by (simp add: E0_def calm_assoc)

lemmas s1_simps = s1_def s0_def connect_example start_example E0_assoc

lemma s0_run:
  assumes "P E0" shows "run (sys_init P c0) (mstep P) [] s0"
  unfolding s0_def using run.run_init [of "sys_init P c0", OF started [where P = P, OF assms start_example]]
  by (simp add: start_example)

text \<open>The reader takes a message in two steps: back at the top it sees that the monitor is not
  being stopped, and then it reads.\<close>

lemma message_run:
  assumes "run (sys_init P c) (mstep P) tr s" and "P E" and "reply s = RIdle" and "\<not> stop s"
    and "Split (receive ev) (CHR '' '') = [key, arg]"
    and "event_switch E (after_first key (CHR ''>'')) arg (mon s) (hst s) = (r, m, h)"
  shows "run (sys_init P c) (mstep P) (LMsg (after_first key (CHR ''>'')) arg # LTau # tr)
    (s\<lparr>mon := m, hst := h, reply := RStatus r\<rparr>)"
proof -
  have "mstep P LTau s (s\<lparr>reply := RRead\<rparr>)" using assms(3,4) by (rule reply_top)
  with assms(1) have "run (sys_init P c) (mstep P) (LTau # tr) (s\<lparr>reply := RRead\<rparr>)"
    by (rule run.run_step)
  moreover have "mstep P (LMsg (after_first key (CHR ''>'')) arg) (s\<lparr>reply := RRead\<rparr>)
      (s\<lparr>reply := RRead\<rparr>\<lparr>mon := m, hst := h, reply := RStatus r\<rparr>)"
    using assms(2,5,6) by (intro reply_event [of P E _ ev key arg "[]"]) simp_all
  ultimately show ?thesis using run.run_step by fastforce
qed

lemma run_example:
  assumes "P E0"
  shows "run (sys_init P c0) (mstep P) [LMsg staConnectedEvent ''aa'', LTau] s1"
proof -
  have ev: "Split (receive ''<3>AP-STA-CONNECTED aa'') (CHR '' '') = [''<3>AP-STA-CONNECTED'', ''aa'']"
    and key: "after_first ''<3>AP-STA-CONNECTED'' (CHR ''>'') = staConnectedEvent"
    by code_simp+
  obtain r m h where sw: "event_switch E0 staConnectedEvent ''aa'' (mon s0) (hst s0) = (r, m, h)"
    by (metis prod_cases3)
  have "reply s0 = RIdle" "\<not> stop s0" by (simp_all add: s0_def)
  from message_run [where P = P, OF s0_run [where P = P, OF assms] assms this ev, unfolded key, OF sw] sw
  show ?thesis by (simp add: s1_def) (simp add: s0_def)
qed

section \<open>Properties of the running monitor\<close>

text \<open>
  C4. In every state that any interleaving of the monitor's goroutines reaches, whatever
  the kernel, \<open>tc\<close>, hostapd and the API server answer: each tracked VF is filed once
  under its own number, deauthentication requests are pending for clients only, and until
  \<open>StopMonitor\<close> restores the VFs the flag \<open>Authenticated\<close> is raised exactly when
  there is a client.
\<close>

theorem monitor_invariant:
  assumes "run (sys_init P c) (mstep P) tr s"
  shows "pf_ok (PfInfo (mon s)) \<and> map_ok (deauthRequests (mon s)) \<and>
    pending (mon s) \<subseteq> clients (mon s) \<and>
    (running s \<longrightarrow> Authenticated (PfInfo (mon s)) = (clients (mon s) \<noteq> {}))"
  using msys.inv_run [OF assms] by (simp add: sys_inv_def shape_ok_def auth_sync_def clients_def)

theorem monitor_invariant_witness:
  "run (sys_init (\<lambda>E. E = E0) c0) (mstep (\<lambda>E. E = E0)) [LMsg staConnectedEvent ''aa'', LTau] s1 \<and>
   Authenticated (PfInfo (mon s1)) \<and> clients (mon s1) = {''aa''}"
proof -
  have "running s1" and "clients (mon s1) = {''aa''}"
    by (simp_all add: s1_simps running_def clients_def pf1_def pf0_def)
  then show ?thesis using run_example monitor_invariant [OF run_example] by simp
qed

text \<open>
  C3. The monitor refines the abstract port: along every interleaving its client set and
  its set of pending requests move exactly as the port's do under the same messages, link
  states and timer ticks. So a client is admitted by an \<open>AP-STA-CONNECTED\<close> message
  that no \<open>AP-STA-DISCONNECTED\<close> message of the same address followed, and as long as
  the link has not gone down the converse holds too: nobody else is dropped.
\<close>

theorem monitor_refines_port:
  assumes "run (sys_init P c) (mstep P) tr s"
  shows "run port_init port_step tr (clients (mon s), pending (mon s)) \<and>
    clients (mon s) \<subseteq> connected tr \<and>
    (LOper OperDown \<notin> set tr \<longrightarrow> clients (mon s) = connected tr)"
  using msys.sim_run [OF assms] port_run [OF msys.sim_run [OF assms]] by (simp add: port_of_def)

theorem monitor_refines_port_witness:
  "clients (mon s1) = connected [LMsg staConnectedEvent ''aa'', LTau] \<and>
   run port_init port_step [LMsg staConnectedEvent ''aa'', LTau] (clients (mon s1), pending (mon s1))"
proof -
  have "LOper OperDown \<notin> set [LMsg staConnectedEvent ''aa'', LTau]" by simp
  then show ?thesis using monitor_refines_port [OF run_example [of "\<lambda>E. E = E0"]] by blast
qed

text \<open>
  C1. Enforcement. Suppose netlink answers a lookup by name with a link of that name,
  device names have no blank, and discovery of the PF's interfaces has one answer whenever
  it succeeds. Then in every state any interleaving reaches before shutdown, unless a
  traffic-control error was reported: on every interface of the PF the filter last
  installed for an address accepts it exactly when the address is a client, and every VF
  was given its own VLAN and link state "auto" if there is a client, the reserved VLAN and
  link state "disable" if there is none.
\<close>

theorem monitor_enforces:
  assumes "run (sys_init (host_ok (IfName c) ifs) c) (mstep (host_ok (IfName c) ifs)) tr s"
    and "no_blank (IfName c)" and "running s" and "faultless s"
  shows "(\<forall>i\<in>set ifs. \<forall>a. no_blank a \<longrightarrow>
      (mac_verdict (runs (hst s)) i a = Some Accept \<longleftrightarrow> a \<in> clients (mon s))) \<and>
    (\<forall>(k, vf)\<in>set (VFs (PfInfo (mon s))).
       vf_vlan (hst s) (IfName c) k = Some (if clients (mon s) = {} then 4095 else Vlan vf) \<and>
       vf_state (hst s) (IfName c) k =
         Some (if clients (mon s) = {} then VF_LINK_STATE_DISABLE else VF_LINK_STATE_AUTO))"
proof -
  have "enf_inv (IfName c) ifs s" using enf.inv_run [OF assms(1)] assms(2) by blast
  with assms(3,4) show ?thesis
    by (auto simp: enf_inv_def sys_inv_def enforced_def vfs_set_def auth_sync_def clients_def
        target_vlan_def target_state_def ReservedVlan_def)
qed

theorem monitor_enforces_witness:
  "mac_verdict (runs (hst s1)) ''eth0'' ''aa'' = Some Accept \<and>
   mac_verdict (runs (hst s1)) ''eth0'' ''bb'' \<noteq> Some Accept \<and>
   vf_vlan (hst s1) ''eth0'' 0 = Some 100"
proof -
  have c: "IfName c0 = ''eth0''" by (simp add: c0_def NewInterfaceMonitor_def)
  have "running s1" and "faultless s1" and "clients (mon s1) = {''aa''}"
    and "VFs (PfInfo (mon s1)) = [(0, \<lparr>Index = 0, Vlan = 100\<rparr>)]"
    by (simp_all add: s1_simps running_def faultless_def clients_def pf1_def pf0_def)
  then show ?thesis
    using monitor_enforces [of c0 "[''eth0'']" _ s1, OF run_example] E0_host_ok
    by (simp add: c no_blank_def)
qed

end
