(* ===== verification/MonitorStop.thy ===== *)
theory MonitorStop
  imports MonitorSystem
begin

text \<open>
  The end of a monitor. \<open>StopMonitor\<close> closes the channel \<open>stop\<close> and waits for the four
  goroutines of theory \<open>MonitorSystem\<close>, each of which may be in the middle of its work
  and leaves its loop only when it is back at the top. The theory shows that this wait
  never gets stuck and always ends, and when the VFs are left open as \<open>StopMonitor\<close> means
  to leave them.
\<close>

section \<open>What is left to do\<close>

fun main_todo :: "main_pc \<Rightarrow> nat" where
  "main_todo MAttach = 8"
| "main_todo MStatusCmd = 7"
| "main_todo MUpdate = 6"
| "main_todo MRun = 5"
| "main_todo MStop = 4"
| "main_todo MClose = 3"
| "main_todo MUnsub = 2"
| "main_todo MWait = 1"
| "main_todo MDone = 0"

fun reply_todo :: "reply_pc \<Rightarrow> nat" where
  "reply_todo RIdle = 1"
| "reply_todo RRead = 3"
| "reply_todo (RStatus r) = 2"
| "reply_todo RDone = 0"

fun if_todo :: "if_pc \<Rightarrow> nat" where
  "if_todo IIdle = 1"
| "if_todo IOpState = 4"
| "if_todo IWrite = 3"
| "if_todo IVlan = 2"
| "if_todo IDone = 0"

fun loop_todo :: "loop_pc \<Rightarrow> nat" where
  "loop_todo PTop = 1"
| "loop_todo PBody = 2"
| "loop_todo PEnd = 0"

definition sys_todo :: "system \<Rightarrow> nat" where
  "sys_todo s = main_todo (main s) + reply_todo (reply s) + if_todo (ifev s) +
     loop_todo (keepalive s) + loop_todo (timer s)"

text \<open>The goroutines run until \<open>stop\<close> is closed, which \<open>StopMonitor\<close> does before it waits,
  and it has returned only when all of them are gone.\<close>

definition ended :: "system \<Rightarrow> bool" where
  "ended s = (reply s = RDone \<and> ifev s = IDone \<and> keepalive s = PEnd \<and> timer s = PEnd)"

definition stop_inv :: "system \<Rightarrow> bool" where
  "stop_inv s = ((stop s \<longleftrightarrow> main s \<in> {MUnsub, MWait, MDone}) \<and> (main s = MDone \<longrightarrow> ended s))"

text \<open>An environment in which hostapd's socket takes the attach command or refuses it, but does
  not time out.\<close>

definition attaches :: "env \<Rightarrow> bool" where
  "attaches E = (\<forall>h. case fst (ConnWrite E attachCommand h) of None \<Rightarrow> True | Some e \<Rightarrow> \<not> IsTimeout e)"

section \<open>Progress\<close>

lemma mstep_stop_inv: "mstep P l s t \<Longrightarrow> stop_inv s \<Longrightarrow> stop_inv t"
  by (induction rule: mstep.induct) (auto simp: stop_inv_def ended_def split: option.splits)

lemma main_progress:
  assumes "P E" and "attaches E" and "main s \<notin> {MWait, MDone}"
  shows "\<exists>l t. mstep P l s t \<and> sys_todo t < sys_todo s"
proof (cases "main s")
  case MAttach
  obtain r h where w: "ConnWrite E attachCommand (hst s) = (r, h)" by fastforce
  have "case r of None \<Rightarrow> True | Some e \<Rightarrow> \<not> IsTimeout e"
    using assms(2) w unfolding attaches_def by (metis fst_conv)
  with main_attach [where P = P, OF assms(1) MAttach w] show ?thesis
    using MAttach by (cases r) (force simp: sys_todo_def)+
next
  case MStatusCmd
  then show ?thesis
    using main_status [where P = P, OF assms(1) MStatusCmd]
    by (cases "writeCommand E statusCommand (hst s)") (force simp: sys_todo_def)
next
  case MUpdate
  then show ?thesis
    using main_update [where P = P, OF assms(1) MUpdate]
    by (cases "updateInterfaceStatus E (mon s) (hst s)") (force simp: sys_todo_def)
next
  case MRun
  then show ?thesis using main_shutdown [where P = P, OF MRun] by (force simp: sys_todo_def)
next
  case MStop
  then show ?thesis
    using main_restore [where P = P, OF assms(1) MStop]
    by (cases "stop_restore E (mon s) (hst s)") (force simp: sys_todo_def)
next
  case MClose
  then show ?thesis using main_close [where P = P, OF MClose] by (force simp: sys_todo_def)
next
  case MUnsub
  then show ?thesis using main_unsub [where P = P, OF assms(1) MUnsub] by (force simp: sys_todo_def)
qed (use assms(3) in auto)

lemma reply_progress:
  assumes "P E" and "stop s" and "reply s \<noteq> RDone"
  shows "\<exists>l t. mstep P l s t \<and> sys_todo t < sys_todo s"
proof (cases "reply s")
  case RIdle
  then show ?thesis using reply_stop [where P = P, OF RIdle assms(2)] by (force simp: sys_todo_def)
next
  case RRead
  then show ?thesis using reply_again [where P = P, OF RRead] by (force simp: sys_todo_def)
next
  case (RStatus r)
  then show ?thesis
    using reply_publish [where P = P, OF assms(1) RStatus]
    by (cases "updateInterfaceStatus E (mon s) (hst s)") (force simp: sys_todo_def)
qed (use assms(3) in simp)

lemma keep_progress:
  assumes "P E" and "stop s" and "keepalive s \<noteq> PEnd"
  shows "\<exists>l t. mstep P l s t \<and> sys_todo t < sys_todo s"
proof (cases "keepalive s")
  case PTop
  then show ?thesis using keep_stop [where P = P, OF PTop assms(2)] by (force simp: sys_todo_def)
next
  case PBody
  then show ?thesis
    using keep_round [where P = P, OF assms(1) PBody]
    by (cases "keepalive_round E (hst s)") (force simp: sys_todo_def)
qed (use assms(3) in simp)

lemma timer_progress:
  assumes "P E" and "stop s" and "timer s \<noteq> PEnd"
  shows "\<exists>l t. mstep P l s t \<and> sys_todo t < sys_todo s"
proof (cases "timer s")
  case PTop
  then show ?thesis using timer_stop [where P = P, OF PTop assms(2)] by (force simp: sys_todo_def)
next
  case PBody
  then show ?thesis
    using timer_tick [where P = P, OF assms(1) PBody]
    by (cases "handleRequestsTimeout E (mon s) (hst s)") (force simp: sys_todo_def)
qed (use assms(3) in simp)

lemma if_progress:
  assumes "P E" and "stop s" and "ifev s \<noteq> IDone"
  shows "\<exists>l t. mstep P l s t \<and> sys_todo t < sys_todo s"
proof (cases "ifev s")
  case IIdle
  then show ?thesis using if_stop [where P = P, OF IIdle assms(2)] by (force simp: sys_todo_def)
next
  case IOpState
  then show ?thesis
    using if_opstate [where P = P, OF assms(1) IOpState]
    by (cases "opstate_section E (mon s) (hst s)") (force simp: sys_todo_def)
next
  case IWrite
  then show ?thesis
    using if_write [where P = P, OF assms(1) IWrite]
    by (cases "writeCommand E statusCommand (hst s)") (force simp: sys_todo_def)
next
  case IVlan
  then show ?thesis
    using if_vlan [where P = P, OF assms(1) IVlan]
    by (cases "handlePfEventForVfVlanChange E (mon s) (hst s)") (force simp: sys_todo_def)
qed (use assms(3) in simp)

lemma wait_progress:
  assumes "P E" and "stop s" and "main s = MWait"
  shows "\<exists>l t. mstep P l s t \<and> sys_todo t < sys_todo s"
proof (cases "ended s")
  case True
  then show ?thesis
    using main_wait [where P = P and s = s] assms(3)
    by (intro exI [of _ LTau] exI [of _ "s\<lparr>main := MDone\<rparr>"]) (simp add: sys_todo_def ended_def)
next
  case False
  then consider "reply s \<noteq> RDone" | "ifev s \<noteq> IDone" | "keepalive s \<noteq> PEnd" | "timer s \<noteq> PEnd"
    by (auto simp: ended_def)
  then show ?thesis
    by cases (rule reply_progress [where P = P, OF assms(1,2)] if_progress [where P = P, OF assms(1,2)]
      keep_progress [where P = P, OF assms(1,2)] timer_progress [where P = P, OF assms(1,2)], assumption)+
qed

text \<open>The environments are those that \<open>P\<close> allows; where none of them attaches there is nothing
  to show.\<close>

interpretation stopping: progress_system "sys_init P c" "mstep P" stop_inv
    "\<lambda>s. main s = MDone \<or> (\<forall>E. P E \<longrightarrow> \<not> attaches E)" sys_todo for P c
proof unfold_locales
  show "stop_inv s" if "sys_init P c s" for s
    using that by (auto elim!: sys_init.cases simp: stop_inv_def)
  show "stop_inv t" if "stop_inv s" "mstep P l s t" for s l t
    using that mstep_stop_inv by blast
  show "\<exists>l t. mstep P l s t \<and> sys_todo t < sys_todo s"
    if inv: "stop_inv s" and "\<not> (main s = MDone \<or> (\<forall>E. P E \<longrightarrow> \<not> attaches E))" for s
  proof -
    from that(2) obtain E where E: "P E" "attaches E" and m: "main s \<noteq> MDone" by blast
    show ?thesis
    proof (cases "main s = MWait")
      case True
      then have "stop s" using inv by (simp add: stop_inv_def)
      then show ?thesis using wait_progress [where P = P, OF E(1) _ True] by blast
    next
      case False
      then show ?thesis using main_progress [where P = P, OF E] m by blast
    qed
  qed
qed

lemma sys_todo_bound: "sys_todo s \<le> 19"
proof -
  have "main_todo (main s) \<le> 8" by (cases "main s") simp_all
  moreover have "reply_todo (reply s) \<le> 3" by (cases "reply s") simp_all
  moreover have "loop_todo p \<le> 2" for p by (cases p) simp_all
  from this [of "keepalive s"] this [of "timer s"]
  have "loop_todo (keepalive s) + loop_todo (timer s) \<le> 4" by simp
  moreover have "if_todo (ifev s) \<le> 4" by (cases "ifev s") simp_all
  ultimately show ?thesis by (simp add: sys_todo_def)
qed



section \<open>Every schedule ends\<close>

text \<open>Once \<open>StopMonitor\<close> waits, \<open>stop\<close> is closed and no link event comes any more: no
  goroutine enters the body of its loop again, so every step of the monitor is one of the
  few that are left.\<close>

definition waiting :: "system \<Rightarrow> bool" where
  "waiting s = (stop s \<and> main s \<in> {MWait, MDone} \<and> stop_inv s)"

lemma waiting_step:
  assumes "mstep P l s t" and "waiting s" shows "waiting t \<and> sys_todo t < sys_todo s"
proof -
  have "stop_inv t" using mstep_stop_inv [OF assms(1)] assms(2) by (simp add: waiting_def)
  with assms show ?thesis
    by (induction rule: mstep.induct) (auto simp: waiting_def sys_todo_def)
qed

interpretation shutdown: bounded_system "mstep P" waiting
    "\<lambda>s. main s = MDone \<or> (\<forall>E. \<not> P E)" sys_todo for P
proof unfold_locales
  show "waiting t" if "waiting s" "mstep P l s t" for s l t
    using waiting_step [OF that(2,1)] by simp
  show "sys_todo t < sys_todo s" if "waiting s" "mstep P l s t" for s l t
    using waiting_step [OF that(2,1)] by simp
  show "\<exists>l t. mstep P l s t" if "waiting s" "\<not> (main s = MDone \<or> (\<forall>E. \<not> P E))" for s
    using that wait_progress [where P = P and s = s] unfolding waiting_def by blast
qed


section \<open>What a stopped monitor leaves behind\<close>

lemma port_pending:
  "port_step l (S, {}) (S', D) \<Longrightarrow> l \<noteq> LOper OperDown \<Longrightarrow> D = {}"
  by (cases rule: port_step.cases) auto

text \<open>After the restore, while no client leaves, the flag \<open>Authenticated\<close> stays up.\<close>

definition restoring :: "system \<Rightarrow> bool" where
  "restoring s = (main s \<in> {MStop, MClose, MUnsub, MWait, MDone} \<and> pending (mon s) = {} \<and>
     (main s \<noteq> MStop \<longrightarrow> Authenticated (PfInfo (mon s))))"

definition quiet_label :: "label \<Rightarrow> bool" where
  "quiet_label l = (l \<noteq> LOper OperDown \<and> (\<forall>a. l \<noteq> LMsg staDisconnectedEvent a))"

lemma switch_flag:
  assumes "event_switch E key a m h = (r, m', h')" and "key \<noteq> staDisconnectedEvent"
    and "Authenticated (PfInfo m)"
  shows "Authenticated (PfInfo m')"
  using assms
  by (auto simp: event_switch_def handleAuthenticateEvent_def Allow_apply allow_pf_def enroll_def
      split: if_splits prod.splits)

lemma vlan_change_flag:
  assumes "handlePfEventForVfVlanChange E m h = (m', h')" and "pf_ok (PfInfo m)"
  shows "Authenticated (PfInfo m') = Authenticated (PfInfo m)"
proof -
  obtain r pf h1 where pf: "HandlePfEventForVlanChange E (PfInfo m) h = (r, pf, h1)"
    by (metis prod_cases3)
  with HandlePf_same [OF pf assms(2)] assms(1) show ?thesis
    by (auto simp: handlePfEventForVfVlanChange_def same_pf_def split: option.splits)
qed

lemma restoring_step:
  assumes "mstep P l s t" and "sys_inv s" and "restoring s" and "quiet_label l"
  shows "restoring t"
proof -
  have "pending (mon t) = {}"
    using mstep_port [OF assms(1,2)] assms(3,4) port_pending
    by (auto simp: port_of_def restoring_def quiet_label_def)
  with assms show ?thesis
  proof (induction rule: mstep.induct)
    case (reply_event E s ev key arg rest r m h)
    then show ?case
      using switch_flag [OF reply_event(4)] by (auto simp: restoring_def quiet_label_def)
  next
    case (if_opstate E s m h)
    then show ?case
      using opstate_section_moves [OF if_opstate(3)] by (auto simp: restoring_def sys_inv_def)
  next
    case (if_vlan E s m h)
    then show ?case
      using vlan_change_flag [OF if_vlan(3)] by (auto simp: restoring_def sys_inv_def shape_ok_def)
  next
    case (timer_tick E s m h)
    then have "deauthRequests (mon s) = []"
      by (auto simp: restoring_def pending_def map_keys_def)
    with timer_tick show ?case by (auto simp: restoring_def handleRequestsTimeout_def Now_def)
  next
    case (main_restore E s m h)
    then show ?case
      by (auto simp: restoring_def stop_restore_def Let_def split: if_splits prod.splits option.splits)
  qed (auto simp: restoring_def split: option.splits)
qed

lemma restoring_run:
  assumes "run (\<lambda>x. x = s) (mstep P) tr t" and "sys_inv s" and "restoring s"
    and "list_all quiet_label tr"
  shows "sys_inv t \<and> restoring t"
  using assms by (induction rule: run.induct) (auto intro: mstep_inv restoring_step)


section \<open>Example shutdowns\<close>

text \<open>Internal steps from one state to another.\<close>

definition taus :: "(env \<Rightarrow> bool) \<Rightarrow> system \<Rightarrow> nat \<Rightarrow> system \<Rightarrow> bool" where
  "taus P s n t = run (\<lambda>x. x = s) (mstep P) (replicate n LTau) t"

lemma taus_0: "taus P s 0 s"
  by (simp add: taus_def run.run_init)

lemma taus_Suc: "taus P s n t \<Longrightarrow> mstep P LTau t u \<Longrightarrow> taus P s (Suc n) u"
  by (simp add: taus_def run.run_step)

text \<open>The start goes on to the point where \<open>StopMonitor\<close> is called.\<close>

lemma start_taus:
  assumes "P E0" and "main s = MAttach" and "\<not> HasClient (mon s)"
  shows "taus P s 4 (s\<lparr>hst := CWrite statusCommand None # CWrite attachCommand None # hst s,
    main := MStop\<rparr>)"
proof -
  let ?t = "\<lambda>h p. s\<lparr>hst := h, main := p\<rparr>"
  let ?h1 = "CWrite attachCommand None # hst s"
  let ?h2 = "CWrite statusCommand None # ?h1"
  have w: "ConnWrite E0 cmd h = (None, CWrite cmd None # h)" for cmd h
    by (simp add: E0_def go_defs)
  have "mstep P LTau s (?t ?h1 MStatusCmd)"
    using main_attach [where P = P, OF assms(1,2) w] by simp
  then have "taus P s (Suc 0) (?t ?h1 MStatusCmd)" by (rule taus_Suc [OF taus_0])
  moreover have "mstep P LTau (?t ?h1 MStatusCmd) (?t ?h2 MUpdate)"
    using main_status [where P = P and s = "?t ?h1 MStatusCmd", OF assms(1)] w
    by (simp add: writeCommand_def)
  moreover have "mstep P LTau (?t ?h2 MUpdate) (?t ?h2 MRun)"
    using main_update [where P = P and s = "?t ?h2 MUpdate", OF assms(1)] assms(3)
    by (simp add: updateInterfaceStatus_def)
  moreover have "mstep P LTau (?t ?h2 MRun) (?t ?h2 MStop)"
    using main_shutdown [where P = P and s = "?t ?h2 MRun"] by simp
  ultimately have "taus P s (Suc (Suc (Suc (Suc 0)))) (?t ?h2 MStop)" by (blast intro: taus_Suc)
  then show ?thesis by (simp add: numeral_eq_Suc)
qed

text \<open>Once \<open>stop\<close> is closed the idle goroutines end one after the other.\<close>

definition idle :: "system \<Rightarrow> bool" where
  "idle s = (reply s = RIdle \<and> ifev s = IIdle \<and> keepalive s = PTop \<and> timer s = PTop)"

lemma close_taus:
  assumes "P E" and "main s = MClose"
  shows "taus P s 2 (s\<lparr>stop := True, hst := stop_close E (mon s) (hst s), main := MWait\<rparr>)"
proof -
  let ?t = "s\<lparr>stop := True, main := MUnsub\<rparr>"
  have "mstep P LTau s ?t" using assms(2) by (rule main_close)
  then have "taus P s (Suc 0) ?t" by (rule taus_Suc [OF taus_0])
  moreover have "mstep P LTau ?t (?t\<lparr>hst := stop_close E (mon ?t) (hst ?t), main := MWait\<rparr>)"
    using assms(1) by (rule main_unsub) simp
  ultimately have "taus P s (Suc (Suc 0)) (?t\<lparr>hst := stop_close E (mon ?t) (hst ?t), main := MWait\<rparr>)"
    by (blast intro: taus_Suc)
  then show ?thesis by (simp add: numeral_eq_Suc)
qed

lemma wait_taus:
  assumes "main s = MWait" and "stop s" and "idle s"
  shows "taus P s 5 (s\<lparr>reply := RDone, ifev := IDone, keepalive := PEnd, timer := PEnd, main := MDone\<rparr>)"
proof -
  let ?t1 = "s\<lparr>reply := RDone\<rparr>"
  let ?t2 = "?t1\<lparr>ifev := IDone\<rparr>"
  let ?t3 = "?t2\<lparr>keepalive := PEnd\<rparr>"
  let ?t4 = "?t3\<lparr>timer := PEnd\<rparr>"
  have "mstep P LTau s ?t1" using assms by (intro reply_stop) (simp_all add: idle_def)
  then have "taus P s (Suc 0) ?t1" by (rule taus_Suc [OF taus_0])
  moreover have "mstep P LTau ?t1 ?t2" using assms by (intro if_stop) (simp_all add: idle_def)
  moreover have "mstep P LTau ?t2 ?t3" using assms by (intro keep_stop) (simp_all add: idle_def)
  moreover have "mstep P LTau ?t3 ?t4" using assms by (intro timer_stop) (simp_all add: idle_def)
  moreover have "mstep P LTau ?t4 (?t4\<lparr>main := MDone\<rparr>)" using assms by (intro main_wait) simp_all
  ultimately have "taus P s (Suc (Suc (Suc (Suc (Suc 0))))) (?t4\<lparr>main := MDone\<rparr>)"
    by (blast intro: taus_Suc)
  then show ?thesis by (simp add: numeral_eq_Suc)
qed

lemma taus_run:
  "run init (mstep P) tr s \<Longrightarrow> taus P s n t \<Longrightarrow> run init (mstep P) (replicate n LTau @ tr) t"
  unfolding taus_def by (rule run_append)

lemma restore_example:
  "stop_restore E0 m0 h =
     (m0\<lparr>PfInfo := pf0\<lparr>Authenticated := True\<rparr>\<rparr>,
      CLinkSetVfState ''eth0'' 0 VF_LINK_STATE_AUTO None #
      CLinkSetVfVlan ''eth0'' 0 100 None # CLinkByName ''eth0'' # h)"
  by (simp add: stop_restore_def m0_def pf0_def E0_def ConfigureVlanStateForVFs_def
      ConfigureVlanState_def go_defs MonitorConfig.defs)

lemma close_example: "stop_close E0 m h = CClose None # CUnsubscribe (IfName m) # h"
  by (simp add: stop_close_def E0_def go_defs)

lemma m0_pending: "pending m0 = {}"
  by (simp add: pending_def m0_def MonitorConfig.defs)

text \<open>A monitor without clients is stopped while its goroutines are idle.\<close>

definition t0 :: system where
  "t0 = s0\<lparr>hst := CWrite statusCommand None # CWrite attachCommand None # hst s0, main := MStop\<rparr>"

definition t1 :: system where
  "t1 = t0\<lparr>mon := fst (stop_restore E0 m0 (hst t0)), stop := True,
     hst := stop_close E0 (fst (stop_restore E0 m0 (hst t0))) (snd (stop_restore E0 m0 (hst t0))),
     main := MWait\<rparr>"

definition t2 :: system where
  "t2 = t1\<lparr>reply := RDone, ifev := IDone, keepalive := PEnd, timer := PEnd, main := MDone\<rparr>"

lemma t0_run:
  assumes "P E0" shows "run (sys_init P c0) (mstep P) (replicate 4 LTau @ []) t0"
proof (rule taus_run [OF s0_run])
  show "P E0" by fact
  show "taus P s0 4 t0"
    using start_taus [where P = P and s = s0, OF assms]
    by (simp add: t0_def s0_def m0_def c0_def NewInterfaceMonitor_def MonitorConfig.defs)
qed

lemma t1_taus:
  assumes "P E0" shows "taus P t0 3 t1"
proof -
  let ?t = "t0\<lparr>mon := fst (stop_restore E0 m0 (hst t0)), hst := snd (stop_restore E0 m0 (hst t0)),
    main := MClose\<rparr>"
  have "mstep P LTau t0 ?t"
    using main_restore [where P = P and s = t0, OF assms] by (simp add: t0_def s0_def)
  then have "taus P t0 (Suc 0) ?t" by (rule taus_Suc [OF taus_0])
  moreover have "taus P ?t 2 t1" using close_taus [where P = P and s = ?t, OF assms] by (simp add: t1_def)
  ultimately show ?thesis
    unfolding taus_def using run_append [of ?t "mstep P"] by (fastforce simp: numeral_eq_Suc)
qed

lemma t2_taus: "taus P t1 5 t2"
  using wait_taus [where P = P and s = t1] by (simp add: t2_def idle_def t1_def t0_def s0_def)

lemmas t2_simps = t2_def t1_def t0_def s0_def start_example restore_example close_example m0_pending



section \<open>A client that leaves during the shutdown\<close>

text \<open>The monitor of \<open>s1\<close>, with its one client, has reached \<open>StopMonitor\<close>, which has found the
  client and so left the VFs alone, but has not closed \<open>stop\<close> yet.\<close>

definition x1 :: system where
  "x1 = s1\<lparr>hst := CWrite statusCommand None # CWrite attachCommand None # hst s1, reply := RIdle,
     main := MClose\<rparr>"

definition x2 :: system where
  "x2 = (case event_switch E0 staDisconnectedEvent ''aa'' (mon x1) (hst x1) of
     (r, m, h) \<Rightarrow> x1\<lparr>mon := m, hst := h, reply := RStatus r\<rparr>)"

definition x3 :: system where
  "x3 = x2\<lparr>stop := True, hst := stop_close E0 (mon x2) (hst x2), reply := RDone, ifev := IDone,
     keepalive := PEnd, timer := PEnd, main := MDone\<rparr>"

lemma mstep_to: "mstep P l s t \<Longrightarrow> t = u \<Longrightarrow> mstep P l s u"
  by simp

lemma x1_run:
  assumes "P E0" shows "\<exists>tr. run (sys_init P c0) (mstep P) tr x1"
proof -
  let ?s = "s1\<lparr>hst := CWrite statusCommand None # CWrite attachCommand None # hst s1, main := MStop\<rparr>"
  let ?m = "m0\<lparr>PfInfo := pf1\<lparr>Authenticated := True\<rparr>\<rparr>"
  have s1: "mon s1 = ?m" "main s1 = MAttach" "reply s1 = RStatus None" by (simp_all add: s1_simps)
  have m: "\<not> HasClient ?m" by (simp add: m0_def c0_def NewInterfaceMonitor_def MonitorConfig.defs)
  have "taus P s1 4 ?s" using start_taus [where P = P and s = s1, OF assms] s1 m by simp
  moreover have "mstep P LTau ?s (?s\<lparr>reply := RIdle\<rparr>)"
    using s1 m by (intro mstep_to [OF reply_publish [where P = P and r = None and r' = None and h = "hst ?s", OF assms]])
      (simp_all add: updateInterfaceStatus_def)
  moreover have "mstep P LTau (?s\<lparr>reply := RIdle\<rparr>) x1"
    using s1 by (intro mstep_to [OF main_restore [where P = P and m = ?m and h = "hst ?s", OF assms]])
      (simp_all add: stop_restore_def x1_def)
  ultimately have "taus P s1 (Suc (Suc 4)) x1" by (blast intro: taus_Suc)
  with taus_run [OF run_example [where P = P, OF assms]] show ?thesis by blast
qed

lemma leave_example:
  "event_switch E0 staDisconnectedEvent ''aa'' (m0\<lparr>PfInfo := pf1\<lparr>Authenticated := True\<rparr>\<rparr>) h =
     (None, m0\<lparr>PfInfo := pf0\<rparr>,
      CRun (deny_cmd ''eth0'' ''aa'') None #
      snd (GetAssociatedInterfaces E0 ''eth0''
        (CLookPath ''tc'' # CLinkSetVfState ''eth0'' 0 VF_LINK_STATE_DISABLE None #
         CLinkSetVfVlan ''eth0'' 0 4095 None # CLinkByName ''eth0'' # CDeAuthenticated ''eth0'' # h)))"
  by (simp add: event_switch_def event_defs handleDeAuthenticateEvent_def Deny_apply apply_policy_def
      deny_pf_def expel_def m0_def c0_def NewInterfaceMonitor_def E0_def pf1_def pf0_def calm_assoc
      logEvent_def stats_DeAuthenticated_def ConfigureVlanStateForVFs_def ConfigureVlanState_def
      go_defs MonitorConfig.defs ReservedVlan_def)

lemmas x3_simps = x3_def x2_def x1_def s1_simps leave_example close_example

lemma x3_run:
  assumes "P E0" shows "\<exists>tr. run (sys_init P c0) (mstep P) tr x3"
proof -
  let ?m = "m0\<lparr>PfInfo := pf0\<rparr>"
  let ?w = "x2\<lparr>stop := True, hst := stop_close E0 (mon x2) (hst x2), main := MWait\<rparr>"
  have ev: "Split (receive ''<3>AP-STA-DISCONNECTED aa'') (CHR '' '') = [''<3>AP-STA-DISCONNECTED'', ''aa'']"
    and key: "after_first ''<3>AP-STA-DISCONNECTED'' (CHR ''>'') = staDisconnectedEvent"
    by code_simp+
  obtain tr where run1: "run (sys_init P c0) (mstep P) tr x1"
    using x1_run [where P = P, OF assms] by blast
  obtain r m h where sw: "event_switch E0 staDisconnectedEvent ''aa'' (mon x1) (hst x1) = (r, m, h)"
    by (metis prod_cases3)
  have "reply x1 = RIdle" "\<not> stop x1" by (simp_all add: x1_def s1_simps)
  from message_run [where P = P, OF run1 assms this ev, unfolded key, OF sw] sw
  have run2: "run (sys_init P c0) (mstep P) (LMsg staDisconnectedEvent ''aa'' # LTau # tr) x2"
    by (simp add: x2_def)
  have x2: "main x2 = MClose" "reply x2 = RStatus None" "mon x2 = ?m" "ifev x2 = IIdle"
    "keepalive x2 = PTop" "timer x2 = PTop" by (simp_all add: x3_simps)
  have m: "\<not> HasClient ?m" by (simp add: m0_def c0_def NewInterfaceMonitor_def MonitorConfig.defs)
  note close = close_taus [where P = P, OF assms x2(1)]
  have publish: "mstep P LTau ?w (?w\<lparr>reply := RIdle\<rparr>)"
    using x2 m by (intro mstep_to [OF reply_publish [where P = P and r = None and r' = None and
          h = "hst ?w", OF assms]]) (simp_all add: updateInterfaceStatus_def)
  have "taus P (?w\<lparr>reply := RIdle\<rparr>) 5 x3"
    using wait_taus [where P = P and s = "?w\<lparr>reply := RIdle\<rparr>"] x2 by (simp add: idle_def x3_def)
  then show ?thesis
    using taus_run [OF taus_run [OF run2 taus_Suc [OF close publish]]] by blast
qed

text \<open>
  C34. A client that leaves while the monitor is being stopped leaves the machine cut off.
  \<open>StopMonitor\<close> restores the VFs only if no client is authenticated, and closes \<open>stop\<close>
  afterwards; there is a schedule without any error in which the last client's disconnect
  message is handled in between, and when \<open>StopMonitor\<close> has returned the VF whose own
  VLAN is 100 is on the reserved VLAN with link state "disable", with nobody left to
  restore it.
\<close>

theorem stop_leaves_vfs_closed:
  "\<exists>tr s. run (sys_init (host_ok ''eth0'' [''eth0'']) c0) (mstep (host_ok ''eth0'' [''eth0''])) tr s \<and>
     main s = MDone \<and> faultless s \<and> VFs (PfInfo (mon s)) = [(0, \<lparr>Index = 0, Vlan = 100\<rparr>)] \<and>
     vf_vlan (hst s) ''eth0'' 0 = Some 4095 \<and>
     vf_state (hst s) ''eth0'' 0 = Some VF_LINK_STATE_DISABLE"
proof -
  have "main x3 = MDone" "faultless x3" "VFs (PfInfo (mon x3)) = [(0, \<lparr>Index = 0, Vlan = 100\<rparr>)]"
    "vf_vlan (hst x3) ''eth0'' 0 = Some 4095" "vf_state (hst x3) ''eth0'' 0 = Some VF_LINK_STATE_DISABLE"
    by (simp_all add: x3_simps faultless_def pf0_def)
  with x3_run [where P = "host_ok ''eth0'' [''eth0'']", OF E0_host_ok] show ?thesis by blast
qed

end
