(* ===== verification/MonitorEvents.thy ===== *)
theory MonitorEvents
  imports Monitor
begin

text \<open>
  What the single handlers of \<open>pkg/hostap/monitor.go\<close> do: the dispatch of a hostapd
  message, the reading of a status reply, the published status, the expiry of requests,
  the attach loop and the shutdown.
\<close>

section \<open>Dispatch\<close>

text \<open>The status publication that ends the handling of an event.\<close>

definition publish :: "env \<Rightarrow> err option \<times> InterfaceMonitor \<times> hist \<Rightarrow>
    err option \<times> InterfaceMonitor \<times> hist" where
  "publish E = (\<lambda>(r, m, h). (r, m, snd (updateInterfaceStatus E m h)))"

lemma handle_words:
  assumes "no_blank key" and "no_blank addr"
  shows "handleHostapdEvent E (key @ CHR '' '' # addr) m h =
    publish E (event_switch E (after_first key (CHR ''>'')) addr m h)"
proof -
  have "Split (key @ CHR '' '' # addr) (CHR '' '') = [key, addr]"
    using assms by (simp add: no_blank_def Split_append_sep Split_no_sep)
  then show ?thesis by (simp add: handleHostapdEvent_def publish_def)
qed

lemma handle_words_more:
  assumes "no_blank key" and "no_blank addr"
  shows "handleHostapdEvent E (key @ CHR '' '' # addr @ CHR '' '' # rest) m h =
    publish E (event_switch E (after_first key (CHR ''>'')) addr m h)"
proof -
  obtain r rs where "Split rest (CHR '' '') = r # rs" by (metis Split_not_Nil list.exhaust)
  then have "Split (key @ CHR '' '' # addr @ CHR '' '' # rest) (CHR '' '') = key # addr # r # rs"
    using assms by (simp add: no_blank_def Split_append_sep)
  then show ?thesis by (simp add: handleHostapdEvent_def publish_def)
qed


text \<open>A monitor without an API client.\<close>

definition mon0 :: InterfaceMonitor where
  "mon0 = \<lparr>IfName = ''eth0'', HasClient = False,
     AuthNsName = \<lparr>nn_Namespace = ''ns'', nn_Name = ''auth''\<rparr>, PfInfo = pf0,
     deauthRequests = [], operState = OperUnknown, ifEAPState = []\<rparr>"


section \<open>The status reply\<close>

lemma status_line_other:
  assumes "\<not> HasPrefix l ''state''"
  shows "map_of (status_line l st) ''state'' = map_of st ''state''"
proof -
  have "x \<noteq> ''state''" if "Split l (CHR ''='') = x # xs" for x xs
  proof
    assume "x = ''state''"
    moreover have "l = Join (x # xs) [CHR ''='']" using that by (metis Join_Split)
    ultimately have "\<exists>t. l = ''state'' @ t" by (cases xs) auto
    with assms show False by (auto simp: HasPrefix_prefix)
  qed
  then show ?thesis
    by (auto simp: status_line_def update_conv split: list.splits)
qed

lemma status_line_state:
  "CHR ''='' \<notin> set v \<Longrightarrow> map_of (status_line (''state='' @ v) st) ''state'' = Some v"
  by (simp add: status_line_def Split_no_sep update_conv)

lemma status_lines_other:
  "\<forall>l\<in>set ls. \<not> HasPrefix l ''state'' \<Longrightarrow>
     map_of (fold status_line ls st) ''state'' = map_of st ''state''"
  by (induction ls arbitrary: st) (auto simp: status_line_other)

text \<open>
  From a status reply \<open>getIfState\<close> takes the value of the last line
  \<open>state=value\<close>, wherever it stands among other lines, and translates it by the
  table of hostapd's state names; a value that is not in the table, or a reply without
  such a line, is \<open>Unknown\<close>.
\<close>

lemma status_reply_state:
  assumes "\<forall>l\<in>set (before @ after). CHR 0x0A \<notin> set l"
    and "\<forall>l\<in>set after. \<not> HasPrefix l ''state''"
    and "CHR 0x0A \<notin> set v" and "CHR ''='' \<notin> set v"
  shows "getIfState (Join (before @ [''state='' @ v] @ after) [CHR 0x0A]) = if_state_of v \<and>
    (after \<noteq> [] \<longrightarrow> getIfState (Join after [CHR 0x0A]) = IfStateUnknown)"
proof -
  let ?lines = "before @ [''state='' @ v] @ after"
  have "Split (Join ?lines [CHR 0x0A]) (CHR 0x0A) = ?lines"
    using assms(1,3) by (intro Split_Join) auto
  then have "getIfState (Join ?lines [CHR 0x0A]) = if_state_of v"
    using status_lines_other [OF assms(2)] status_line_state [OF assms(4)]
    by (simp add: getIfState_def)
  moreover have "getIfState (Join after [CHR 0x0A]) = IfStateUnknown" if "after \<noteq> []"
  proof -
    have "Split (Join after [CHR 0x0A]) (CHR 0x0A) = after"
      using assms(1) that by (intro Split_Join) auto
    then show ?thesis
      using status_lines_other [OF assms(2), of "[]"]
      by (simp add: getIfState_def if_state_of_def)
  qed
  ultimately show ?thesis by blast
qed

lemma status_reply_state_example:
  "getIfState (''phy=phy0'' @ [CHR 0x0A] @ ''state=ENABLED'' @ [CHR 0x0A] @ ''freq=0'') = ''Enabled''"
  using status_reply_state [of "[''phy=phy0'']" "[''freq=0'']" "''ENABLED''"]
  by (simp add: if_state_of_def IfState_defs)

section \<open>The published status\<close>

text \<open>The number of status updates sent.\<close>

fun updates :: "hist \<Rightarrow> nat" where
  "updates [] = 0"
| "updates (CStatusUpdate a r # h) = Suc (updates h)"
| "updates (c # h) = updates h"

lemma set_if_status_entry:
  "find (\<lambda>i. if_Name i = n) (set_if_status n st cs is) =
     Some \<lparr>if_Name = n, if_State = st, AuthenticatedClients = cs\<rparr>"
proof (induction "is")
  case (Cons i "is")
  have "i\<lparr>if_State := st, AuthenticatedClients := cs\<rparr> =
      \<lparr>if_Name = if_Name i, if_State = st, AuthenticatedClients = cs\<rparr>" by simp
  with Cons show ?case by simp
qed simp

lemma set_if_status_others:
  "[i \<leftarrow> set_if_status n st cs is. if_Name i \<noteq> n] = [i \<leftarrow> is. if_Name i \<noteq> n]"
  by (induction "is") auto

lemma set_if_status_names:
  "map if_Name (set_if_status n st cs is) =
     (if n \<in> if_Name ` set is then map if_Name is else map if_Name is @ [n])"
  by (induction "is") auto

text \<open>One attempt: fetch, and send the object with this interface's entry replaced.\<close>

definition published :: "InterfaceMonitor \<Rightarrow> Authenticator \<Rightarrow> Authenticator \<Rightarrow> bool" where
  "published m old new = (\<exists>cs. mset cs = mset (AuthenticatedAddrs (PfInfo m)) \<and>
     new = old\<lparr>a_Status := (a_Status old)\<lparr>status_Interfaces :=
       set_if_status (IfName m) (ifEAPState m) cs (status_Interfaces (a_Status old))\<rparr>\<rparr>)"

lemma status_attempt_cases:
  assumes "status_attempt E m h = (r, h')"
  obtains (get) e where "env_Get E h (AuthNsName m) = Inl e" "r = Some e"
      "h' = CGet (AuthNsName m) # h"
  | (update) old new where "env_Get E h (AuthNsName m) = Inr old" "published m old new"
      "h' = CStatusUpdate new r # CGet (AuthNsName m) # h"
proof -
  let ?h = "CGet (AuthNsName m) # h"
  show thesis
  proof (cases "env_Get E h (AuthNsName m)")
    case (Inl e)
    with assms get show thesis by (simp add: status_attempt_def getAuthObject_def ClientGet_def)
  next
    case (Inr old)
    let ?cs = "range_keys E ?h (AuthenticatedAddrs (PfInfo m))"
    let ?new = "old\<lparr>a_Status := (a_Status old)\<lparr>status_Interfaces :=
       set_if_status (IfName m) (ifEAPState m) ?cs (status_Interfaces (a_Status old))\<rparr>\<rparr>"
    have "published m old ?new" unfolding published_def by (intro exI [of _ ?cs]) simp
    moreover from Inr assms have "h' = CStatusUpdate ?new r # ?h"
      by (auto simp: status_attempt_def getAuthObject_def ClientGet_def StatusUpdate_def Let_def)
    ultimately show thesis using update [OF Inr] by blast
  qed
qed

lemma retry_status:
  assumes "RetryOnConflict n (status_attempt E m) h = (r, h')" and "n \<noteq> 0"
  shows "updates h' \<le> updates h + n \<and>
    (r = None \<longrightarrow> (\<exists>g old new. env_Get E g (AuthNsName m) = Inr old \<and> published m old new \<and>
       h' = CStatusUpdate new None # CGet (AuthNsName m) # g)) \<and>
    (\<forall>e. r = Some e \<and> e \<noteq> Conflict \<longrightarrow> hd h' = CGet (AuthNsName m) \<or>
       (\<exists>new. hd h' = CStatusUpdate new (Some e)))"
  using assms
proof (induction n arbitrary: h)
  case (Suc n)
  obtain r1 h1 where att: "status_attempt E m h = (r1, h1)" by fastforce
  have up: "updates h1 \<le> Suc (updates h)" using att by (cases rule: status_attempt_cases) simp_all
  show ?case
  proof (cases "r1 = Some Conflict \<and> n \<noteq> 0")
    case True
    with Suc.prems att have "RetryOnConflict n (status_attempt E m) h1 = (r, h')"
      by (simp add: IsConflict_def)
    from Suc.IH [OF this] True up show ?thesis by auto
  next
    case False
    with Suc.prems att have "r = r1" "h' = h1"
      by (auto simp: IsConflict_def split: option.splits if_splits)
    with att up show ?thesis by (cases rule: status_attempt_cases) auto
  qed
qed simp

text \<open>
  C13. Publishing the status makes at most five updates, a further one only after a
  conflict. When it reports success the last call was an update, based on an object
  fetched right before it, in which the entry of this interface has the current EAP
  state and exactly the authenticated clients, and in which every other entry and
  everything outside the status is as fetched; no entry is lost or doubled.
\<close>

theorem status_published:
  assumes "HasClient m" and "updateInterfaceStatus E m h = (r, h')"
  shows "updates h' \<le> updates h + 5 \<and>
    (r = None \<longrightarrow> (\<exists>g old new. env_Get E g (AuthNsName m) = Inr old \<and>
       h' = CStatusUpdate new None # CGet (AuthNsName m) # g \<and>
       a_Meta new = a_Meta old \<and> a_Spec new = a_Spec old \<and>
       (let is = status_Interfaces (a_Status old); is' = status_Interfaces (a_Status new) in
         (\<exists>i. find (\<lambda>i. if_Name i = IfName m) is' = Some i \<and> if_State i = ifEAPState m \<and>
            mset (AuthenticatedClients i) = mset (AuthenticatedAddrs (PfInfo m))) \<and>
         [i \<leftarrow> is'. if_Name i \<noteq> IfName m] = [i \<leftarrow> is. if_Name i \<noteq> IfName m] \<and>
         map if_Name is' = (if IfName m \<in> if_Name ` set is then map if_Name is
                            else map if_Name is @ [IfName m]))))"
proof -
  have retry: "RetryOnConflict 5 (status_attempt E m) h = (r, h')"
    using assms by (simp add: updateInterfaceStatus_def DefaultRetry_Steps_def)
  show ?thesis
    using retry_status [OF retry]
    by (fastforce simp: published_def Let_def set_if_status_entry set_if_status_others
        set_if_status_names)
qed

text \<open>The interface is added to the empty status of the example object.\<close>

theorem status_published_witness:
  "\<exists>h'. updateInterfaceStatus (calm [] a0) (mon0\<lparr>HasClient := True, PfInfo := pf1\<rparr>) [] = (None, h') \<and>
     updates h' \<le> 5 \<and> (\<exists>g new. h' = CStatusUpdate new None # g \<and>
       map if_Name (status_Interfaces (a_Status new)) = [''eth0''])"
proof -
  let ?m = "mon0\<lparr>HasClient := True, PfInfo := pf1\<rparr>"
  obtain r h' where u: "updateInterfaceStatus (calm [] a0) ?m [] = (r, h')" by fastforce
  then have "r = None"
    by (auto simp: updateInterfaceStatus_def DefaultRetry_Steps_def status_attempt_def
        getAuthObject_def go_defs numeral_eq_Suc)
  moreover have "status_Interfaces (a_Status a0) = []" by (simp add: a0_def)
  ultimately show ?thesis
    using u status_published [OF _ u] by (auto simp: Let_def mon0_def)
qed

section \<open>Expiry of requests\<close>

definition expired :: "int \<Rightarrow> int \<Rightarrow> bool" where
  "expired now ts = (wrap64 (now - ts) \<ge> requestTimeout)"

lemma timeout_loop_stop:
  "timeout_loop E now reqs m h = (m', h') \<Longrightarrow> distinct (map fst reqs) \<Longrightarrow> shape_ok m \<Longrightarrow>
   let done = takeWhile (\<lambda>(a, ts). expired now ts) reqs in
     moves m (clients m - fst ` set done) (pending m - fst ` set done) m'"
proof (induction reqs arbitrary: m h)
  case Nil
  then show ?case by (simp add: moves_refl)
next
  case (Cons q rest)
  obtain a ts where q: "q = (a, ts)" by fastforce
  show ?case
  proof (cases "expired now ts")
    case False
    with Cons.prems q show ?thesis by (simp add: expired_def moves_refl)
  next
    case True
    obtain r m1 h1 where de: "handleDeAuthenticateEvent E a m h = (r, m1, h1)"
      by (metis prod_cases3)
    with Cons.prems(1) q True obtain h2 where rest: "timeout_loop E now rest m1 h2 = (m', h')"
      by (auto simp: handleDeAuthenticateEvent_def expired_def split: prod.splits)
    have m1: "moves m (clients m - {a}) (pending m - {a}) m1"
      by (rule handleDeAuthenticate_moves [OF de Cons.prems(3)])
    with Cons.IH [OF rest] Cons.prems(2) q True show ?thesis
      by (auto simp: moves_def Let_def set_diff_eq)
  qed
qed

text \<open>The order in which the requests are visited, and the requests visited before the
  first fresh one.\<close>

definition visited :: "env \<Rightarrow> InterfaceMonitor \<Rightarrow> hist \<Rightarrow> (string \<times> int) list" where
  "visited E m h = takeWhile (\<lambda>(a, ts). expired (env_Now E h) ts)
     (range_keys E (CNow # h) (deauthRequests m))"

text \<open>
  C25. A tick of the expiry timer expels exactly the clients whose requests are visited
  before the first one younger than two seconds, in the order of the map iteration. So
  nobody whose request is younger is expelled; and when every request has expired, all of
  these clients are expelled and no request is left.
\<close>

theorem requests_timeout:
  assumes "handleRequestsTimeout E m h = (m', h')" and "shape_ok m"
  shows "clients m' = clients m - fst ` set (visited E m h) \<and>
    pending m' = pending m - fst ` set (visited E m h) \<and>
    (\<forall>(a, ts)\<in>set (visited E m h).
       (a, ts) \<in> set (deauthRequests m) \<and> wrap64 (env_Now E h - ts) \<ge> 2000000) \<and>
    ((\<forall>(a, ts)\<in>set (deauthRequests m). wrap64 (env_Now E h - ts) \<ge> 2000000) \<longrightarrow>
       clients m' = clients m - pending m \<and> pending m' = {})"
proof -
  let ?h = "CNow # h"
  have loop: "timeout_loop E (env_Now E h) (range_keys E ?h (deauthRequests m)) m ?h = (m', h')"
    using assms(1) by (simp add: handleRequestsTimeout_def Now_def)
  have "mset (map fst (range_keys E ?h (deauthRequests m))) = mset (map fst (deauthRequests m))"
    by (metis mset_map mset_range_keys)
  then have "distinct (map fst (range_keys E ?h (deauthRequests m)))"
    using assms(2) by (metis map_ok_def mset_eq_imp_distinct_iff shape_ok_def)
  note mv = timeout_loop_stop [OF loop this assms(2)]
  have gone: "clients m' = clients m - fst ` set (visited E m h)"
    "pending m' = pending m - fst ` set (visited E m h)"
    using mv by (simp_all add: Let_def moves_def visited_def)
  have mem: "(a, ts) \<in> set (deauthRequests m) \<and> wrap64 (env_Now E h - ts) \<ge> 2000000"
    if "(a, ts) \<in> set (visited E m h)" for a ts
    using that unfolding visited_def
    by (auto dest!: set_takeWhileD simp: expired_def requestTimeout_def)
  have all: "fst ` set (visited E m h) = pending m"
    if "\<forall>(a, ts)\<in>set (deauthRequests m). wrap64 (env_Now E h - ts) \<ge> 2000000"
  proof -
    have "visited E m h = range_keys E ?h (deauthRequests m)"
      using that by (auto simp: visited_def takeWhile_eq_all_conv expired_def requestTimeout_def)
    then show ?thesis by (auto simp: pending_def map_keys_def)
  qed
  show ?thesis unfolding gone using mem all by (intro conjI) auto
qed

text \<open>Two requests, the first long expired and the second fresh.\<close>

definition mon2 :: InterfaceMonitor where
  "mon2 = mon0\<lparr>PfInfo := pf0\<lparr>AuthenticatedAddrs := [''aa'', ''bb'']\<rparr>,
     deauthRequests := [(''aa'', -9000000), (''bb'', -1)]\<rparr>"

definition backwards :: env where
  "backwards = (calm [] a0)\<lparr>env_Order := (\<lambda>h. [1, 0])\<rparr>"

lemma mon2_ok: "shape_ok mon2"
  by (simp add: shape_ok_def mon2_def mon0_def pf_ok_def pf0_def map_ok_def pending_def
      map_keys_def clients_def)

lemma visited_mon2:
  "visited (calm [] a0) mon2 [] = [(''aa'', -9000000)]" "visited backwards mon2 [] = []"
  by (simp_all add: visited_def mon2_def expired_def requestTimeout_def wrap64_def backwards_def
      range_keys_def range_by_def is_perm_def calm_def)

text \<open>
  Whether the expired request is served depends on the order in which Go happens to
  iterate: visited first, it is; visited after the fresh one, it is skipped and the client
  stays admitted until a later tick.
\<close>

theorem requests_timeout_witness:
  "clients (fst (handleRequestsTimeout (calm [] a0) mon2 [])) = {''bb''} \<and>
   clients (fst (handleRequestsTimeout backwards mon2 [])) = {''aa'', ''bb''}"
proof -
  have c: "clients mon2 = {''aa'', ''bb''}" by (simp add: clients_def mon2_def pf0_def)
  have "clients (fst (handleRequestsTimeout E mon2 [])) = {''aa'', ''bb''} - fst ` set (visited E mon2 [])"
    for E
    using requests_timeout [OF _ mon2_ok, of E "[]"] unfolding c
    by (cases "handleRequestsTimeout E mon2 []") simp
  then show ?thesis by (simp add: visited_mon2)
qed

section \<open>The attach loop\<close>

lemma attach_unfold:
  "attachHostapd E h =
     (case env_Write E h attachCommand of
        None \<Rightarrow> Some (None, CWrite attachCommand None # h)
      | Some e \<Rightarrow> (if IsTimeout e then attachHostapd E (CWrite attachCommand (Some e) # h)
                  else Some (Some e, CLogError ''sockwrite'' e # CWrite attachCommand (Some e) # h)))"
  by (subst attachHostapd.simps) (rule refl)

definition timeouts :: "nat \<Rightarrow> hist \<Rightarrow> hist" where
  "timeouts n h = replicate n (CWrite attachCommand (Some NetTimeout)) @ h"

lemma timeouts_Suc: "timeouts (Suc n) h = timeouts n (CWrite attachCommand (Some NetTimeout) # h)"
  by (simp add: timeouts_def replicate_app_Cons_same)

lemma attach_returns:
  "env_Write E (timeouts n h) attachCommand \<noteq> Some NetTimeout \<Longrightarrow> attachHostapd E h \<noteq> None"
proof (induction n arbitrary: h)
  case 0
  then show ?case
    by (subst attach_unfold) (auto simp: timeouts_def IsTimeout_def split: option.splits)
next
  case (Suc n)
  then have "attachHostapd E (CWrite attachCommand (Some NetTimeout) # h) \<noteq> None"
    by (simp add: timeouts_Suc)
  then show ?case
    by (subst attach_unfold) (auto simp: IsTimeout_def split: option.splits)
qed

lemma attach_result:
  assumes "attachHostapd E h = Some y"
  shows "\<exists>n. env_Write E (timeouts n h) attachCommand \<noteq> Some NetTimeout"
proof (rule attachHostapd.raw_induct [OF _ assms], goal_cases)
  case (1 f E h y)
  show ?case
  proof (cases "env_Write E h attachCommand = Some NetTimeout")
    case True
    with 1(2) have "f E (CWrite attachCommand (Some NetTimeout) # h) = Some y"
      by (simp add: IsTimeout_def)
    from 1(1) [OF this] show ?thesis by (metis timeouts_Suc)
  next
    case False
    then show ?thesis by (intro exI [of _ 0]) (simp add: timeouts_def)
  qed
qed

text \<open>
  C38. \<open>attachHostapd\<close> returns if and only if some attempt after a series of write
  time-outs is answered otherwise; nothing else bounds the loop. While every write of the
  attach command times out, \<open>StartMonitor\<close> does not return once its set-up is done.
\<close>

theorem attach_terminates_iff:
  "(attachHostapd E h \<noteq> None \<longleftrightarrow>
      (\<exists>n. env_Write E (timeouts n h) attachCommand \<noteq> Some NetTimeout)) \<and>
   ((\<forall>g. env_Write E g attachCommand = Some NetTimeout) \<longrightarrow>
      (\<forall>m h0 h1. start_setup E c h0 = (Inr m, h1) \<longrightarrow> StartMonitor E c h0 = None))"
proof -
  have iff: "attachHostapd E h \<noteq> None \<longleftrightarrow>
      (\<exists>n. env_Write E (timeouts n h) attachCommand \<noteq> Some NetTimeout)" for h
    using attach_returns attach_result by blast
  have "StartMonitor E c h0 = None"
    if "\<forall>g. env_Write E g attachCommand = Some NetTimeout" "start_setup E c h0 = (Inr m, h1)"
    for m h0 h1
  proof -
    have "attachHostapd E h1 = None" using iff [of h1] that(1) by blast
    with that(2) show ?thesis by (simp add: StartMonitor_def)
  qed
  with iff show ?thesis by blast
qed

theorem attach_terminates_iff_witness:
  "attachHostapd (calm [] a0) [] \<noteq> None \<and>
   \<not> (attachHostapd ((calm [] a0)\<lparr>env_Write := (\<lambda>h s. Some NetTimeout)\<rparr>) [] \<noteq> None)"
  using attach_terminates_iff [of "calm [] a0" "[]" undefined]
    attach_terminates_iff [of "(calm [] a0)\<lparr>env_Write := (\<lambda>h s. Some NetTimeout)\<rparr>" "[]" undefined]
  by simp

section \<open>A filter that cannot be removed\<close>

lemma run_all_fails:
  assumes "\<forall>h c. env_Run E h c \<noteq> None" and "cmds \<noteq> []"
  shows "fst (run_all E cmds h) \<noteq> None \<and>
    (\<exists>c e. runs (snd (run_all E cmds h)) = (c, Some e) # runs h)"
proof (cases cmds)
  case (Cons c cs)
  obtain e where "env_Run E h c = Some e" using assms(1) by blast
  with Cons show ?thesis by (simp add: Run_def Let_def)
qed (use assms in simp)

lemma apply_policy_fails:
  assumes "\<forall>h c. env_Run E h c \<noteq> None" and "apply_policy E conf cmd pf h = (r, h')"
  shows "r \<noteq> None \<and> mac_verdict (runs h') i a = mac_verdict (runs h) i a"
proof -
  let ?c = "if conf then ConfigureVlanStateForVFs E pf h else (None, h)"
  let ?g = "CLookPath ''tc'' # snd ?c"
  have c: "runs (snd ?c) = runs h"
    using only_vf_runs [OF ConfigureVlanStateForVFs_only] by simp
  obtain ga h3 where g: "GetAssociatedInterfaces E (pf_Name pf) ?g = (ga, h3)" by fastforce
  have h3: "runs h3 = runs h"
    using only_read_runs [OF GetAssociatedInterfaces_only, of E "pf_Name pf" ?g] g c by simp
  show ?thesis
  proof (cases "fst ?c = None \<and> env_LookPath E (snd ?c) ''tc'' = None \<and> (\<exists>ifs. ga = Inr ifs)")
    case True
    then obtain ifs where ifs: "ga = Inr ifs" by blast
    with True g assms(2) have run: "run_all E (map cmd ifs) h3 = (r, h')"
      by (cases ?c) (auto simp: apply_policy_def LookPath_def)
    have "map cmd ifs \<noteq> []" using associated_hd g ifs by fastforce
    from run_all_fails [OF assms(1) this, of h3] run h3 show ?thesis by auto
  next
    case False
    then show ?thesis
      using assms(2) g c h3
      by (cases ?c; cases ga) (auto simp: apply_policy_def LookPath_def split: option.splits
          dest: sym)
  qed
qed

text \<open>
  C37. When no \<open>tc\<close> command succeeds, handling a disconnect reports an error but drops
  the address from the client set and from the pending requests, while the verdict of the
  filters stays what it was: an accepted address stays accepted, and nothing the monitor
  still has on record leads to another attempt.
\<close>

theorem deny_failure_stays_open:
  assumes "\<forall>h c. env_Run E h c \<noteq> None" and "shape_ok m"
    and "handleDeAuthenticateEvent E a m h = (r, m', h')"
  shows "r \<noteq> None \<and> a \<notin> clients m' \<and> a \<notin> pending m' \<and>
    (\<forall>i x. mac_verdict (runs h') i x = mac_verdict (runs h) i x)"
proof -
  obtain pf where "DenyTrafficFromMac E (expel a (PfInfo m)) a h = (r, pf, h')"
    using assms(3) by (auto simp: handleDeAuthenticateEvent_def split: prod.splits)
  from conjunct2 [OF DenyD [OF this]] apply_policy_fails [OF assms(1)]
    handleDeAuthenticate_moves [OF assms(3,2)]
  show ?thesis by (auto simp: moves_def)
qed

theorem deny_failure_stays_open_witness:
  "let E = (calm [] a0)\<lparr>env_Run := (\<lambda>h c. Some (Ext ''exit 1''))\<rparr>;
       m = mon0\<lparr>PfInfo := pf1\<rparr>; h = [CRun (allow_cmd ''eth0'' ''aa'') None];
       (r, m', h') = handleDeAuthenticateEvent E ''aa'' m h
   in r \<noteq> None \<and> clients m' = {} \<and> mac_verdict (runs h') ''eth0'' ''aa'' = Some Accept"
proof -
  let ?E = "(calm [] a0)\<lparr>env_Run := (\<lambda>h c. Some (Ext ''exit 1''))\<rparr>"
  let ?m = "mon0\<lparr>PfInfo := pf1\<rparr>" and ?h = "[CRun (allow_cmd ''eth0'' ''aa'') None]"
  obtain r m' h' where de: "handleDeAuthenticateEvent ?E ''aa'' ?m ?h = (r, m', h')"
    by (metis prod_cases3)
  have ok: "shape_ok ?m"
    by (simp add: shape_ok_def pf1_ok pending_def mon0_def clients_def)
  have "clients m' \<subseteq> {''aa''}"
    using handleDeAuthenticate_moves [OF de ok]
    by (auto simp: moves_def clients_def pf1_def pf0_def)
  then show ?thesis
    using deny_failure_stays_open [OF _ ok de] de by (auto simp: Let_def)
qed

section \<open>Shutdown\<close>

lemma vfs_set_close [simp]:
  "vfs_set (CClose r # h) pf = vfs_set h pf" "vfs_set (CUnsubscribe n # h) pf = vfs_set h pf"
  "vfs_set (CLogError c e # h) pf = vfs_set h pf"
  by (simp_all add: vfs_set_def)

lemma vfs_set_authenticated:
  "Authenticated pf \<Longrightarrow> vfs_set h pf = (\<forall>(k, vf)\<in>set (VFs pf).
     vf_vlan h (pf_Name pf) k = Some (Vlan vf) \<and> vf_state h (pf_Name pf) k = Some VF_LINK_STATE_AUTO)"
  by (simp add: vfs_set_def target_vlan_def target_state_def)

text \<open>
  \<open>StopMonitor\<close> leaves the machine as it found it: if the VFs were in line with
  the authentication state, then unless the restore itself reported an error every VF ends
  on its own recorded VLAN with link state "auto", whether or not a client was
  authenticated; the filters are not touched.
\<close>

lemma stop_restores_vfs:
  assumes "StopMonitor E m h = (m', h')" and "shape_ok m" and "names_ok E"
    and "vfs_set h (PfInfo m)"
    and "\<forall>e. CLogError ''restoring vf state'' e \<notin> set h'"
  shows "VFs (PfInfo m') = VFs (PfInfo m) \<and> runs h' = runs h \<and>
    (\<forall>(k, vf)\<in>set (VFs (PfInfo m)).
       vf_vlan h' (pf_Name (PfInfo m)) k = Some (Vlan vf) \<and>
       vf_state h' (pf_Name (PfInfo m)) k = Some VF_LINK_STATE_AUTO)"
proof (cases "Authenticated (PfInfo m)")
  case True
  with assms(1,4) vfs_set_authenticated [OF True] show ?thesis
    by (auto simp: StopMonitor_def stop_restore_def stop_close_def go_defs Let_def split: option.splits)
next
  case False
  let ?pf = "(PfInfo m)\<lparr>Authenticated := True\<rparr>"
  obtain r h1 where conf: "ConfigureVlanStateForVFs E ?pf h = (r, h1)" by fastforce
  then have r: "r = None" using assms(1,5) False
    by (cases r) (auto simp: StopMonitor_def stop_restore_def stop_close_def go_defs Let_def split: option.splits)
  have "vfs_set h1 ?pf"
    using configure_vfs_set [of ?pf E h h1] conf r assms(2,3) by (simp add: shape_ok_def)
  moreover have "runs h1 = runs h"
    using only_vf_runs [OF ConfigureVlanStateForVFs_only, of E ?pf h] conf by simp
  ultimately show ?thesis
    using assms(1) False conf r vfs_set_authenticated [of ?pf h1]
    by (auto simp: StopMonitor_def stop_restore_def stop_close_def go_defs Let_def split: option.splits)
qed

lemma stop_restores_vfs_example:
  "(case StopMonitor (calm [] a0) mon0 (snd (ConfigureVlanStateForVFs (calm [] a0) pf0 [])) of
     (m', h') \<Rightarrow> vf_vlan h' ''eth0'' 0 = Some 100 \<and> vf_state h' ''eth0'' 0 = Some VF_LINK_STATE_AUTO)"
proof -
  let ?h = "snd (ConfigureVlanStateForVFs (calm [] a0) pf0 [])"
  obtain m' h' where st: "StopMonitor (calm [] a0) mon0 ?h = (m', h')" by fastforce
  have "shape_ok mon0" by (simp add: shape_ok_def mon0_def pf0_ok pending_def)
  moreover have "vfs_set ?h (PfInfo mon0)"
    using configure_vfs_set [OF pf0_ok calm_names_ok, of "[]" a0 "[]" ?h]
    by (simp add: mon0_def pf0_def ConfigureVlanStateForVFs_def ConfigureVlanState_def go_defs)
  moreover have "\<forall>e. CLogError ''restoring vf state'' e \<notin> set h'"
    using st by (auto simp: StopMonitor_def stop_restore_def stop_close_def mon0_def pf0_def ConfigureVlanStateForVFs_def
        ConfigureVlanState_def go_defs)
  moreover have "PfInfo mon0 = pf0" by (simp add: mon0_def)
  ultimately show ?thesis
    using stop_restores_vfs [OF st _ calm_names_ok] st by (simp add: pf0_def)
qed

end
