(* ===== verification/ConfigGen.thy ===== *)
theory ConfigGen
  imports Api
begin

text \<open>
  \<open>pkg/configgen/configgen.go\<close> and its template \<open>data/hostapd.conf.tmpl\<close>: the
  ConfigMap and the DaemonSet generated for an \<open>Authenticator\<close>. The Kubernetes objects
  are records of the fields the generator sets; a field it leaves at its zero value is a
  field only where the program or the API server looks at it.
\<close>

section \<open>Constants\<close>

definition AppId :: string where "AppId = ''authenticator.eapol''"
definition AuthNamespace :: string where "AuthNamespace = ''authenticator-namespace''"
definition AuthName :: string where "AuthName = ''authenticator-name''"
definition AuthenticatorMountPath :: string where "AuthenticatorMountPath = ''/config/auth''"
definition configFile :: string where "configFile = ''hostapd.conf''"
definition userFile :: string where "userFile = ''hostapd.eap_user''"
definition caFile :: string where "caFile = ''1x-ca.pem''"
definition certFile :: string where "certFile = ''1x-hostapd.example.com.pem''"
definition privateKeyFile :: string where "privateKeyFile = ''1x-hostapd.example.com.key''"
definition radiusClientFile :: string where "radiusClientFile = ''hostapd.radius_clients''"
definition configMountPath :: string where "configMountPath = ''/config''"
definition configVolumeName :: string where "configVolumeName = ''config-volume''"
definition socketsMountPath :: string where "socketsMountPath = ''/var/run/hostapd''"
definition socketsVolumeName :: string where "socketsVolumeName = ''sockets-volume''"
definition authenticatorVolumeName :: string where
  "authenticatorVolumeName = ''authenticator-volume''"
definition defaultImage :: string where
  "defaultImage = ''quay.io/openshift-kni/eapol-authenticator:latest''"
definition disabledSelector :: string where "disabledSelector = ''no-node''"
definition disabledReason :: string where "disabledReason = ''Disabled_via_config''"
definition mainCommand :: string where "mainCommand = ''/bin/hostapd-start.sh''"
definition monitorCommand :: string where "monitorCommand = ''/bin/hostapd-monitor''"

definition defaultFileMode :: int where "defaultFileMode = 420"
definition terminationGracePeriod :: int where "terminationGracePeriod = 30"
definition revisionHistoryLimit :: int where "revisionHistoryLimit = 10"
definition maxSurge :: int where "maxSurge = 0"
definition maxUnavailable :: int where "maxUnavailable = 1"

lemmas file_defs = configFile_def userFile_def caFile_def certFile_def privateKeyFile_def
  radiusClientFile_def configMountPath_def

section \<open>The template\<close>

text \<open>
  The text of the template between its actions, after the trimming that \<open>{{-\<close> and
  \<open>-}}\<close> ask for; \<open>lns\<close> ends each line.
\<close>

definition lns :: "string list \<Rightarrow> string" where
  "lns ls = concat (map (\<lambda>l. l @ nl) ls)"

definition tmpl_head :: string where
  \<open>tmpl_head = lns [
       ''##### hostapd configuration file ##############################################'',
       ''# Empty lines and lines starting with # are ignored'',
       [],
       ''# Example configuration file for wired authenticator. See hostapd.conf for'',
       ''# more details.'',
       []] @
     ''interface=''\<close>

definition tmpl_wired :: string where
  \<open>tmpl_wired = lns [
       [],
       ''driver=wired'',
       ''logger_stdout=-1'',
       ''logger_stdout_level=1'',
       ''ctrl_interface=/var/run/hostapd'',
       [],
       ''ieee8021x=1''] @
     ''eap_reauth_period=''\<close>

definition tmpl_pae :: string where
  \<open>tmpl_pae = lns [
       [],
       [],
       ''use_pae_group_addr=1'',
       []]\<close>

definition tmpl_eap_server :: string where
  \<open>tmpl_eap_server = lns [
       ''##### Integrated EAP server ###################################################'',
       [],
       ''# Use integrated EAP server instead of external RADIUS authentication'',
       ''# server. This is also needed if hostapd is configured to act as a RADIUS'',
       ''# authentication server.'',
       ''eap_server=1'',
       []]\<close>

definition tmpl_user_file :: string where
  \<open>tmpl_user_file = lns [
       ''# Path for EAP server user database'',
       ''# If SQLite support is included, this can be set to "sqlite:/path/to/sqlite.db"'',
       ''# to use SQLite database instead of a text file.''] @
     ''eap_user_file=/config/hostapd.eap_user''\<close>

definition tmpl_ca_cert :: string where
  \<open>tmpl_ca_cert = lns [
       ''# CA certificate (PEM or DER file) for EAP-TLS/PEAP/TTLS''] @
     ''ca_cert=/config/1x-ca.pem''\<close>

definition tmpl_server_cert :: string where
  \<open>tmpl_server_cert = lns [
       ''# Server certificate (PEM or DER file) for EAP-TLS/PEAP/TTLS''] @
     ''server_cert=/config/1x-hostapd.example.com.pem''\<close>

definition tmpl_private_key :: string where
  \<open>tmpl_private_key = lns [
       ''# Private key matching with the server certificate for EAP-TLS/PEAP/TTLS'',
       ''# This may point to the same file as server_cert if both certificate and key'',
       ''# are included in a single file. PKCS#12 (PFX) file (.p12/.pfx) can also be'',
       ''# used by commenting out server_cert and specifying the PFX file as the'',
       ''# private_key.'',
       ''private_key=/config/1x-hostapd.example.com.key'',
       [],
       ''# Passphrase for private key''] @
     ''private_key_passwd=''\<close>

definition tmpl_radius_clients :: string where
  \<open>tmpl_radius_clients = lns [
       ''# Local Radius server configuration'',
       ''radius_server_clients=/config/hostapd.radius_clients''] @
     ''radius_server_auth_port=''\<close>

definition tmpl_server_id :: string where
  \<open>tmpl_server_id = lns [
       [],
       [],
       ''# An alternative server certificate and private key can be configured with the'',
       ''# following parameters (with values just like the parameters above without the'',
       ''# '2' suffix). The ca_cert file (in PEM encoding) is used to add the trust roots'',
       ''# for both server certificates and/or client certificates).'',
       ''#'',
       ''# The main use case for this alternative server certificate configuration is to'',
       ''# enable both RSA and ECC public keys. The server will pick which one to use'',
       ''# based on the client preferences for the cipher suite (in the TLS ClientHello'',
       ''# message). It should be noted that number of deployed EAP peer implementations'',
       ''# do not filter out the cipher suite list based on their local configuration and'',
       ''# as such, configuration of alternative types of certificates on the server may'',
       ''# result in interoperability issues.'',
       ''#server_cert2=/etc/hostapd.server-ecc.pem'',
       ''#private_key2=/etc/hostapd.server-ecc.prv'',
       ''#private_key_passwd2=secret passphrase'',
       [],
       ''# Server identity'',
       ''# EAP methods that provide mechanism for authenticated server identity delivery'',
       ''# use this value. If not set, "hostapd" is used as a default.'',
       ''#server_id=server.example.com'']\<close>

definition tmpl_radius :: string where
  \<open>tmpl_radius = lns [
       [],
       ''##### RADIUS configuration ####################################################'',
       ''# for IEEE 802.1X with external Authentication Server, IEEE 802.11'',
       ''# authentication with external ACL for MAC addresses, and accounting'',
       [],
       ''# The own IP address of the access point (used as NAS-IP-Address)'',
       ''own_ip_addr=127.0.0.1'',
       [],
       ''# Optional NAS-Identifier string for RADIUS messages. When used, this should be'',
       ''# a unique to the NAS within the scope of the RADIUS server. For example, a'',
       ''# fully qualified domain name can be used here.'',
       ''nas_identifier=ap.example.com'',
       [],
       ''# RADIUS authentication server''] @
     ''auth_server_addr=''\<close>

definition tmpl_radius_port :: string where
  \<open>tmpl_radius_port = lns [
       []] @
     ''auth_server_port=''\<close>

definition tmpl_radius_secret :: string where
  \<open>tmpl_radius_secret = lns [
       [],
       ''auth_server_shared_secret=$AUTHSECRET'',
       [],
       ''# RADIUS accounting server'',
       ''#acct_server_addr=127.0.0.1'',
       ''#acct_server_port=1813'',
       ''#acct_server_shared_secret=radius'']\<close>

section \<open>Rendering\<close>

text \<open>\<open>html/template\<close> escapes what an action prints into text, by the table of its HTML
  escaper; NUL becomes the three bytes of U+FFFD.\<close>

definition escape_char :: "char \<Rightarrow> string" where
  "escape_char c =
     (if c = CHR 0x00 then [CHR 0xEF, CHR 0xBF, CHR 0xBD]
      else if c = CHR 0x22 then ''&#34;''
      else if c = CHR ''&'' then ''&amp;''
      else if c = CHR 0x27 then ''&#39;''
      else if c = CHR ''+'' then ''&#43;''
      else if c = CHR ''<'' then ''&lt;''
      else if c = CHR ''>'' then ''&gt;''
      else [c])"

definition htmlescape :: "string \<Rightarrow> string" where
  "htmlescape s = concat (map escape_char s)"

definition tmpl_interfaces :: "string list \<Rightarrow> string" where
  "tmpl_interfaces ifs = Join (map htmlescape ifs) '',''"

definition tmpl_if :: "'a option \<Rightarrow> string \<Rightarrow> string" where
  "tmpl_if cond body = (case cond of None \<Rightarrow> [] | Some _ \<Rightarrow> body)"

definition tmpl_local :: "Local \<Rightarrow> string" where
  "tmpl_local l =
     tmpl_eap_server @
     tmpl_if (UserFileSecret l) tmpl_user_file @ nl @ nl @
     tmpl_if (CaCertSecret l) tmpl_ca_cert @ nl @ nl @
     tmpl_if (ServerCertSecret l) tmpl_server_cert @ nl @ nl @
     tmpl_if (PrivateKeySecret l) (tmpl_private_key @ htmlescape (PrivateKeyPassphrase l)) @ nl @ nl @
     tmpl_if (RadiusClientSecret l) (tmpl_radius_clients @ htmlescape (Itoa (local_AuthPort l))) @
     tmpl_server_id"

definition tmpl_radius_server :: "Radius \<Rightarrow> string" where
  "tmpl_radius_server r =
     tmpl_radius @ htmlescape (AuthServer r) @
     tmpl_radius_port @ htmlescape (Itoa (radius_AuthPort r)) @ tmpl_radius_secret"

definition hostapd_conf :: "AuthenticatorSpec \<Rightarrow> string" where
  "hostapd_conf spec =
     tmpl_head @ tmpl_interfaces (spec_Interfaces spec) @
     tmpl_wired @ (case Configuration spec of None \<Rightarrow> ''3600''
                   | Some c \<Rightarrow> htmlescape (Itoa (EapReauthPeriod c))) @
     tmpl_pae @ (case auth_Local (Authentication spec) of None \<Rightarrow> [] | Some l \<Rightarrow> tmpl_local l) @
     nl @ nl @
     (case auth_Radius (Authentication spec) of None \<Rightarrow> [] | Some r \<Rightarrow> tmpl_radius_server r) @
     nl"

record ConfigMap =
  cm_Meta :: ObjectMeta
  cm_Data :: "(string, string) mapping"

definition new_meta :: "string \<Rightarrow> string \<Rightarrow> (string, string) mapping \<Rightarrow> ObjectMeta" where
  "new_meta name ns ls = \<lparr>om_Name = name, om_Namespace = ns, om_UID = [], ResourceVersion = [],
     om_Labels = ls, OwnerReferences = []\<rparr>"

record ConfigGenerator =
  a11r :: Authenticator
  serviceAccount :: string

text \<open>\<open>template.Parse\<close> of the constant template and \<open>Execute\<close> into a buffer do not
  fail.\<close>

definition g_ConfigMap :: "ConfigGenerator \<Rightarrow> ConfigMap res" where
  "g_ConfigMap g = Inr
     \<lparr>cm_Meta = new_meta (om_Name (a_Meta (a11r g))) (om_Namespace (a_Meta (a11r g))) Mapping.empty,
      cm_Data = Mapping.update configFile (hostapd_conf (a_Spec (a11r g))) Mapping.empty\<rparr>"

section \<open>The DaemonSet\<close>

record KeyToPath =
  kp_Key :: string
  kp_Path :: string

datatype VolumeProjection =
    ProjConfigMap string "KeyToPath list"
  | ProjSecret string "KeyToPath list"

text \<open>A reference to a field of the pod: \<open>APIVersion\<close> (the generator leaves it empty)
  and \<open>FieldPath\<close>.\<close>

record FieldRef =
  fr_APIVersion :: string
  FieldPath :: string

datatype EnvVar = EnvValue string string | EnvField string FieldRef

record VolumeMount =
  vm_Name :: string
  MountPath :: string

record Container =
  c_Name :: string
  c_Image :: string
  VolumeMounts :: "VolumeMount list"
  Capabilities_Add :: "string list"
  Command :: "string list"
  Env :: "EnvVar list"
  ImagePullPolicy :: string
  TerminationMessagePath :: string
  TerminationMessagePolicy :: string

datatype VolumeSource =
    Projected "VolumeProjection list" "int option"
  | EmptyDir
  | DownwardAPI "(string \<times> FieldRef) list" "int option"

record Volume =
  vol_Name :: string
  Source :: VolumeSource

record PodSpec =
  pod_NodeSelector :: "(string, string) mapping option"
  HostNetwork :: bool
  ServiceAccountName :: string
  Containers :: "Container list"
  Volumes :: "Volume list"
  RestartPolicy :: string
  TerminationGracePeriodSeconds :: "int option"
  DNSPolicy :: string
  SchedulerName :: string

record DaemonSetSpec =
  MatchLabels :: "(string, string) mapping"
  template_Labels :: "(string, string) mapping"
  template_Spec :: PodSpec
  UpdateStrategy_Type :: string
  MaxSurge :: "int option"
  MaxUnavailable :: "int option"
  RevisionHistoryLimit :: "int option"

record DaemonSet =
  ds_Meta :: ObjectMeta
  ds_Spec :: DaemonSetSpec

definition secret_projection :: "SecretKeyRef option \<Rightarrow> string \<Rightarrow> VolumeProjection list" where
  "secret_projection ref file =
     (case ref of
        None \<Rightarrow> []
      | Some s \<Rightarrow> [ProjSecret (skr_Name s)
                    [\<lparr>kp_Key = (if skr_Key s = [] then file else skr_Key s), kp_Path = file\<rparr>]])"

definition local_projection ::
  "(Local \<Rightarrow> SecretKeyRef option) \<Rightarrow> string \<Rightarrow> Auth \<Rightarrow> VolumeProjection list" where
  "local_projection sel file au =
     (case auth_Local au of None \<Rightarrow> [] | Some l \<Rightarrow> secret_projection (sel l) file)"

definition appendCertVolume ::
  "ConfigGenerator \<Rightarrow> VolumeProjection list \<Rightarrow> VolumeProjection list" where
  "appendCertVolume g volumes =
     (let au = Authentication (a_Spec (a11r g))
      in volumes @ local_projection CaCertSecret caFile au @
         local_projection ServerCertSecret certFile au @
         local_projection PrivateKeySecret privateKeyFile au)"

definition appendRadiusClientVolume ::
  "ConfigGenerator \<Rightarrow> VolumeProjection list \<Rightarrow> VolumeProjection list" where
  "appendRadiusClientVolume g volumes =
     volumes @ local_projection RadiusClientSecret radiusClientFile (Authentication (a_Spec (a11r g)))"

text \<open>The builder is empty exactly before the first port, since \<open>Itoa\<close> is never empty.\<close>

fun write_ports :: "string \<Rightarrow> int list \<Rightarrow> string" where
  "write_ports buf [] = buf"
| "write_ports buf (p # ps) = write_ports ((if buf \<noteq> [] then buf @ '' '' else buf) @ Itoa p) ps"

definition parsePorts :: "ConfigGenerator \<Rightarrow> string \<times> string" where
  "parsePorts g =
     (case spec_TrafficControl (a_Spec (a11r g)) of
        None \<Rightarrow> ([], [])
      | Some tc \<Rightarrow>
          (case UnprotectedPorts tc of
             None \<Rightarrow> ([], [])
           | Some ports \<Rightarrow> (write_ports [] (Tcp ports), write_ports [] (Udp ports))))"

definition mk_container :: "string \<Rightarrow> string \<Rightarrow> string \<Rightarrow> EnvVar list \<Rightarrow> Container" where
  "mk_container img name command env =
     \<lparr>c_Name = name, c_Image = img,
      VolumeMounts = [\<lparr>vm_Name = configVolumeName, MountPath = configMountPath\<rparr>,
                      \<lparr>vm_Name = socketsVolumeName, MountPath = socketsMountPath\<rparr>,
                      \<lparr>vm_Name = authenticatorVolumeName, MountPath = AuthenticatorMountPath\<rparr>],
      Capabilities_Add = [''NET_ADMIN'', ''NET_RAW''],
      Command = [command], Env = env, ImagePullPolicy = ''IfNotPresent'',
      TerminationMessagePath = ''/dev/termination-log'', TerminationMessagePolicy = ''File''\<rparr>"

definition ds_labels :: "Authenticator \<Rightarrow> (string, string) mapping" where
  "ds_labels a = Mapping.update AuthName (om_Name (a_Meta a))
     (Mapping.update AuthNamespace (om_Namespace (a_Meta a))
       (Mapping.update ''app'' AppId Mapping.empty))"

definition config_sources :: "ConfigGenerator \<Rightarrow> VolumeProjection list" where
  "config_sources g =
     appendRadiusClientVolume g (appendCertVolume g
       ([ProjConfigMap (om_Name (a_Meta (a11r g))) [\<lparr>kp_Key = configFile, kp_Path = configFile\<rparr>]] @
        local_projection UserFileSecret userFile (Authentication (a_Spec (a11r g)))))"

text \<open>The pod and the spec around it, with the defaults the generator fills in so that they do not
  differ from what the API server returns.\<close>

definition mk_pod ::
  "(string, string) mapping option \<Rightarrow> string \<Rightarrow> Container list \<Rightarrow> Volume list \<Rightarrow> PodSpec" where
  "mk_pod nodeSelector sa containers volumes =
     \<lparr>pod_NodeSelector = nodeSelector, HostNetwork = True, ServiceAccountName = sa,
      Containers = containers, Volumes = volumes, RestartPolicy = ''Always'',
      TerminationGracePeriodSeconds = Some terminationGracePeriod,
      DNSPolicy = ''ClusterFirst'', SchedulerName = ''default-scheduler''\<rparr>"

definition mk_spec :: "(string, string) mapping \<Rightarrow> PodSpec \<Rightarrow> DaemonSetSpec" where
  "mk_spec ls pod =
     \<lparr>MatchLabels = ls, template_Labels = ls, template_Spec = pod,
      UpdateStrategy_Type = ''RollingUpdate'', MaxSurge = Some maxSurge,
      MaxUnavailable = Some maxUnavailable, RevisionHistoryLimit = Some revisionHistoryLimit\<rparr>"

text \<open>
  \<open>Daemonset\<close> also writes: an existing node selector map of a disabled authenticator is
  extended in place, in the object the generator was given. The result is the DaemonSet
  and the generator afterwards.
\<close>

definition Daemonset :: "ConfigGenerator \<Rightarrow> DaemonSet \<times> ConfigGenerator" where
  "Daemonset g =
     (let a = a11r g; spec = a_Spec a;
          disable = (\<lambda>m. Mapping.update disabledSelector disabledReason m);
          nodeSelector = (if \<not> Enabled spec
             then Some (disable (case NodeSelector spec of None \<Rightarrow> Mapping.empty | Some m \<Rightarrow> m))
             else NodeSelector spec);
          g' = (if \<not> Enabled spec \<and> NodeSelector spec \<noteq> None
                then g\<lparr>a11r := a\<lparr>a_Spec := spec\<lparr>NodeSelector := nodeSelector\<rparr>\<rparr>\<rparr> else g);
          ls = ds_labels a;
          img = (if Image spec = [] then defaultImage else Image spec);
          ifaces = Join (spec_Interfaces spec) '','';
          (tcp, udp) = parsePorts g;
          ports = [EnvValue ''IFACES'' ifaces, EnvValue ''UNPROTECTED_TCP_PORTS'' tcp,
                   EnvValue ''UNPROTECTED_UDP_PORTS'' udp]
      in (\<lparr>ds_Meta = new_meta (om_Name (a_Meta a)) (om_Namespace (a_Meta a)) ls,
           ds_Spec = mk_spec ls (mk_pod nodeSelector (serviceAccount g)
                [mk_container img ''hostapd'' mainCommand
                   (ports @ [EnvValue ''CONFIG'' (configMountPath @ ''/'' @ configFile)]),
                 mk_container img ''hostapd-monitor'' monitorCommand
                   (ports @ [EnvField ''AUTHENTICATOR_HOST''
                      \<lparr>fr_APIVersion = [], FieldPath = ''status.hostIP''\<rparr>])]
                [\<lparr>vol_Name = configVolumeName,
                  Source = Projected (config_sources g) (Some defaultFileMode)\<rparr>,
                 \<lparr>vol_Name = socketsVolumeName, Source = EmptyDir\<rparr>,
                 \<lparr>vol_Name = authenticatorVolumeName,
                  Source = DownwardAPI
                    [(''labels'', \<lparr>fr_APIVersion = [], FieldPath = ''metadata.labels''\<rparr>)] None\<rparr>])\<rparr>,
          g'))"

section \<open>Reading the generated configuration\<close>

text \<open>hostapd reads its configuration line by line: empty lines and lines that start with
  \<open>#\<close> are ignored, any other is split at its first equals sign.\<close>

definition setting :: "string \<Rightarrow> (string \<times> string) list" where
  "setting l = (if l = [] \<or> hd l = CHR ''#'' then []
     else [(takeWhile (\<lambda>c. c \<noteq> CHR ''='') l, tl (dropWhile (\<lambda>c. c \<noteq> CHR ''='') l))])"

definition settings :: "string \<Rightarrow> (string \<times> string) list" where
  "settings s = concat (map setting (Split s (CHR 0x0A)))"

lemma settings_nl: "settings (a @ CHR 0x0A # b) = settings a @ settings b"
  by (simp add: settings_def Split_sep)

lemma settings_lines: "t = t' @ [CHR 0x0A] \<Longrightarrow> settings (t @ w) = settings t @ settings w"
  using settings_nl [of t' w] settings_nl [of t' "[]"] by (simp add: settings_def setting_def)

lemma settings_Nil [simp]: "settings [] = []"
  by (simp add: settings_def setting_def)

lemma settings_nl_Cons [simp]: "settings (CHR 0x0A # b) = settings b"
  using settings_nl [of "[]" b] by simp

text \<open>A text that ends in \<open>key=\<close>, completed by a value.\<close>

definition opens :: "string \<Rightarrow> string \<Rightarrow> bool" where
  "opens t k = (last (Split t (CHR 0x0A)) = k @ ''='' \<and> k \<noteq> [] \<and> hd k \<noteq> CHR ''#'' \<and>
     CHR ''='' \<notin> set k)"

lemma Split_append_last:
  "c \<notin> set v \<Longrightarrow> Split (t @ v) c = butlast (Split t c) @ [last (Split t c) @ v]"
proof (induction t)
  case Nil
  then show ?case by (simp add: Split_no_sep)
next
  case (Cons x t)
  obtain y ys where "Split t c = y # ys" by (cases "Split t c") auto
  with Cons show ?case by (cases ys) auto
qed

lemma settings_open:
  assumes "opens t k" and "CHR 0x0A \<notin> set v"
  shows "settings (t @ v) = butlast (settings t) @ [(k, v)]"
proof -
  have set: "setting (k @ CHR ''='' # w) = [(k, w)]" for w
    using assms(1) by (cases k) (auto simp: opens_def setting_def takeWhile_append dropWhile_append)
  obtain ls where ls: "Split t (CHR 0x0A) = ls @ [k @ ''='']"
    using assms(1) by (metis Split_not_Nil append_butlast_last_id opens_def)
  have "settings t = concat (map setting ls) @ [(k, [])]"
    using set [of "[]"] by (simp add: settings_def ls)
  moreover have "settings (t @ v) = concat (map setting ls) @ [(k, v)]"
    using assms(2) set [of v] by (simp add: settings_def Split_append_last ls)
  ultimately show ?thesis by simp
qed

lemma settings_open_nl:
  "opens t k \<Longrightarrow> CHR 0x0A \<notin> set v \<Longrightarrow>
     settings (t @ v @ CHR 0x0A # b) = butlast (settings t) @ (k, v) # settings b"
  using settings_nl [of "t @ v" b] settings_open [of t k v] by simp

lemma escape_nl [simp]: "CHR 0x0A \<in> set (htmlescape s) \<longleftrightarrow> CHR 0x0A \<in> set s"
  by (induction s) (auto simp: htmlescape_def escape_char_def)

lemma escape_clean:
  "set s \<inter> {CHR 0x00, CHR 0x22, CHR ''&'', CHR 0x27, CHR ''+'', CHR ''<'', CHR ''>''} = {} \<Longrightarrow>
   htmlescape s = s"
  by (induction s) (auto simp: htmlescape_def escape_char_def)

lemma escape_clean_iff:
  "htmlescape s = s \<longleftrightarrow>
   set s \<inter> {CHR 0x00, CHR 0x22, CHR ''&'', CHR 0x27, CHR ''+'', CHR ''<'', CHR ''>''} = {}"
proof
  have len: "length s \<le> length (htmlescape s)" for s
    by (induction s) (auto simp: htmlescape_def escape_char_def)
  show "htmlescape s = s \<Longrightarrow> set s \<inter>
      {CHR 0x00, CHR 0x22, CHR ''&'', CHR 0x27, CHR ''+'', CHR ''<'', CHR ''>''} = {}"
  proof (induction s)
    case (Cons c s)
    have "length (escape_char c) = 1"
    proof (rule ccontr)
      assume "length (escape_char c) \<noteq> 1"
      then have "1 < length (escape_char c)" by (auto simp: escape_char_def split: if_splits)
      moreover have "length (escape_char c) + length (htmlescape s) = Suc (length s)"
        using arg_cong [OF Cons.prems, of length] by (simp add: htmlescape_def)
      ultimately show False using len [of s] by simp
    qed
    then have "c \<notin> {CHR 0x00, CHR 0x22, CHR ''&'', CHR 0x27, CHR ''+'', CHR ''<'', CHR ''>''}"
      and "escape_char c = [c]"
      by (auto simp: escape_char_def split: if_splits)
    with Cons show ?case by (simp add: htmlescape_def)
  qed simp
qed (rule escape_clean)

section \<open>The settings of an authenticator\<close>

lemma pieces_open:
  "opens tmpl_head ''interface''" "opens (tl tmpl_wired) ''eap_reauth_period''"
  "opens tmpl_private_key ''private_key_passwd''"
  "opens tmpl_radius_clients ''radius_server_auth_port''"
  "opens (tl tmpl_radius) ''auth_server_addr''" "opens (tl tmpl_radius_port) ''auth_server_port''"
  by code_simp+

lemma pieces_lines:
  "tmpl_eap_server = butlast tmpl_eap_server @ [CHR 0x0A]"
  "tl tmpl_pae = butlast (tl tmpl_pae) @ [CHR 0x0A]"
  by code_simp+

lemma pieces_nl:
  "tmpl_wired = CHR 0x0A # tl tmpl_wired" "tmpl_pae = CHR 0x0A # tl tmpl_pae"
  "tmpl_server_id = CHR 0x0A # tl tmpl_server_id" "tmpl_radius = CHR 0x0A # tl tmpl_radius"
  "tmpl_radius_port = CHR 0x0A # tl tmpl_radius_port"
  "tmpl_radius_secret = CHR 0x0A # tl tmpl_radius_secret"
  by code_simp+

lemma pieces_settings:
  "settings tmpl_head = [(''interface'', [])]"
  "settings (tl tmpl_wired) = [(''driver'', ''wired''), (''logger_stdout'', ''-1''),
     (''logger_stdout_level'', ''1''), (''ctrl_interface'', ''/var/run/hostapd''),
     (''ieee8021x'', ''1''), (''eap_reauth_period'', [])]"
  "settings (tl tmpl_pae) = [(''use_pae_group_addr'', ''1'')]"
  "settings tmpl_eap_server = [(''eap_server'', ''1'')]"
  "settings tmpl_user_file = [(''eap_user_file'', ''/config/hostapd.eap_user'')]"
  "settings tmpl_ca_cert = [(''ca_cert'', ''/config/1x-ca.pem'')]"
  "settings tmpl_server_cert = [(''server_cert'', ''/config/1x-hostapd.example.com.pem'')]"
  "settings tmpl_private_key = [(''private_key'', ''/config/1x-hostapd.example.com.key''),
     (''private_key_passwd'', [])]"
  "settings tmpl_radius_clients = [(''radius_server_clients'', ''/config/hostapd.radius_clients''),
     (''radius_server_auth_port'', [])]"
  "settings (tl tmpl_server_id) = []"
  "settings (tl tmpl_radius) = [(''own_ip_addr'', ''127.0.0.1''),
     (''nas_identifier'', ''ap.example.com''), (''auth_server_addr'', [])]"
  "settings (tl tmpl_radius_port) = [(''auth_server_port'', [])]"
  "settings (tl tmpl_radius_secret) = [(''auth_server_shared_secret'', ''$AUTHSECRET'')]"
  by code_simp+

text \<open>What hostapd is meant to be told.\<close>

definition local_settings :: "Local \<Rightarrow> (string \<times> string) list" where
  "local_settings l =
     [(''eap_server'', ''1'')] @
     (if UserFileSecret l \<noteq> None then [(''eap_user_file'', configMountPath @ ''/'' @ userFile)] else []) @
     (if CaCertSecret l \<noteq> None then [(''ca_cert'', configMountPath @ ''/'' @ caFile)] else []) @
     (if ServerCertSecret l \<noteq> None then [(''server_cert'', configMountPath @ ''/'' @ certFile)] else []) @
     (if PrivateKeySecret l \<noteq> None
      then [(''private_key'', configMountPath @ ''/'' @ privateKeyFile),
            (''private_key_passwd'', htmlescape (PrivateKeyPassphrase l))] else []) @
     (if RadiusClientSecret l \<noteq> None
      then [(''radius_server_clients'', configMountPath @ ''/'' @ radiusClientFile),
            (''radius_server_auth_port'', Itoa (local_AuthPort l))] else [])"

definition radius_settings :: "Radius \<Rightarrow> (string \<times> string) list" where
  "radius_settings r =
     [(''own_ip_addr'', ''127.0.0.1''), (''nas_identifier'', ''ap.example.com''),
      (''auth_server_addr'', htmlescape (AuthServer r)),
      (''auth_server_port'', Itoa (radius_AuthPort r)),
      (''auth_server_shared_secret'', ''$AUTHSECRET'')]"

text \<open>No value that is printed contains a line break.\<close>

definition one_line :: "AuthenticatorSpec \<Rightarrow> bool" where
  "one_line spec = ((\<forall>i\<in>set (spec_Interfaces spec). CHR 0x0A \<notin> set i) \<and>
     (\<forall>l. auth_Local (Authentication spec) = Some l \<longrightarrow> CHR 0x0A \<notin> set (PrivateKeyPassphrase l)) \<and>
     (\<forall>r. auth_Radius (Authentication spec) = Some r \<longrightarrow> CHR 0x0A \<notin> set (AuthServer r)))"

lemma Itoa_one_line: "CHR 0x0A \<notin> set (Itoa i)"
  using Itoa_chars [of i] by (auto simp: digits_def)

lemma escape_Itoa: "htmlescape (Itoa i) = Itoa i"
  by (rule escape_clean) (use Itoa_chars [of i] in \<open>auto simp: digits_def\<close>)

lemma Join_one_line:
  "c \<notin> set sep \<Longrightarrow> \<forall>x\<in>set xs. c \<notin> set x \<Longrightarrow> c \<notin> set (Join xs sep)"
  by (induction xs sep rule: Join.induct) auto

lemma settings_if:
  "settings (tmpl_if c body) = (if c \<noteq> None then settings body else [])"
  by (cases c) (simp_all add: tmpl_if_def)

lemma settings_local:
  assumes "CHR 0x0A \<notin> set (PrivateKeyPassphrase l)"
  shows "settings (tmpl_local l @ CHR 0x0A # b) = local_settings l @ settings b"
proof -
  have eap: "settings (tmpl_eap_server @ w) = (''eap_server'', ''1'') # settings w" for w
    using settings_lines [OF pieces_lines(1)] by (simp add: pieces_settings)
  have key: "settings (tmpl_private_key @ htmlescape (PrivateKeyPassphrase l)) =
      [(''private_key'', ''/config/1x-hostapd.example.com.key''),
       (''private_key_passwd'', htmlescape (PrivateKeyPassphrase l))]"
    using settings_open [OF pieces_open(3)] assms by (simp add: pieces_settings)
  have port: "settings (tmpl_radius_clients @ Itoa p) =
      [(''radius_server_clients'', ''/config/hostapd.radius_clients''),
       (''radius_server_auth_port'', Itoa p)]" for p
    using settings_open [OF pieces_open(4) Itoa_one_line] by (simp add: pieces_settings)
  show ?thesis
    by (subst tmpl_local_def, subst pieces_nl(3))
      (simp add: nl_def settings_nl settings_if eap key port escape_Itoa pieces_settings
        local_settings_def file_defs del: not_None_eq)
qed

lemma settings_radius:
  assumes "CHR 0x0A \<notin> set (AuthServer r)"
  shows "settings (tmpl_radius_server r @ CHR 0x0A # b) = radius_settings r @ settings b"
  by (subst tmpl_radius_server_def, subst pieces_nl(4), subst pieces_nl(5), subst pieces_nl(6))
    (simp add: settings_open_nl [OF pieces_open(5)] settings_open_nl [OF pieces_open(6)] assms
      Itoa_one_line escape_Itoa pieces_settings settings_nl radius_settings_def)

text \<open>
  C19. The generated \<open>hostapd.conf\<close>, read the way hostapd reads it, says: listen on the
  interfaces of the spec, in order; 802.1X on the wired driver with the control socket the
  monitor dials; the requested reauthentication period or 3600; the integrated EAP server
  with exactly the files whose secrets are given, if there is local authentication; and
  the RADIUS server, if there is one. Strings of the spec pass through the HTML escaper,
  and the shared secret of the RADIUS server is the literal text \<open>$AUTHSECRET\<close>.
\<close>

theorem hostapd_conf_settings:
  assumes "one_line spec"
  shows "settings (hostapd_conf spec) =
    [(''interface'', Join (map htmlescape (spec_Interfaces spec)) '',''), (''driver'', ''wired''),
     (''logger_stdout'', ''-1''), (''logger_stdout_level'', ''1''),
     (''ctrl_interface'', socketsMountPath), (''ieee8021x'', ''1''),
     (''eap_reauth_period'', case Configuration spec of None \<Rightarrow> ''3600''
        | Some c \<Rightarrow> Itoa (EapReauthPeriod c)),
     (''use_pae_group_addr'', ''1'')] @
    (case auth_Local (Authentication spec) of None \<Rightarrow> [] | Some l \<Rightarrow> local_settings l) @
    (case auth_Radius (Authentication spec) of None \<Rightarrow> [] | Some r \<Rightarrow> radius_settings r)"
proof -
  let ?I = "tmpl_interfaces (spec_Interfaces spec)"
  let ?P = "case Configuration spec of None \<Rightarrow> ''3600'' | Some c \<Rightarrow> Itoa (EapReauthPeriod c)"
  let ?L = "case auth_Local (Authentication spec) of None \<Rightarrow> [] | Some l \<Rightarrow> tmpl_local l"
  let ?R = "case auth_Radius (Authentication spec) of None \<Rightarrow> [] | Some r \<Rightarrow> tmpl_radius_server r"
  have I: "CHR 0x0A \<notin> set ?I"
    unfolding tmpl_interfaces_def
    by (rule Join_one_line) (use assms in \<open>auto simp: one_line_def\<close>)
  have P: "CHR 0x0A \<notin> set ?P" by (simp add: Itoa_one_line split: option.split)
  have pae: "settings (tl tmpl_pae @ w) = (''use_pae_group_addr'', ''1'') # settings w" for w
    using settings_lines [OF pieces_lines(2)] by (simp add: pieces_settings)
  have "hostapd_conf spec = tmpl_head @ ?I @ CHR 0x0A # tl tmpl_wired @ ?P @ CHR 0x0A # tl tmpl_pae @
      ?L @ CHR 0x0A # CHR 0x0A # ?R @ [CHR 0x0A]"
    by (subst hostapd_conf_def, subst pieces_nl(1), subst pieces_nl(2))
      (simp add: nl_def escape_Itoa split: option.split)
  then show ?thesis
    using assms settings_open_nl [OF pieces_open(1) I] settings_open_nl [OF pieces_open(2) P]
    by (simp add: pieces_settings pae settings_local settings_radius one_line_def
        socketsMountPath_def tmpl_interfaces_def split: option.split)
qed

text \<open>An authenticator for \<open>eth0\<close> and \<open>eth1\<close> with a private key whose passphrase
  contains an ampersand, two unprotected UDP ports and a node selector.\<close>

definition spec1 :: AuthenticatorSpec where
  "spec1 = \<lparr>Enabled = True, spec_Interfaces = [''eth0'', ''eth1''],
     Authentication = \<lparr>auth_Local = Some \<lparr>UserFileSecret = None, CaCertSecret = None,
         ServerCertSecret = None,
         PrivateKeySecret = Some \<lparr>skr_Name = ''key-secret'', skr_Key = []\<rparr>,
         PrivateKeyPassphrase = ''a&b'', RadiusClientSecret = None, local_AuthPort = 0\<rparr>,
       auth_Radius = None\<rparr>,
     Configuration = Some \<lparr>EapReauthPeriod = 60\<rparr>, Image = [],
     NodeSelector = Some (Mapping.update ''zone'' ''a'' Mapping.empty),
     spec_TrafficControl = Some \<lparr>UnprotectedPorts = Some \<lparr>Tcp = [], Udp = [319, 320]\<rparr>\<rparr>\<rparr>"

definition auth1 :: Authenticator where
  "auth1 = \<lparr>a_Meta = new_meta ''auth'' ''ns'' Mapping.empty, a_Spec = spec1,
     a_Status = \<lparr>status_Interfaces = []\<rparr>\<rparr>"

definition g1 :: ConfigGenerator where
  "g1 = \<lparr>a11r = auth1, serviceAccount = ''sa''\<rparr>"

text \<open>The passphrase \<open>a&b\<close> reaches hostapd as \<open>a&amp;b\<close>.\<close>

theorem hostapd_conf_settings_witness:
  "map_of (settings (hostapd_conf spec1)) ''interface'' = Some ''eth0,eth1'' \<and>
   map_of (settings (hostapd_conf spec1)) ''eap_reauth_period'' = Some ''60'' \<and>
   map_of (settings (hostapd_conf spec1)) ''private_key_passwd'' = Some ''a&amp;b''"
proof -
  have "one_line spec1" by (simp add: one_line_def spec1_def)
  moreover have "Itoa 60 = ''60''" by code_simp
  ultimately show ?thesis
    using hostapd_conf_settings [of spec1]
    by (simp add: spec1_def local_settings_def htmlescape_def escape_char_def)
qed

section \<open>Properties of the DaemonSet\<close>

text \<open>The node selector the DaemonSet gets, and the fields of its parts.\<close>

definition final_selector :: "AuthenticatorSpec \<Rightarrow> (string, string) mapping option" where
  "final_selector spec =
     (if Enabled spec then NodeSelector spec
      else Some (Mapping.update disabledSelector disabledReason
        (case NodeSelector spec of None \<Rightarrow> Mapping.empty | Some m \<Rightarrow> m)))"

definition port_env :: "ConfigGenerator \<Rightarrow> EnvVar list" where
  "port_env g = [EnvValue ''IFACES'' (Join (spec_Interfaces (a_Spec (a11r g))) '',''),
     EnvValue ''UNPROTECTED_TCP_PORTS'' (fst (parsePorts g)),
     EnvValue ''UNPROTECTED_UDP_PORTS'' (snd (parsePorts g))]"

definition ds_image :: "AuthenticatorSpec \<Rightarrow> string" where
  "ds_image spec = (if Image spec = [] then defaultImage else Image spec)"

lemma Daemonset_sel:
  "ds_Meta (fst (Daemonset g)) =
     new_meta (om_Name (a_Meta (a11r g))) (om_Namespace (a_Meta (a11r g))) (ds_labels (a11r g))"
  "MatchLabels (ds_Spec (fst (Daemonset g))) = ds_labels (a11r g)"
  "template_Labels (ds_Spec (fst (Daemonset g))) = ds_labels (a11r g)"
  "pod_NodeSelector (template_Spec (ds_Spec (fst (Daemonset g)))) = final_selector (a_Spec (a11r g))"
  "Containers (template_Spec (ds_Spec (fst (Daemonset g)))) =
     [mk_container (ds_image (a_Spec (a11r g))) ''hostapd'' mainCommand
        (port_env g @ [EnvValue ''CONFIG'' (configMountPath @ ''/'' @ configFile)]),
      mk_container (ds_image (a_Spec (a11r g))) ''hostapd-monitor'' monitorCommand
        (port_env g @ [EnvField ''AUTHENTICATOR_HOST''
           \<lparr>fr_APIVersion = [], FieldPath = ''status.hostIP''\<rparr>])]"
  "Volumes (template_Spec (ds_Spec (fst (Daemonset g)))) =
     [\<lparr>vol_Name = configVolumeName, Source = Projected (config_sources g) (Some defaultFileMode)\<rparr>,
      \<lparr>vol_Name = socketsVolumeName, Source = EmptyDir\<rparr>,
      \<lparr>vol_Name = authenticatorVolumeName,
       Source = DownwardAPI
         [(''labels'', \<lparr>fr_APIVersion = [], FieldPath = ''metadata.labels''\<rparr>)] None\<rparr>]"
  by (simp_all add: Daemonset_def mk_spec_def mk_pod_def Let_def split_beta final_selector_def port_env_def ds_image_def)

lemma Daemonset_object:
  "snd (Daemonset g) = (if \<not> Enabled (a_Spec (a11r g)) \<and> NodeSelector (a_Spec (a11r g)) \<noteq> None
     then g\<lparr>a11r := (a11r g)\<lparr>a_Spec := (a_Spec (a11r g))\<lparr>NodeSelector :=
            final_selector (a_Spec (a11r g))\<rparr>\<rparr>\<rparr> else g)"
  by (simp add: Daemonset_def Let_def split_beta final_selector_def)

text \<open>The files a local authentication may need: the setting of hostapd, the file, and the
  secret it comes from.\<close>

definition secret_files :: "(string \<times> string \<times> (Local \<Rightarrow> SecretKeyRef option)) list" where
  "secret_files = [(''eap_user_file'', userFile, UserFileSecret), (''ca_cert'', caFile, CaCertSecret),
     (''server_cert'', certFile, ServerCertSecret),
     (''private_key'', privateKeyFile, PrivateKeySecret),
     (''radius_server_clients'', radiusClientFile, RadiusClientSecret)]"



text \<open>
  C30. The DaemonSet selects exactly the pods it makes, by labels that carry the namespace
  and the name of the Authenticator. An enabled authenticator is scheduled by the user's
  node selector; a disabled one by the user's selector plus an entry no node has, and a
  second generation from the same object gives the same DaemonSet although the first one
  extended the object's own selector.
\<close>

theorem daemonset_selectors:
  "let a = a11r g; ds = fst (Daemonset g); pod = template_Spec (ds_Spec ds);
       sel = (case NodeSelector (a_Spec a) of None \<Rightarrow> Mapping.empty | Some m \<Rightarrow> m) in
     MatchLabels (ds_Spec ds) = template_Labels (ds_Spec ds) \<and>
     Mapping.lookup (template_Labels (ds_Spec ds)) AuthNamespace = Some (om_Namespace (a_Meta a)) \<and>
     Mapping.lookup (template_Labels (ds_Spec ds)) AuthName = Some (om_Name (a_Meta a)) \<and>
     (if Enabled (a_Spec a) then pod_NodeSelector pod = NodeSelector (a_Spec a)
      else \<exists>m. pod_NodeSelector pod = Some m \<and> Mapping.lookup m ''no-node'' = Some ''Disabled_via_config'' \<and>
        (\<forall>k. k \<noteq> ''no-node'' \<longrightarrow> Mapping.lookup m k = Mapping.lookup sel k)) \<and>
     fst (Daemonset (snd (Daemonset g))) = ds"
proof -
  have twice: "Mapping.update disabledSelector disabledReason
      (Mapping.update disabledSelector disabledReason m) =
      Mapping.update disabledSelector disabledReason m" for m :: "(string, string) mapping"
    by (rule mapping_eqI) (simp add: lookup_update')
  have "fst (Daemonset (snd (Daemonset g))) = fst (Daemonset g)"
  proof (cases "\<not> Enabled (a_Spec (a11r g)) \<and> NodeSelector (a_Spec (a11r g)) \<noteq> None")
    case True
    then obtain m where m: "\<not> Enabled (a_Spec (a11r g))" "NodeSelector (a_Spec (a11r g)) = Some m"
      by blast
    let ?g = "g\<lparr>a11r := (a11r g)\<lparr>a_Spec := (a_Spec (a11r g))\<lparr>NodeSelector :=
       Some (Mapping.update disabledSelector disabledReason m)\<rparr>\<rparr>\<rparr>"
    have "parsePorts ?g = parsePorts g" "config_sources ?g = config_sources g"
      "ds_labels (a11r ?g) = ds_labels (a11r g)"
      by (simp_all add: parsePorts_def config_sources_def appendRadiusClientVolume_def
          appendCertVolume_def ds_labels_def)
    with m show ?thesis
      by (simp add: Daemonset_object final_selector_def)
        (simp add: Daemonset_def Let_def split_beta twice)
  qed (auto simp: Daemonset_object)
  moreover have "Mapping.lookup (ds_labels a) AuthNamespace = Some (om_Namespace (a_Meta a))"
    "Mapping.lookup (ds_labels a) AuthName = Some (om_Name (a_Meta a))" for a
    by (simp_all add: ds_labels_def lookup_update' AuthName_def AuthNamespace_def)
  ultimately show ?thesis
    unfolding Let_def Daemonset_sel
    by (simp add: final_selector_def lookup_update' disabledSelector_def disabledReason_def)
qed

text \<open>Disabled, the example keeps the selector it was given and gains the unmatchable one.\<close>

theorem daemonset_selectors_witness:
  "\<exists>m. pod_NodeSelector (template_Spec (ds_Spec (fst (Daemonset
       (g1\<lparr>a11r := auth1\<lparr>a_Spec := spec1\<lparr>Enabled := False\<rparr>\<rparr>\<rparr>))))) = Some m \<and>
     Mapping.lookup m ''no-node'' = Some ''Disabled_via_config'' \<and>
     Mapping.lookup m ''zone'' = Some ''a'' \<and> Mapping.lookup m ''rack'' = None"
  using daemonset_selectors [of "g1\<lparr>a11r := auth1\<lparr>a_Spec := spec1\<lparr>Enabled := False\<rparr>\<rparr>\<rparr>"]
  by (auto simp: Let_def g1_def auth1_def spec1_def lookup_update' lookup_empty)

end
