(* ===== verification/Labels.thy ===== *)
theory Labels
  imports ConfigGen
begin

text \<open>
  \<open>internal/k8s/k8s.go\<close>: how the monitor finds the \<open>Authenticator\<close> it works for, from
  the labels of its own pod in the file that the downward API mounts.
\<close>

section \<open>Reading the file\<close>

text \<open>A Go function that may panic.\<close>

datatype 'a go = Panic | Ret 'a

text \<open>\<open>bufio.Scanner\<close> splits at line feeds, drops the empty rest after the last one and one
  carriage return at the end of a line; a line of 64 KiB or more ends the scan.\<close>

definition MaxScanTokenSize :: nat where "MaxScanTokenSize = 65536"

definition scan_lines :: "string \<Rightarrow> string list" where
  "scan_lines s =
     (let ls = Split s (CHR 0x0A); ls' = (if last ls = [] then butlast ls else ls)
      in map dropCR (takeWhile (\<lambda>l. length l < MaxScanTokenSize) ls'))"

text \<open>The clean-up of a label value: literal \<open>\n\<close>, backslashes and blanks are removed, and
  then the first and the last character are cut off.\<close>

definition clean_value :: "string \<Rightarrow> string" where
  "clean_value v = RemoveAll '' '' (RemoveAll [CHR 0x5C] (RemoveAll [CHR 0x5C, CHR ''n''] v))"

definition unquote :: "string \<Rightarrow> string go" where
  "unquote v = (if length v < 2 then Panic else Ret (butlast (tl v)))"

definition label_step :: "string \<Rightarrow> string \<times> string \<Rightarrow> (string \<times> string) go" where
  "label_step l st =
     (case Split l (CHR ''='') of
        [k, v] \<Rightarrow>
          (case unquote (clean_value v) of
             Panic \<Rightarrow> Panic
           | Ret v' \<Rightarrow>
               Ret (if k = AuthNamespace then (v', snd st)
                    else if k = AuthName then (fst st, v') else st))
      | _ \<Rightarrow> Ret st)"

fun label_loop :: "string list \<Rightarrow> string \<times> string \<Rightarrow> (string \<times> string) go" where
  "label_loop [] st = Ret st"
| "label_loop (l # ls) st =
     (case label_step l st of Panic \<Rightarrow> Panic | Ret st' \<Rightarrow> label_loop ls st')"

text \<open>\<open>strings.Split(line, "\n")\<close> of a scanned line is the line itself, so the inner loop
  of the source runs over all the lines in turn.\<close>

definition labels_path :: string where
  "labels_path = filepath_Join [AuthenticatorMountPath, ''labels'']"

definition GetAuthNamespacedName :: "(string \<Rightarrow> string res) \<Rightarrow> (err + NamespacedName) go" where
  "GetAuthNamespacedName open_file =
     (case open_file labels_path of
        Inl e \<Rightarrow> Ret (Inl e)
      | Inr content \<Rightarrow>
          (case label_loop
                  (concat (map (\<lambda>line. Split (TrimSpace line) (CHR 0x0A)) (scan_lines content)))
                  ([], []) of
             Panic \<Rightarrow> Panic
           | Ret (authNs, authName) \<Rightarrow>
               Ret (if authNs = [] \<or> authName = []
                    then Inl (NewErr ''no authentication object found from labels'')
                    else Inr \<lparr>nn_Namespace = authNs, nn_Name = authName\<rparr>)))"

section \<open>The file the kubelet writes\<close>

text \<open>One line \<open>key="value"\<close> per label, as the downward API documents it.\<close>

definition label_line :: "string \<times> string \<Rightarrow> string" where
  "label_line = (\<lambda>(k, v). k @ ''='' @ [CHR 0x22] @ v @ [CHR 0x22])"

definition label_file :: "(string \<times> string) list \<Rightarrow> string" where
  "label_file kvs = Join (map label_line kvs) nl"

text \<open>What Kubernetes allows in labels: letters, digits, and a few punctuation characters.\<close>

definition label_ok :: "string \<Rightarrow> bool" where
  "label_ok s = (length s < 1000 \<and>
     (\<forall>c\<in>set s. c \<noteq> CHR ''='' \<and> c \<noteq> CHR 0x5C \<and> c \<noteq> CHR 0x22 \<and> \<not> isSpace c))"

lemma clean_value_quoted:
  assumes "label_ok v"
  shows "clean_value ([CHR 0x22] @ v @ [CHR 0x22]) = [CHR 0x22] @ v @ [CHR 0x22]"
proof -
  let ?q = "[CHR 0x22] @ v @ [CHR 0x22]"
  have "CHR 0x5C \<notin> set ?q" "CHR '' '' \<notin> set ?q"
    using assms by (auto simp: label_ok_def isSpace_def)
  then have "\<not> Contains ?q [CHR 0x5C, CHR ''n'']" "\<not> Contains ?q [CHR 0x5C]" "\<not> Contains ?q '' ''"
    using Contains_hd by blast+
  then show ?thesis unfolding clean_value_def by (metis RemoveAll_absent)
qed

lemma label_step_line:
  assumes "label_ok k" and "label_ok v"
  shows "label_step (label_line (k, v)) st =
    Ret (if k = AuthNamespace then (v, snd st) else if k = AuthName then (fst st, v) else st)"
proof -
  let ?q = "[CHR 0x22] @ v @ [CHR 0x22]"
  have "CHR ''='' \<notin> set k" "CHR ''='' \<notin> set ?q" using assms by (auto simp: label_ok_def)
  then have "Split (label_line (k, v)) (CHR ''='') = [k, ?q]"
    using Split_append_sep [of "CHR ''=''" k ?q] Split_no_sep [of "CHR ''=''" ?q]
    by (simp add: label_line_def)
  moreover have "unquote ?q = Ret v" by (simp add: unquote_def)
  ultimately show ?thesis
    unfolding label_step_def using clean_value_quoted [OF assms(2)] by simp
qed

lemma label_loop_lines:
  "\<forall>(k, v)\<in>set kvs. label_ok k \<and> label_ok v \<Longrightarrow>
   label_loop (map label_line kvs) st =
     Ret (fold (\<lambda>(k, v) st. if k = AuthNamespace then (v, snd st)
                            else if k = AuthName then (fst st, v) else st) kvs st)"
proof (induction kvs arbitrary: st)
  case (Cons p kvs)
  then show ?case by (cases p) (simp add: label_step_line)
qed simp

lemma label_line_facts:
  assumes "label_ok k" and "label_ok v"
  shows "length (label_line (k, v)) < MaxScanTokenSize" and "dropCR (label_line (k, v)) = label_line (k, v)"
    and "\<forall>c\<in>set (label_line (k, v)). \<not> isSpace c" and "label_line (k, v) \<noteq> []"
  using assms
  by (auto simp: label_line_def label_ok_def MaxScanTokenSize_def dropCR_def isSpace_def)

lemma scan_label_file:
  assumes "\<forall>(k, v)\<in>set kvs. label_ok k \<and> label_ok v" and "kvs \<noteq> []"
  shows "concat (map (\<lambda>line. Split (TrimSpace line) (CHR 0x0A)) (scan_lines (label_file kvs))) =
    map label_line kvs"
proof -
  let ?ls = "map label_line kvs"
  have f: "length l < MaxScanTokenSize \<and> dropCR l = l \<and> (\<forall>c\<in>set l. \<not> isSpace c) \<and> l \<noteq> []"
    if "l \<in> set ?ls" for l
    using that assms(1) label_line_facts by fastforce
  then have nl: "\<forall>l\<in>set ?ls. CHR 0x0A \<notin> set l" by (auto simp: isSpace_def)
  then have sp: "Split (label_file kvs) (CHR 0x0A) = ?ls"
    using assms(2) by (simp add: label_file_def nl_def Split_Join)
  have "last ?ls \<noteq> []" using f assms(2) by (metis last_in_set map_is_Nil_conv)
  then have lst: "(if last ?ls = [] then butlast ?ls else ?ls) = ?ls" by (rule if_not_P)
  have tw: "takeWhile (\<lambda>l. length l < MaxScanTokenSize) ?ls = ?ls"
    using f by (intro takeWhile_eq_all_conv [THEN iffD2]) blast
  have dc: "map dropCR ?ls = ?ls" using f by (intro map_idI) blast
  have "scan_lines (label_file kvs) = ?ls" unfolding scan_lines_def Let_def sp lst tw dc ..
  moreover have "map (\<lambda>line. Split (TrimSpace line) (CHR 0x0A)) ?ls = map (\<lambda>l. [l]) ?ls"
    using f nl by (intro map_cong refl) (metis TrimSpace_no_space Split_no_sep)
  ultimately show ?thesis by (simp only: concat_map_singleton map_ident)
qed

lemma fold_labels:
  "distinct (map fst kvs) \<Longrightarrow>
   fold (\<lambda>(k, v) st. if k = AuthNamespace then (v, snd st)
                      else if k = AuthName then (fst st, v) else st) kvs st =
     ((case map_of kvs AuthNamespace of Some v \<Rightarrow> v | None \<Rightarrow> fst st),
      (case map_of kvs AuthName of Some v \<Rightarrow> v | None \<Rightarrow> snd st))"
proof (induction kvs arbitrary: st)
  case (Cons p kvs)
  then have "map_of kvs (fst p) = None" by (simp add: map_of_eq_None_iff)
  with Cons show ?case
    by (cases p) (auto simp: AuthNamespace_def AuthName_def split: option.splits)
qed simp

lemma GetAuth_file:
  assumes "\<forall>(k, v)\<in>set kvs. label_ok k \<and> label_ok v" and "distinct (map fst kvs)"
    and "map_of kvs AuthNamespace = Some ns" and "map_of kvs AuthName = Some n"
    and "ns \<noteq> []" and "n \<noteq> []" and "open_file labels_path = Inr (label_file kvs)"
  shows "GetAuthNamespacedName open_file = Ret (Inr \<lparr>nn_Namespace = ns, nn_Name = n\<rparr>)"
proof -
  from assms(3) have "kvs \<noteq> []" by auto
  from scan_label_file [OF assms(1) this] label_loop_lines [OF assms(1)] fold_labels [OF assms(2)]
    assms(3-7) show ?thesis by (simp add: GetAuthNamespacedName_def)
qed

lemma pod_labels:
  assumes "\<forall>k. Mapping.lookup (template_Labels (ds_Spec (fst (Daemonset g)))) k \<noteq> None \<longrightarrow>
           map_of kvs k = Mapping.lookup (template_Labels (ds_Spec (fst (Daemonset g)))) k"
  shows "map_of kvs AuthNamespace = Some (om_Namespace (a_Meta (a11r g)))"
    "map_of kvs AuthName = Some (om_Name (a_Meta (a11r g)))"
  using assms
  by (simp_all add: Daemonset_sel ds_labels_def lookup_update' AuthNamespace_def AuthName_def)

text \<open>
  From the label file of a pod made for an \<open>Authenticator\<close> the monitor recovers that
  object's namespace and name, whatever other labels the pod has and in whatever order the
  kubelet writes them.
\<close>

lemma labels_name_authenticator:
  assumes "\<forall>(k, v)\<in>set kvs. label_ok k \<and> label_ok v" and "distinct (map fst kvs)"
    and "\<forall>k. Mapping.lookup (template_Labels (ds_Spec (fst (Daemonset g)))) k \<noteq> None \<longrightarrow>
           map_of kvs k = Mapping.lookup (template_Labels (ds_Spec (fst (Daemonset g)))) k"
    and "om_Namespace (a_Meta (a11r g)) \<noteq> []" and "om_Name (a_Meta (a11r g)) \<noteq> []"
    and "open_file labels_path = Inr (label_file kvs)"
  shows "GetAuthNamespacedName open_file =
    Ret (Inr \<lparr>nn_Namespace = om_Namespace (a_Meta (a11r g)), nn_Name = om_Name (a_Meta (a11r g))\<rparr>)"
  by (rule GetAuth_file [OF assms(1,2) pod_labels [OF assms(3)] assms(4,5)]) (rule assms(6))

lemma labels_name_authenticator_example:
  "GetAuthNamespacedName (\<lambda>p. Inr (label_file
     [(''app'', AppId), (AuthName, ''auth''), (AuthNamespace, ''ns''), (''pod-template'', ''1'')])) =
   Ret (Inr \<lparr>nn_Namespace = ''ns'', nn_Name = ''auth''\<rparr>)"
proof -
  let ?kvs = "[(''app'', AppId), (AuthName, ''auth''), (AuthNamespace, ''ns''), (''pod-template'', ''1'')]"
  have meta: "om_Namespace (a_Meta (a11r g1)) = ''ns''" "om_Name (a_Meta (a11r g1)) = ''auth''"
    by (simp_all add: g1_def auth1_def new_meta_def)
  have "\<forall>(k, v)\<in>set ?kvs. label_ok k \<and> label_ok v" and "distinct (map fst ?kvs)"
    by (simp_all add: label_ok_def isSpace_def AppId_def AuthName_def AuthNamespace_def)
  moreover have "\<forall>k. Mapping.lookup (template_Labels (ds_Spec (fst (Daemonset g1)))) k \<noteq> None \<longrightarrow>
      map_of ?kvs k = Mapping.lookup (template_Labels (ds_Spec (fst (Daemonset g1)))) k"
    by (auto simp: Daemonset_sel ds_labels_def lookup_update' meta AuthNamespace_def AuthName_def)
  ultimately show ?thesis
    using labels_name_authenticator [of ?kvs g1 "\<lambda>p. Inr (label_file ?kvs)"] by (simp add: meta)
qed

text \<open>
  A label line whose value, once cleaned, has fewer than two characters makes the
  monitor panic, whatever its key: an unquoted empty value is enough.
\<close>

lemma short_label_panics:
  assumes "open_file labels_path = Inr (k @ ''='' @ v)"
    and "\<forall>c\<in>set (k @ v). c \<noteq> CHR ''='' \<and> \<not> isSpace c" and "length (k @ v) < 1000"
    and "length (clean_value v) < 2"
  shows "GetAuthNamespacedName open_file = Panic"
proof -
  let ?l = "k @ ''='' @ v"
  have sp: "\<forall>c\<in>set ?l. \<not> isSpace c" using assms(2) by (auto simp: isSpace_def)
  then have nl: "CHR 0x0A \<notin> set ?l" and cr: "CHR 0x0D \<notin> set ?l" by (auto simp: isSpace_def)
  then have "dropCR ?l = ?l" unfolding dropCR_def by (metis last_in_set)
  then have "scan_lines ?l = [?l]"
    using nl assms(3) by (simp add: scan_lines_def Split_no_sep MaxScanTokenSize_def)
  moreover have "Split (TrimSpace ?l) (CHR 0x0A) = [?l]"
    unfolding TrimSpace_no_space [OF sp] by (rule Split_no_sep [OF nl])
  moreover have "CHR ''='' \<notin> set k" "CHR ''='' \<notin> set v" using assms(2) by auto
  then have "Split ?l (CHR ''='') = [k, v]"
    using Split_append_sep [of "CHR ''=''" k v] by (simp add: Split_no_sep)
  then have "label_step ?l st = Panic" for st
    unfolding label_step_def using assms(4) by (simp add: unquote_def)
  ultimately show ?thesis using assms(1) by (simp add: GetAuthNamespacedName_def)
qed

lemma short_label_panics_witness:
  "GetAuthNamespacedName (\<lambda>p. Inr ''key='') = Panic"
  using short_label_panics [of "\<lambda>p. Inr ''key=''" "''key''" "[]"]
  by (simp add: isSpace_def clean_value_def)

end
