(* ===== verification/Kube.thy ===== *)
theory Kube
  imports Labels
begin

text \<open>
  The registration of the API types (\<open>api/v1/groupversion_info.go\<close> and the \<open>init\<close> of
  \<open>authenticator_types.go\<close>) and the clients the monitor makes
  (\<open>internal/k8s/k8s.go\<close>). A scheme is the two maps of apimachinery's \<open>runtime.Scheme\<close> between
  kinds and Go types and its map of the unversioned kinds; conversion and default
  functions, which a scheme also holds, are left out. Configurations and client sets are
  opaque, and whether they can be made is a parameter.
\<close>

section \<open>Schemes\<close>

type_synonym gvk = "string \<times> string \<times> string"

text \<open>A Go type by its package and name.\<close>

type_synonym gotype = "string \<times> string"

record scheme =
  gvkToType :: "gvk \<Rightarrow> gotype option"
  typeToGVK :: "gotype \<Rightarrow> gvk list"
  unversionedKinds :: "string \<Rightarrow> gotype option"

definition NewScheme :: scheme where
  "NewScheme = \<lparr>gvkToType = (\<lambda>_. None), typeToGVK = (\<lambda>_. []), unversionedKinds = (\<lambda>_. None)\<rparr>"

definition AddKnownTypeWithName :: "gvk \<Rightarrow> gotype \<Rightarrow> scheme \<Rightarrow> scheme go" where
  "AddKnownTypeWithName k t s =
     (if fst (snd k) = [] then Panic
      else if gvkToType s k \<notin> {None, Some t} then Panic
      else let s' = s\<lparr>gvkToType := (gvkToType s)(k \<mapsto> t)\<rparr>
           in if k \<in> set (typeToGVK s t) then Ret s'
              else Ret (s'\<lparr>typeToGVK := (typeToGVK s)(t := typeToGVK s t @ [k])\<rparr>))"

fun AddKnownTypes :: "string \<times> string \<Rightarrow> gotype list \<Rightarrow> scheme \<Rightarrow> scheme go" where
  "AddKnownTypes gv [] s = Ret s"
| "AddKnownTypes gv (t # ts) s =
     (case AddKnownTypeWithName (fst gv, snd gv, snd t) t s of
        Panic \<Rightarrow> Panic | Ret s' \<Rightarrow> AddKnownTypes gv ts s')"

fun mark_unversioned :: "gotype list \<Rightarrow> scheme \<Rightarrow> scheme go" where
  "mark_unversioned [] s = Ret s"
| "mark_unversioned (t # ts) s =
     (if unversionedKinds s (snd t) \<notin> {None, Some t} then Panic
      else mark_unversioned ts (s\<lparr>unversionedKinds := (unversionedKinds s)(snd t \<mapsto> t)\<rparr>))"

definition AddUnversionedTypes :: "string \<times> string \<Rightarrow> gotype list \<Rightarrow> scheme \<Rightarrow> scheme go" where
  "AddUnversionedTypes gv ts s =
     (case AddKnownTypes gv ts s of Panic \<Rightarrow> Panic | Ret s' \<Rightarrow> mark_unversioned ts s')"

section \<open>The API group\<close>

definition metav1 :: "string \<Rightarrow> gotype" where
  "metav1 n = (''k8s.io/apimachinery/pkg/apis/meta/v1'', n)"

definition optionsTypes :: "gotype list" where
  "optionsTypes = map metav1 [''ListOptions'', ''GetOptions'', ''DeleteOptions'', ''CreateOptions'',
     ''UpdateOptions'', ''PatchOptions'']"

definition unversionedTypes :: "gotype list" where
  "unversionedTypes =
     map metav1 [''Status'', ''APIVersions'', ''APIGroupList'', ''APIGroup'', ''APIResourceList'']"

definition AddToGroupVersion :: "string \<times> string \<Rightarrow> scheme \<Rightarrow> scheme go" where
  "AddToGroupVersion gv s =
     (case AddKnownTypeWithName (fst gv, snd gv, ''WatchEvent'') (metav1 ''WatchEvent'') s of
        Panic \<Rightarrow> Panic
      | Ret s1 \<Rightarrow>
          (case AddKnownTypeWithName (fst gv, ''__internal'', ''WatchEvent'') (metav1 ''InternalEvent'') s1 of
             Panic \<Rightarrow> Panic
           | Ret s2 \<Rightarrow>
               (case AddKnownTypes gv optionsTypes s2 of
                  Panic \<Rightarrow> Panic
                | Ret s3 \<Rightarrow> AddUnversionedTypes ([], ''v1'') unversionedTypes s3)))"

definition GroupVersion :: "string \<times> string" where
  "GroupVersion = (''eapol.eapol.openshift.io'', ''v1'')"

definition apiv1 :: "string \<Rightarrow> gotype" where
  "apiv1 n = (''github.com/openshift-kni/eapol-operator/api/v1'', n)"

text \<open>The builder holds the one function that \<open>Register\<close> put into it.\<close>

definition registered :: "gotype list" where
  "registered = [apiv1 ''Authenticator'', apiv1 ''AuthenticatorList'']"

definition AddToScheme :: "scheme \<Rightarrow> scheme go" where
  "AddToScheme s =
     (case AddKnownTypes GroupVersion registered s of
        Panic \<Rightarrow> Panic | Ret s' \<Rightarrow> AddToGroupVersion GroupVersion s')"

text \<open>The scheme of the operator: client-go's, then this group; an error of either panics.\<close>

definition operator_scheme :: "(scheme \<Rightarrow> scheme res go) \<Rightarrow> scheme go" where
  "operator_scheme clientgo =
     (case clientgo NewScheme of
        Panic \<Rightarrow> Panic | Ret (Inl e) \<Rightarrow> Panic | Ret (Inr s) \<Rightarrow> AddToScheme s)"

section \<open>The clients of the monitor\<close>

record kube =
  InClusterConfig :: "string res"
  NewForConfig :: "string \<Rightarrow> err option"
  client_New :: "string \<Rightarrow> scheme \<Rightarrow> err option"

definition getScheme :: "scheme res go" where
  "getScheme = (case AddToScheme NewScheme of Panic \<Rightarrow> Panic | Ret s \<Rightarrow> Ret (Inr s))"

definition GetClient :: "kube \<Rightarrow> (string \<times> scheme) res go" where
  "GetClient K =
     (case InClusterConfig K of
        Inl e \<Rightarrow> Ret (Inl e)
      | Inr config \<Rightarrow>
          (case getScheme of
             Panic \<Rightarrow> Panic
           | Ret (Inl e) \<Rightarrow> Ret (Inl e)
           | Ret (Inr sch) \<Rightarrow>
               Ret (case client_New K config sch of Some e \<Rightarrow> Inl e | None \<Rightarrow> Inr (config, sch))))"

definition getClient :: "kube \<Rightarrow> string res" where
  "getClient K =
     (case InClusterConfig K of
        Inl e \<Rightarrow> Inl e
      | Inr config \<Rightarrow>
          (case NewForConfig K config of Some e \<Rightarrow> Inl e | None \<Rightarrow> Inr config))"

text \<open>The recorder: the client set it writes to, the scheme it looks kinds up in, and the component
  it names as the source of the events.\<close>

definition EventRecorder :: "kube \<Rightarrow> (string \<times> scheme \<times> string) res go" where
  "EventRecorder K =
     (case getClient K of
        Inl e \<Rightarrow> Ret (Inl e)
      | Inr cs \<Rightarrow>
          (case getScheme of
             Panic \<Rightarrow> Panic
           | Ret (Inl e) \<Rightarrow> Ret (Inl e)
           | Ret (Inr sch) \<Rightarrow> Ret (Inr (cs, sch, ''authenticator''))))"

section \<open>Consistency of a scheme\<close>

text \<open>The two maps are inverse to each other, no kind is listed twice, and every kind has a
  version.\<close>

definition scheme_ok :: "scheme \<Rightarrow> bool" where
  "scheme_ok s \<longleftrightarrow> (\<forall>k t. gvkToType s k = Some t \<longleftrightarrow> k \<in> set (typeToGVK s t)) \<and>
     (\<forall>t. distinct (typeToGVK s t)) \<and> (\<forall>k. gvkToType s k \<noteq> None \<longrightarrow> fst (snd k) \<noteq> [])"

text \<open>No kind of the list is taken by another type, and no name by another unversioned type.\<close>

definition fits :: "(gvk \<times> gotype) list \<Rightarrow> (string \<times> gotype) list \<Rightarrow> scheme \<Rightarrow> bool" where
  "fits ks us s \<longleftrightarrow> (\<forall>(k, t)\<in>set ks. gvkToType s k \<in> {None, Some t}) \<and>
     (\<forall>(n, t)\<in>set us. unversionedKinds s n \<in> {None, Some t})"

lemma fitsD:
  "fits ks us s \<Longrightarrow> (k, t) \<in> set ks \<Longrightarrow> gvkToType s k \<in> {None, Some t}"
  "fits ks us s \<Longrightarrow> (n, t) \<in> set us \<Longrightarrow> unversionedKinds s n \<in> {None, Some t}"
  by (auto simp: fits_def)

lemma fitsI:
  assumes "\<And>k t. (k, t) \<in> set ks \<Longrightarrow> gvkToType s k \<in> {None, Some t}"
    and "\<And>n t. (n, t) \<in> set us \<Longrightarrow> unversionedKinds s n \<in> {None, Some t}"
  shows "fits ks us s"
  unfolding fits_def using assms by blast

lemma scheme_okD:
  assumes "scheme_ok s"
  shows "gvkToType s k = Some t \<longleftrightarrow> k \<in> set (typeToGVK s t)" and "distinct (typeToGVK s t)"
    and "gvkToType s k \<noteq> None \<Longrightarrow> fst (snd k) \<noteq> []"
  using assms unfolding scheme_ok_def by blast+

text \<open>What a function that adds types promises: in a consistent scheme where its kinds fit it
  does not panic, leaves the scheme consistent and adds exactly those kinds.\<close>

locale registrar =
  fixes reg :: "scheme \<Rightarrow> scheme go"
    and ks :: "(gvk \<times> gotype) list"
    and us :: "(string \<times> gotype) list"
  assumes unique: "distinct (map fst ks)" "distinct (map fst us)"
    and adds: "scheme_ok s \<Longrightarrow> fits ks us s \<Longrightarrow>
      \<exists>s'. reg s = Ret s' \<and> scheme_ok s' \<and> gvkToType s' = gvkToType s ++ map_of ks \<and>
        unversionedKinds s' = unversionedKinds s ++ map_of us"
begin

text \<open>Nothing that was known is lost, and the new kinds are found.\<close>

lemma keeps:
  assumes "scheme_ok s" and "fits ks us s" and "reg s = Ret s'"
  shows "gvkToType s k = Some t \<Longrightarrow> gvkToType s' k = Some t"
    and "(k, t) \<in> set ks \<Longrightarrow> gvkToType s' k = Some t"
proof -
  have s': "gvkToType s' = gvkToType s ++ map_of ks" using adds [OF assms(1,2)] assms(3) by auto
  show "(k, t) \<in> set ks \<Longrightarrow> gvkToType s' k = Some t"
    by (simp add: s' map_add_Some_iff map_of_is_SomeI [OF unique(1)])
  show "gvkToType s k = Some t \<Longrightarrow> gvkToType s' k = Some t"
    using assms(2) by (cases "map_of ks k") (auto simp: s' map_add_Some_iff fits_def dest!: map_of_SomeD)
qed

text \<open>The kinds of a type that was not known are the ones added for it.\<close>

lemma kinds:
  assumes "scheme_ok s" and "fits ks us s" and "reg s = Ret s'" and "typeToGVK s t = []"
  shows "set (typeToGVK s' t) = {k. (k, t) \<in> set ks} \<and> distinct (typeToGVK s' t)"
proof -
  have s': "gvkToType s' = gvkToType s ++ map_of ks" "scheme_ok s'"
    using adds [OF assms(1,2)] assms(3) by auto
  have "gvkToType s k \<noteq> Some t" for k using assms(4) by (simp add: scheme_okD(1) [OF assms(1)])
  then have "gvkToType s' k = Some t \<longleftrightarrow> (k, t) \<in> set ks" for k
    using unique(1) by (auto simp: s'(1) map_add_Some_iff)
  then show ?thesis by (auto simp: scheme_okD [OF s'(2)])
qed

end

text \<open>One type, and two functions one after the other.\<close>

lemma registrar_one:
  assumes "fst (snd k) \<noteq> []" shows "registrar (AddKnownTypeWithName k t) [(k, t)] []"
proof
  fix s assume s: "scheme_ok s" "fits [(k, t)] [] s"
  let ?s = "s\<lparr>gvkToType := (gvkToType s)(k \<mapsto> t)\<rparr>"
  have k: "gvkToType s k \<in> {None, Some t}" using fitsD(1) [OF s(2)] by simp
  have "scheme_ok ?s" if "k \<in> set (typeToGVK s t)"
  proof -
    have "(gvkToType s)(k \<mapsto> t) = gvkToType s"
      using that scheme_okD(1) [OF s(1), of k t] by (simp add: fun_upd_idem)
    with s(1) show ?thesis by simp
  qed
  moreover have "scheme_ok (?s\<lparr>typeToGVK := (typeToGVK s)(t := typeToGVK s t @ [k])\<rparr>)"
    if "k \<notin> set (typeToGVK s t)"
  proof -
    have n: "gvkToType s k = None" using k that scheme_okD(1) [OF s(1), of k t] by auto
    then have "k \<notin> set (typeToGVK s t')" for t' using scheme_okD(1) [OF s(1), of k t'] by simp
    with that have "(((gvkToType s)(k \<mapsto> t)) k' = Some t') =
        (k' \<in> set (((typeToGVK s)(t := typeToGVK s t @ [k])) t'))" for k' t'
      using scheme_okD(1) [OF s(1), of k' t'] by (cases "k' = k"; cases "t' = t") auto
    moreover have "distinct (((typeToGVK s)(t := typeToGVK s t @ [k])) t')" for t'
      using that scheme_okD(2) [OF s(1), of t'] by (cases "t' = t") auto
    moreover have "fst (snd k') \<noteq> []" if "((gvkToType s)(k \<mapsto> t)) k' \<noteq> None" for k'
      using that assms scheme_okD(3) [OF s(1), of k'] by (cases "k' = k") auto
    ultimately show ?thesis
      unfolding scheme_ok_def scheme.select_convs scheme.update_convs
      by (intro conjI allI impI) simp_all
  qed
  ultimately show "\<exists>s'. AddKnownTypeWithName k t s = Ret s' \<and> scheme_ok s' \<and>
      gvkToType s' = gvkToType s ++ map_of [(k, t)] \<and>
      unversionedKinds s' = unversionedKinds s ++ map_of []"
    using k assms unfolding AddKnownTypeWithName_def Let_def by (auto simp: split_paired_Ex)
qed simp_all

lemma map_add_disjoint:
  "fst ` set xs \<inter> fst ` set ys = {} \<Longrightarrow> (m ++ map_of xs) ++ map_of ys = m ++ map_of (xs @ ys)"
  unfolding map_of_append map_add_assoc [symmetric]
  by (metis map_add_comm dom_map_of_conv_image_fst)

lemma registrar_seq:
  assumes f: "registrar f ks us" and g: "registrar g ks' us'"
    and "fst ` set ks \<inter> fst ` set ks' = {}" and "fst ` set us \<inter> fst ` set us' = {}"
  shows "registrar (\<lambda>s. case f s of Panic \<Rightarrow> Panic | Ret s' \<Rightarrow> g s') (ks @ ks') (us @ us')"
proof
  show "distinct (map fst (ks @ ks'))" "distinct (map fst (us @ us'))"
    using assms registrar.unique [OF f] registrar.unique [OF g] by auto
  fix s assume s: "scheme_ok s" "fits (ks @ ks') (us @ us') s"
  then have "fits ks us s" by (auto simp: fits_def)
  with registrar.adds [OF f s(1)] obtain s1 where s1: "f s = Ret s1" "scheme_ok s1"
    "gvkToType s1 = gvkToType s ++ map_of ks" "unversionedKinds s1 = unversionedKinds s ++ map_of us"
    by blast
  have new: "map_of ks k = None" if "(k, t) \<in> set ks'" for k t
    using that assms(3) by (force simp: map_of_eq_None_iff)
  have newu: "map_of us n = None" if "(n, t) \<in> set us'" for n t
    using that assms(4) by (force simp: map_of_eq_None_iff)
  have "fits ks' us' s1"
  proof (rule fitsI)
    show "gvkToType s1 k \<in> {None, Some t}" if "(k, t) \<in> set ks'" for k t
      using fitsD(1) [OF s(2), of k t] that new [OF that] by (simp add: s1(3) map_add_def)
    show "unversionedKinds s1 n \<in> {None, Some t}" if "(n, t) \<in> set us'" for n t
      using fitsD(2) [OF s(2), of n t] that newu [OF that] by (simp add: s1(4) map_add_def)
  qed
  with registrar.adds [OF g s1(2)] s1 show "\<exists>s'. (case f s of Panic \<Rightarrow> Panic | Ret s' \<Rightarrow> g s') = Ret s' \<and>
      scheme_ok s' \<and> gvkToType s' = gvkToType s ++ map_of (ks @ ks') \<and>
      unversionedKinds s' = unversionedKinds s ++ map_of (us @ us')"
    using map_add_disjoint [OF assms(3)] map_add_disjoint [OF assms(4)] by auto
qed

section \<open>The API group is registered\<close>

definition kinds_of :: "string \<times> string \<Rightarrow> gotype list \<Rightarrow> (gvk \<times> gotype) list" where
  "kinds_of gv ts = map (\<lambda>t. ((fst gv, snd gv, snd t), t)) ts"

definition names_of :: "gotype list \<Rightarrow> (string \<times> gotype) list" where
  "names_of ts = map (\<lambda>t. (snd t, t)) ts"

lemma registrar_none: "registrar Ret [] []"
  by unfold_locales auto

lemma registrar_AddKnownTypes:
  assumes "snd gv \<noteq> []" and "distinct (map snd ts)"
  shows "registrar (AddKnownTypes gv ts) (kinds_of gv ts) []"
  using assms(2)
proof (induction ts)
  case Nil
  have "AddKnownTypes gv [] = Ret" by (rule ext) simp
  with registrar_none show ?case by (simp add: kinds_of_def)
next
  case (Cons t ts)
  let ?k = "(fst gv, snd gv, snd t)"
  have "fst ` set [(?k, t)] \<inter> fst ` set (kinds_of gv ts) = {}"
    using Cons.prems by (cases t) (auto simp: kinds_of_def image_iff)
  moreover have "registrar (AddKnownTypeWithName ?k t) [(?k, t)] []"
    using assms(1) by (intro registrar_one) simp
  moreover have "registrar (AddKnownTypes gv ts) (kinds_of gv ts) []" using Cons by simp
  ultimately have "registrar (\<lambda>s. case AddKnownTypeWithName ?k t s of Panic \<Rightarrow> Panic
      | Ret s' \<Rightarrow> AddKnownTypes gv ts s') ([(?k, t)] @ kinds_of gv ts) ([] @ [])"
    by (intro registrar_seq) simp_all
  moreover have "AddKnownTypes gv (t # ts) = (\<lambda>s. case AddKnownTypeWithName ?k t s of Panic \<Rightarrow> Panic
      | Ret s' \<Rightarrow> AddKnownTypes gv ts s')"
    by (rule ext) simp
  ultimately show ?case by (simp add: kinds_of_def)
qed

lemma mark_unversioned_ok:
  assumes "\<forall>(n, t)\<in>set (names_of ts). unversionedKinds s n \<in> {None, Some t}" and "distinct (map snd ts)"
  shows "mark_unversioned ts s = Ret (s\<lparr>unversionedKinds := unversionedKinds s ++ map_of (names_of ts)\<rparr>)"
  using assms
proof (induction ts arbitrary: s)
  case (Cons t ts)
  let ?s = "s\<lparr>unversionedKinds := (unversionedKinds s)(snd t \<mapsto> t)\<rparr>"
  have new: "\<forall>x\<in>set ts. snd x \<noteq> snd t" using Cons.prems(2) by (metis distinct.simps(2) image_eqI list.set_map list.simps(9))
  then have "\<forall>(n, t)\<in>set (names_of ts). unversionedKinds ?s n \<in> {None, Some t}"
    using Cons.prems(1) by (auto simp: names_of_def)
  moreover have "fst ` set [(snd t, t)] \<inter> fst ` set (names_of ts) = {}"
    using new by (auto simp: names_of_def)
  from map_add_disjoint [OF this, of "unversionedKinds s"]
  have "(unversionedKinds s)(snd t \<mapsto> t) ++ map_of (names_of ts) =
      unversionedKinds s ++ map_of (names_of (t # ts))"
    by (simp add: names_of_def)
  moreover have "unversionedKinds s (snd t) \<in> {None, Some t}"
    using Cons.prems(1) by (auto simp: names_of_def)
  moreover have "distinct (map snd ts)" using Cons.prems(2) by simp
  ultimately show ?case using Cons.IH [of ?s] by (auto simp del: fun_upd_apply)
qed (simp add: names_of_def)

lemma registrar_mark:
  assumes "distinct (map snd ts)" shows "registrar (mark_unversioned ts) [] (names_of ts)"
proof
  show "distinct (map fst (names_of ts))" using assms by (simp add: names_of_def o_def)
  fix s assume "scheme_ok s" "fits [] (names_of ts) s"
  then show "\<exists>s'. mark_unversioned ts s = Ret s' \<and> scheme_ok s' \<and>
      gvkToType s' = gvkToType s ++ map_of [] \<and>
      unversionedKinds s' = unversionedKinds s ++ map_of (names_of ts)"
    using mark_unversioned_ok [OF _ assms, of s] by (auto simp: fits_def scheme_ok_def)
qed simp

text \<open>All the kinds that \<open>AddToScheme\<close> adds, and the unversioned names.\<close>

definition eapol_kinds :: "(gvk \<times> gotype) list" where
  "eapol_kinds = kinds_of GroupVersion registered @
     [((fst GroupVersion, snd GroupVersion, ''WatchEvent''), metav1 ''WatchEvent''),
      ((fst GroupVersion, ''__internal'', ''WatchEvent''), metav1 ''InternalEvent'')] @
     kinds_of GroupVersion optionsTypes @ kinds_of ([], ''v1'') unversionedTypes"

lemmas api_defs = GroupVersion_def registered_def apiv1_def metav1_def optionsTypes_def
  unversionedTypes_def kinds_of_def names_of_def

lemma registrar_AddToGroupVersion:
  "registrar (AddToGroupVersion GroupVersion)
     ([((fst GroupVersion, snd GroupVersion, ''WatchEvent''), metav1 ''WatchEvent'')] @
      [((fst GroupVersion, ''__internal'', ''WatchEvent''), metav1 ''InternalEvent'')] @
      kinds_of GroupVersion optionsTypes @ kinds_of ([], ''v1'') unversionedTypes @ [])
     ([] @ [] @ [] @ [] @ names_of unversionedTypes)"
proof -
  have d: "distinct (map snd optionsTypes)" "distinct (map snd unversionedTypes)"
    by (simp_all add: api_defs)
  have u: "AddUnversionedTypes ([], ''v1'') unversionedTypes =
      (\<lambda>s. case AddKnownTypes ([], ''v1'') unversionedTypes s of Panic \<Rightarrow> Panic
         | Ret s' \<Rightarrow> mark_unversioned unversionedTypes s')"
    by (rule ext) (simp add: AddUnversionedTypes_def)
  show ?thesis
    unfolding AddToGroupVersion_def [abs_def] u
    by (intro registrar_seq registrar_one registrar_AddKnownTypes registrar_mark d)
       (simp_all add: api_defs)
qed

interpretation eapol: registrar AddToScheme eapol_kinds "names_of unversionedTypes"
proof -
  have "registrar AddToScheme (kinds_of GroupVersion registered @
     ([((fst GroupVersion, snd GroupVersion, ''WatchEvent''), metav1 ''WatchEvent'')] @
      [((fst GroupVersion, ''__internal'', ''WatchEvent''), metav1 ''InternalEvent'')] @
      kinds_of GroupVersion optionsTypes @ kinds_of ([], ''v1'') unversionedTypes @ []))
     ([] @ [] @ [] @ [] @ [] @ names_of unversionedTypes)"
    unfolding AddToScheme_def [abs_def]
    by (intro registrar_seq registrar_AddKnownTypes registrar_AddToGroupVersion)
       (simp_all add: api_defs)
  then show "registrar AddToScheme eapol_kinds (names_of unversionedTypes)"
    by (simp add: eapol_kinds_def)
qed

lemma distinct_one: "set xs = {x} \<Longrightarrow> distinct xs \<Longrightarrow> xs = [x]"
  by (cases xs; cases "tl xs") auto

lemma NewScheme_ok: "scheme_ok NewScheme" "fits ks us NewScheme"
  by (simp_all add: scheme_ok_def fits_def NewScheme_def case_prod_beta)

lemma getScheme_Ret: "\<exists>s. getScheme = Ret (Inr s)"
  using eapol.adds [OF NewScheme_ok] by (auto simp: getScheme_def)

text \<open>
  C23. Registering the API group with a consistent scheme in which none of its kinds is
  taken by another type (such as the one of client-go that the operator extends) never
  panics: the scheme stays consistent (kinds and types are inverse to each other), keeps
  all its kinds, and gets the two types of the group under their own kinds. If they were
  not known before, these are their only kinds, so that an \<open>Authenticator\<close> is read and
  written under exactly one. In particular the monitor's client and its recorder, made
  from a new scheme, get it, and fail exactly with the error of the configuration or
  of the client.
\<close>

theorem scheme_registered:
  assumes "scheme_ok s" and "fits eapol_kinds (names_of unversionedTypes) s"
  shows "(\<exists>s'. AddToScheme s = Ret s' \<and> scheme_ok s' \<and>
      (\<forall>k t. gvkToType s k = Some t \<longrightarrow> gvkToType s' k = Some t) \<and>
      (\<forall>n\<in>{''Authenticator'', ''AuthenticatorList''}.
         gvkToType s' (''eapol.eapol.openshift.io'', ''v1'', n) = Some (apiv1 n) \<and>
         (typeToGVK s (apiv1 n) = [] \<longrightarrow>
            typeToGVK s' (apiv1 n) = [(''eapol.eapol.openshift.io'', ''v1'', n)]))) \<and>
    (\<exists>sch. getScheme = Ret (Inr sch) \<and>
      GetClient K = Ret (case InClusterConfig K of Inl e \<Rightarrow> Inl e | Inr c \<Rightarrow>
        (case client_New K c sch of Some e \<Rightarrow> Inl e | None \<Rightarrow> Inr (c, sch))) \<and>
      EventRecorder K = Ret (case InClusterConfig K of Inl e \<Rightarrow> Inl e | Inr c \<Rightarrow>
        (case NewForConfig K c of Some e \<Rightarrow> Inl e | None \<Rightarrow> Inr (c, sch, ''authenticator''))) \<and>
      typeToGVK sch (apiv1 ''Authenticator'') =
        [(''eapol.eapol.openshift.io'', ''v1'', ''Authenticator'')])"
proof -
  have in_kinds: "(k, apiv1 n) \<in> set eapol_kinds \<longleftrightarrow> k = (''eapol.eapol.openshift.io'', ''v1'', n)"
    if "n \<in> {''Authenticator'', ''AuthenticatorList''}" for k n
    using that by (auto simp: eapol_kinds_def api_defs)
  have one: "typeToGVK s2 (apiv1 n) = [(''eapol.eapol.openshift.io'', ''v1'', n)]"
    if "scheme_ok s1" "fits eapol_kinds (names_of unversionedTypes) s1" "AddToScheme s1 = Ret s2"
      "typeToGVK s1 (apiv1 n) = []" "n \<in> {''Authenticator'', ''AuthenticatorList''}" for s1 s2 n
    using eapol.kinds [OF that(1-4)] by (intro distinct_one) (simp_all add: in_kinds [OF that(5)])
  obtain s' where s': "AddToScheme s = Ret s'" "scheme_ok s'" using eapol.adds [OF assms] by blast
  have "gvkToType s' (''eapol.eapol.openshift.io'', ''v1'', n) = Some (apiv1 n) \<and>
      (typeToGVK s (apiv1 n) = [] \<longrightarrow>
         typeToGVK s' (apiv1 n) = [(''eapol.eapol.openshift.io'', ''v1'', n)])"
    if "n \<in> {''Authenticator'', ''AuthenticatorList''}" for n
    using eapol.keeps(2) [OF assms s'(1)] in_kinds [OF that] one [OF assms s'(1) _ that] by blast
  with s' eapol.keeps(1) [OF assms s'(1)] have 1: "\<exists>s'. AddToScheme s = Ret s' \<and> scheme_ok s' \<and>
      (\<forall>k t. gvkToType s k = Some t \<longrightarrow> gvkToType s' k = Some t) \<and>
      (\<forall>n\<in>{''Authenticator'', ''AuthenticatorList''}.
         gvkToType s' (''eapol.eapol.openshift.io'', ''v1'', n) = Some (apiv1 n) \<and>
         (typeToGVK s (apiv1 n) = [] \<longrightarrow>
            typeToGVK s' (apiv1 n) = [(''eapol.eapol.openshift.io'', ''v1'', n)]))"
    by blast
  obtain sch where sch: "AddToScheme NewScheme = Ret sch" using eapol.adds [OF NewScheme_ok] by blast
  have g: "getScheme = Ret (Inr sch)" by (simp add: getScheme_def sch)
  have "typeToGVK NewScheme t = []" for t by (simp add: NewScheme_def)
  with one [OF NewScheme_ok sch] have "typeToGVK sch (apiv1 ''Authenticator'') =
      [(''eapol.eapol.openshift.io'', ''v1'', ''Authenticator'')]" by simp
  with 1 show ?thesis
    by (simp add: GetClient_def EventRecorder_def getClient_def g split: sum.split option.split)
qed

text \<open>The scheme of the monitor, on a cluster where everything can be made.\<close>

definition kube0 :: kube where
  "kube0 = \<lparr>InClusterConfig = Inr ''https://10.0.0.1'', NewForConfig = (\<lambda>_. None),
     client_New = (\<lambda>_ _. None)\<rparr>"

lemma kube0_clients:
  "\<exists>sch. GetClient kube0 = Ret (Inr (''https://10.0.0.1'', sch)) \<and>
     EventRecorder kube0 = Ret (Inr (''https://10.0.0.1'', sch, ''authenticator''))"
proof -
  obtain s where g: "getScheme = Ret (Inr s)" using getScheme_Ret by blast
  show ?thesis by (simp add: GetClient_def EventRecorder_def getClient_def kube0_def g)
qed

theorem scheme_registered_witness:
  "\<exists>s'. AddToScheme NewScheme = Ret s' \<and>
     typeToGVK s' (apiv1 ''Authenticator'') =
       [(''eapol.eapol.openshift.io'', ''v1'', ''Authenticator'')] \<and>
     GetClient kube0 = Ret (Inr (''https://10.0.0.1'', s'))"
proof -
  have "typeToGVK NewScheme t = []" for t by (simp add: NewScheme_def)
  then show ?thesis
    using scheme_registered [OF NewScheme_ok, of kube0]
    by (auto simp: kube0_def getScheme_def)
qed

end
