(* ===== verification/Regexp.thy ===== *)
theory Regexp
  imports GoStrings
begin

text \<open>
  The part of Go's \<open>regexp\<close> that the sources use: sequences of single characters of a
  class, greedy repetitions of a class, word boundaries and the ends of the text. Among
  the matches at a position the one a backtracking search finds first is taken (longest
  repetitions first), and among the positions the leftmost. Characters are bytes, which
  for ASCII text are the runes of Go.
\<close>

section \<open>Matching\<close>

text \<open>\<open>One p\<close> is a character of the class \<open>p\<close>, \<open>Many n p\<close> as many as possible but at
  least \<open>n\<close>; \<open>Bound True\<close> is \<open>\b\<close> and \<open>Bound False\<close> is \<open>\B\<close>.\<close>

datatype atom =
    One "char \<Rightarrow> bool"
  | Many nat "char \<Rightarrow> bool"
  | Bound bool
  | Bol
  | Eol

definition is_word :: "char \<Rightarrow> bool" where
  "is_word c = (let n = of_char c :: nat in
     48 \<le> n \<and> n \<le> 57 \<or> 65 \<le> n \<and> n \<le> 90 \<or> n = 95 \<or> 97 \<le> n \<and> n \<le> 122)"

definition is_digit :: "char \<Rightarrow> bool" where
  "is_digit c = (c \<in> set digits)"

definition is_blank :: "char \<Rightarrow> bool" where
  "is_blank c = (c \<in> {CHR '' '', CHR 0x09, CHR 0x0A, CHR 0x0C, CHR 0x0D})"

definition dot :: "char \<Rightarrow> bool" where
  "dot c = (c \<noteq> CHR 0x0A)"

definition lit :: "string \<Rightarrow> atom list" where
  "lit s = map (\<lambda>c. One (\<lambda>x. x = c)) s"

definition at_word :: "char option \<Rightarrow> bool" where
  "at_word c = (case c of None \<Rightarrow> False | Some x \<Rightarrow> is_word x)"

lemma at_word_simps [simp]: "\<not> at_word None" "at_word (Some c) = is_word c"
  by (simp_all add: at_word_def)

definition next_char :: "string \<Rightarrow> char option" where
  "next_char s = (case s of [] \<Rightarrow> None | c # _ \<Rightarrow> Some c)"

definition prev_char :: "char option \<Rightarrow> string \<Rightarrow> char option" where
  "prev_char prev s = (if s = [] then prev else Some (last s))"

fun first_some :: "('a \<Rightarrow> 'b option) \<Rightarrow> 'a list \<Rightarrow> 'b option" where
  "first_some f [] = None"
| "first_some f (x # xs) = (case f x of None \<Rightarrow> first_some f xs | Some y \<Rightarrow> Some y)"

text \<open>The text that each atom matched, in order, for a match that begins where \<open>prev\<close> is
  the character before and \<open>s\<close> is the rest of the text.\<close>

fun rmatch :: "atom list \<Rightarrow> char option \<Rightarrow> string \<Rightarrow> string list option" where
  "rmatch [] prev s = Some []"
| "rmatch (One p # as) prev s =
     (case s of [] \<Rightarrow> None
      | c # cs \<Rightarrow> if p c then map_option (Cons [c]) (rmatch as (Some c) cs) else None)"
| "rmatch (Many n p # as) prev s =
     first_some (\<lambda>i. map_option (Cons (take i s))
         (rmatch as (prev_char prev (take i s)) (drop i s)))
       (rev [n..<Suc (length (takeWhile p s))])"
| "rmatch (Bound b # as) prev s =
     (if (at_word prev \<noteq> at_word (next_char s)) = b
      then map_option (Cons []) (rmatch as prev s) else None)"
| "rmatch (Bol # as) prev s = (if prev = None then map_option (Cons []) (rmatch as prev s) else None)"
| "rmatch (Eol # as) prev s = (if s = [] then map_option (Cons []) (rmatch as prev s) else None)"

fun rfind :: "atom list \<Rightarrow> char option \<Rightarrow> string \<Rightarrow> string list option" where
  "rfind re prev [] = rmatch re prev []"
| "rfind re prev (c # cs) =
     (case rmatch re prev (c # cs) of Some ps \<Rightarrow> Some ps | None \<Rightarrow> rfind re (Some c) cs)"

definition FindString :: "atom list \<Rightarrow> string \<Rightarrow> string" where
  "FindString re s = (case rfind re None s of None \<Rightarrow> [] | Some ps \<Rightarrow> concat ps)"

section \<open>Facts\<close>

lemma first_some_Some:
  "first_some f xs = Some y \<Longrightarrow> \<exists>x\<in>set xs. f x = Some y"
  by (induction xs) (auto split: option.splits)

lemma first_some_None: "first_some f xs = None \<longleftrightarrow> (\<forall>x\<in>set xs. f x = None)"
  by (induction xs) (auto split: option.splits)

text \<open>A repetition splits the text; when the longest one leads to a match it is taken.\<close>

lemma rmatch_Many_Some:
  assumes "rmatch (Many n p # re) prev s = Some ps"
  obtains x t qs where "s = x @ t" and "\<forall>c\<in>set x. p c" and "n \<le> length x"
    and "ps = x # qs" and "rmatch re (prev_char prev x) t = Some qs"
proof -
  from assms obtain i qs where i: "n \<le> i" "i \<le> length (takeWhile p s)"
    and m: "rmatch re (prev_char prev (take i s)) (drop i s) = Some qs" and ps: "ps = take i s # qs"
    by (auto simp del: upt_Suc dest!: first_some_Some)
  have "take i s = take i (takeWhile p s)"
    using i(2) by (metis append_eq_conv_conj min.absorb1 take_take takeWhile_eq_take)
  then have "\<forall>c\<in>set (take i s). p c" by (metis in_set_takeD set_takeWhileD)
  moreover have "length (take i s) = i" using i(2) length_takeWhile_le [of p s] by simp
  ultimately show thesis using that [of "take i s" "drop i s" qs] i m ps by simp
qed

text \<open>Literal text is matched by itself.\<close>

lemma rmatch_lit:
  "rmatch (lit s @ re) prev (s @ t) =
     map_option ((@) (map (\<lambda>c. [c]) s)) (rmatch re (prev_char prev s) t)"
proof (induction s arbitrary: prev)
  case (Cons c s)
  have "prev_char (Some c) s = prev_char prev (c # s)" by (simp add: prev_char_def)
  with Cons.IH [of "Some c"] show ?case
    by (cases "rmatch re (prev_char prev (c # s)) t") (simp_all add: lit_def)
next
  case Nil
  show ?case by (cases "rmatch re prev t") (simp_all add: lit_def prev_char_def)
qed

lemma rmatch_lit_Some:
  "rmatch (lit s @ re) prev t = Some ps \<Longrightarrow>
   \<exists>u qs. t = s @ u \<and> ps = map (\<lambda>c. [c]) s @ qs \<and> rmatch re (prev_char prev s) u = Some qs"
proof (induction s arbitrary: prev t ps)
  case (Cons c s)
  then obtain t' qs where t: "t = c # t'" and ps: "ps = [c] # qs"
    and m: "rmatch (lit s @ re) (Some c) t' = Some qs"
    by (auto simp: lit_def split: list.splits if_splits)
  from Cons.IH [OF m] t ps show ?case by (auto simp: prev_char_def)
qed (simp add: lit_def prev_char_def)

lemma rmatch_Many_longest:
  assumes "\<forall>c\<in>set x. p c" and "s = [] \<or> \<not> p (hd s)" and "n \<le> length x"
    and "rmatch re (prev_char prev x) s = Some ps"
  shows "rmatch (Many n p # re) prev (x @ s) = Some (x # ps)"
proof -
  have "takeWhile p (x @ s) = x"
    using assms(1,2) by (cases s) (auto simp: takeWhile_append takeWhile_eq_Nil_iff)
  then have "rev [n..<Suc (length (takeWhile p (x @ s)))] = length x # rev [n..<length x]"
    using assms(3) by simp
  with assms(4) show ?thesis by simp
qed

declare rmatch.simps(3) [simp del]

text \<open>The leftmost match is after a part in which none begins.\<close>

lemma rfind_skip:
  assumes "\<And>a b. xs = a @ b \<Longrightarrow> b \<noteq> [] \<Longrightarrow> rmatch re (prev_char prev a) (b @ s) = None"
  shows "rfind re prev (xs @ s) = rfind re (prev_char prev xs) s"
  using assms
proof (induction xs arbitrary: prev)
  case (Cons x xs)
  have "rmatch re prev (x # xs @ s) = None"
    using Cons.prems [of "[]" "x # xs"] by (simp add: prev_char_def)
  moreover have "rfind re (Some x) (xs @ s) = rfind re (prev_char (Some x) xs) s"
  proof (rule Cons.IH)
    fix a b assume "xs = a @ b" and "b \<noteq> []"
    then show "rmatch re (prev_char (Some x) a) (b @ s) = None"
      using Cons.prems [of "x # a" b] by (simp add: prev_char_def split: if_splits)
  qed
  moreover have "prev_char (Some x) xs = prev_char prev (x # xs)" by (simp add: prev_char_def)
  ultimately show ?case by simp
qed (simp add: prev_char_def)

lemma rfind_here: "rmatch re prev s = Some ps \<Longrightarrow> rfind re prev s = Some ps"
  by (cases s) simp_all

end
