(* ===== verification/Logging.thy ===== *)
theory Logging
  imports Regexp "HOL-Library.Word"
begin

unbundle bit_operations_syntax

text \<open>
  \<open>internal/logging/logging.go\<close>: the log levels, and the loggers that \<open>Init\<close> builds:
  the one it returns, with a filter on the level, and the one it hands to the goroutine
  that collects klog's lines (theory \<open>Collector\<close>), without.
\<close>

section \<open>Levels\<close>

definition LevelAll :: string where "LevelAll = ''all''"
definition LevelDebug :: string where "LevelDebug = ''debug''"
definition LevelInfo :: string where "LevelInfo = ''info''"
definition LevelWarn :: string where "LevelWarn = ''warn''"
definition LevelError :: string where "LevelError = ''error''"
definition LevelNone :: string where "LevelNone = ''none''"

lemmas level_defs = LevelAll_def LevelDebug_def LevelInfo_def LevelWarn_def LevelError_def
  LevelNone_def

definition Levels :: "string list" where
  "Levels = [LevelAll, LevelDebug, LevelInfo, LevelWarn, LevelError, LevelNone]"

definition Levels_String :: "string list \<Rightarrow> string" where
  "Levels_String l = Join l '', ''"

text \<open>The levels of go-kit are bits of a byte, and an option is the set of bits that pass its
  filter.\<close>

datatype severity = Debug | Info | Warn | Error

definition level_bit :: "severity \<Rightarrow> 8 word" where
  "level_bit s = (case s of Debug \<Rightarrow> 1 | Info \<Rightarrow> 2 | Warn \<Rightarrow> 4 | Error \<Rightarrow> 8)"

definition AllowDebug :: "8 word" where
  "AllowDebug = level_bit Error OR level_bit Warn OR level_bit Info OR level_bit Debug"

definition AllowAll :: "8 word" where "AllowAll = AllowDebug"

definition AllowInfo :: "8 word" where
  "AllowInfo = level_bit Error OR level_bit Warn OR level_bit Info"

definition AllowWarn :: "8 word" where "AllowWarn = level_bit Error OR level_bit Warn"

definition AllowError :: "8 word" where "AllowError = level_bit Error"

definition AllowNone :: "8 word" where "AllowNone = 0"

lemmas allow_defs = AllowDebug_def AllowAll_def AllowInfo_def AllowWarn_def AllowError_def
  AllowNone_def level_bit_def

definition parseLevel :: "string \<Rightarrow> 8 word res" where
  "parseLevel lvl =
     (if lvl = LevelAll then Inr AllowAll
      else if lvl = LevelDebug then Inr AllowDebug
      else if lvl = LevelInfo then Inr AllowInfo
      else if lvl = LevelWarn then Inr AllowWarn
      else if lvl = LevelError then Inr AllowError
      else if lvl = LevelNone then Inr AllowNone
      else Inl (NewErr (''failed to parse log level: '' @ lvl)))"

section \<open>The logger\<close>

text \<open>A logger on standard output: the filter around it, if any, and whether it adds the time
  and the caller. The collector of klog's lines gets the logger as it is before that.\<close>

record logger =
  allowed :: "8 word option"
  with_ts :: bool
  with_caller :: bool

definition json_logger :: logger where
  "json_logger = \<lparr>allowed = None, with_ts = False, with_caller = False\<rparr>"

definition passes :: "logger \<Rightarrow> severity option \<Rightarrow> bool" where
  "passes l s = (case (allowed l, s) of
     (Some m, Some v) \<Rightarrow> m AND level_bit v \<noteq> 0 | _ \<Rightarrow> True)"

text \<open>\<open>Init\<close>: the logger of the collector it starts, if it got that far, and the logger it
  returns.\<close>

definition logging_Init :: "err option \<Rightarrow> string \<Rightarrow> logger option \<times> logger res" where
  "logging_Init pipeErr lvl =
     (case pipeErr of
        Some e \<Rightarrow> (None, Inl (WrapErr ''creating pipe for glog redirection: '' e))
      | None \<Rightarrow>
          (Some json_logger,
           case parseLevel lvl of
             Inl e \<Rightarrow> Inl e
           | Inr opt \<Rightarrow> Inr (json_logger\<lparr>with_ts := True, allowed := Some opt, with_caller := True\<rparr>)))"

text \<open>The rank of a level name among severities: the lowest that passes.\<close>

definition rank :: "severity \<Rightarrow> nat" where
  "rank s = (case s of Debug \<Rightarrow> 1 | Info \<Rightarrow> 2 | Warn \<Rightarrow> 3 | Error \<Rightarrow> 4)"

text \<open>The mask of the level at position \<open>i\<close> of the list keeps the severities of rank \<open>i\<close>
  and above.\<close>

definition masks :: "8 word list" where
  "masks = [AllowAll, AllowDebug, AllowInfo, AllowWarn, AllowError, AllowNone]"

lemma less6: "i < 6 \<longleftrightarrow> i = 0 \<or> i = 1 \<or> i = 2 \<or> i = 3 \<or> i = 4 \<or> i = (5 :: nat)"
  by auto

lemma masks_rank: "i < 6 \<Longrightarrow> masks ! i AND level_bit s \<noteq> 0 \<longleftrightarrow> i \<le> rank s"
  unfolding less6 by (cases s; elim disjE; simp add: masks_def allow_defs rank_def)

lemma parseLevel_nth: "i < 6 \<Longrightarrow> parseLevel (Levels ! i) = Inr (masks ! i)"
  unfolding less6 by (elim disjE; simp add: parseLevel_def masks_def Levels_def level_defs)

lemma parseLevel_other:
  "lvl \<notin> set Levels \<Longrightarrow> parseLevel lvl = Inl (NewErr (''failed to parse log level: '' @ lvl))"
  by (simp add: parseLevel_def Levels_def)

text \<open>
  When the pipe can be made, the levels the usage text advertises are exactly those
  with which a logger is built, and any other name is refused with an error that repeats
  it. The logger lets a record through exactly when its severity is at or above the level
  of that name in the advertised order (so \<open>all\<close> means the same as \<open>debug\<close>), and a
  record without a level always.
\<close>

lemma levels_threshold:
  "case snd (logging_Init None lvl) of
     Inl e \<Rightarrow> lvl \<notin> set Levels \<and> e = NewErr (''failed to parse log level: '' @ lvl)
   | Inr l \<Rightarrow> (\<exists>i<length Levels. Levels ! i = lvl \<and>
       (\<forall>s. passes l (Some s) = (i \<le> rank s)) \<and> passes l None)"
proof (cases "lvl \<in> set Levels")
  case True
  then obtain i where i: "i < length Levels" "Levels ! i = lvl" by (auto simp: in_set_conv_nth)
  then have i6: "i < 6" by (simp add: Levels_def)
  have "snd (logging_Init None lvl) =
      Inr (json_logger\<lparr>with_ts := True, allowed := Some (masks ! i), with_caller := True\<rparr>)"
    using parseLevel_nth [OF i6] i(2) by (simp add: logging_Init_def)
  then show ?thesis using i masks_rank [OF i6] by (auto simp: passes_def)
next
  case False
  then show ?thesis by (simp add: logging_Init_def parseLevel_other)
qed

end
