(* ===== verification/MonitorMain.thy ===== *)
theory MonitorMain
  imports MonitorEvents Kube Logging
begin

text \<open>
  \<open>monitor/main.go\<close>: the arguments of the monitor program, the set-up of the filters of
  all interfaces, the start of the monitors, and the shutdown.
\<close>

section \<open>Arguments\<close>

definition parseStringsArgs :: "string option \<Rightarrow> string list" where
  "parseStringsArgs arg =
     (case arg of
        None \<Rightarrow> []
      | Some s \<Rightarrow> (if s = [] then [] else map TrimSpace (Split s (CHR '',''))))"

fun atoi_loop :: "string list \<Rightarrow> int list \<Rightarrow> int list res" where
  "atoi_loop [] acc = Inr acc"
| "atoi_loop (s # ss) acc =
     (case Atoi s of Inl e \<Rightarrow> Inl e | Inr port \<Rightarrow> atoi_loop ss (acc @ [port]))"

definition parseIntArgs :: "string option \<Rightarrow> int list res" where
  "parseIntArgs arg =
     (case arg of
        None \<Rightarrow> Inr []
      | Some s \<Rightarrow> (if s = [] then Inr [] else atoi_loop (parseStringsArgs arg) []))"

section \<open>Filters of all interfaces\<close>

fun init_links :: "env \<Rightarrow> int list \<Rightarrow> int list \<Rightarrow> string list \<Rightarrow> hist \<Rightarrow> err option \<times> hist" where
  "init_links E tcp udp [] h = (None, h)"
| "init_links E tcp udp (linkName # rest) h =
     (case InitInterfaceForEAPTraffic E linkName tcp udp h of
        (Some e, h1) \<Rightarrow> (Some e, h1)
      | (None, h1) \<Rightarrow> init_links E tcp udp rest h1)"

fun initInterfaces :: "env \<Rightarrow> int list \<Rightarrow> int list \<Rightarrow> string list \<Rightarrow> hist \<Rightarrow> err option \<times> hist" where
  "initInterfaces E tcp udp [] h = (None, h)"
| "initInterfaces E tcp udp (iface # rest) h =
     (case GetAssociatedInterfaces E iface h of
        (Inl e, h1) \<Rightarrow> (Some e, h1)
      | (Inr pfvfs, h1) \<Rightarrow>
          (case init_links E tcp udp pfvfs h1 of
             (Some e, h2) \<Rightarrow> (Some e, h2)
           | (None, h2) \<Rightarrow> initInterfaces E tcp udp rest h2))"

fun reset_links :: "env \<Rightarrow> string list \<Rightarrow> hist \<Rightarrow> err option \<times> hist" where
  "reset_links E [] h = (None, h)"
| "reset_links E (linkName # rest) h =
     (case ResetInterface E linkName h of
        (Some e, h1) \<Rightarrow> (Some e, h1)
      | (None, h1) \<Rightarrow> reset_links E rest h1)"

fun resetInterfaces :: "env \<Rightarrow> string list \<Rightarrow> hist \<Rightarrow> err option \<times> hist" where
  "resetInterfaces E [] h = (None, h)"
| "resetInterfaces E (iface # rest) h =
     (case GetAssociatedInterfaces E iface h of
        (Inl e, h1) \<Rightarrow> (Some e, h1)
      | (Inr pfvfs, h1) \<Rightarrow>
          (case reset_links E pfvfs h1 of
             (Some e, h2) \<Rightarrow> (Some e, h2)
           | (None, h2) \<Rightarrow> resetInterfaces E rest h2))"

section \<open>The metrics endpoint\<close>

text \<open>The patterns of the multiplexer and their handlers; a request goes to the handler of
  its path, or else of the longest pattern that ends with a slash and begins the path.\<close>

definition prom_routes :: "bool \<Rightarrow> (string \<times> string) list" where
  "prom_routes enablePprof =
     (''/metrics'', ''promhttp.Handler'') #
     (if enablePprof
      then [(''/debug/pprof/'', ''pprof.Index''), (''/debug/pprof/cmdline'', ''pprof.Cmdline''),
            (''/debug/pprof/profile'', ''pprof.Profile''), (''/debug/pprof/symbol'', ''pprof.Symbol''),
            (''/debug/pprof/trace'', ''pprof.Trace'')]
      else [])"

definition mux_handler :: "(string \<times> string) list \<Rightarrow> string \<Rightarrow> string option" where
  "mux_handler rs path =
     (case map_of rs path of
        Some f \<Rightarrow> Some f
      | None \<Rightarrow>
          (case sort_key (\<lambda>(p, f). - int (length p))
                  (filter (\<lambda>(p, f). p \<noteq> [] \<and> last p = CHR ''/'' \<and> HasPrefix path p) rs) of
             [] \<Rightarrow> None | (p, f) # _ \<Rightarrow> Some f))"

definition JoinHostPort :: "string \<Rightarrow> string \<Rightarrow> string" where
  "JoinHostPort host port =
     (if CHR '':'' \<in> set host then ''['' @ host @ '']:'' @ port else host @ '':'' @ port)"

text \<open>The address served, with its routes, or the error of listening there.\<close>

definition registerPromHandler ::
  "(string \<Rightarrow> err option) \<Rightarrow> string \<Rightarrow> int \<Rightarrow> bool \<Rightarrow> (string \<times> (string \<times> string) list) res" where
  "registerPromHandler listen host port enablePprof =
     (let addr = JoinHostPort host (Itoa port)
      in case listen addr of Some e \<Rightarrow> Inl e | None \<Rightarrow> Inr (addr, prom_routes enablePprof))"

text \<open>The metrics are always served; the profiles only when asked for.\<close>

lemma prom_metrics: "mux_handler (prom_routes b) ''/metrics'' = Some ''promhttp.Handler''"
  by (simp add: mux_handler_def prom_routes_def)

lemma prom_no_pprof:
  "path \<noteq> ''/metrics'' \<Longrightarrow> mux_handler (prom_routes False) path = None"
  by (simp add: mux_handler_def prom_routes_def)

lemma prom_pprof:
  "mux_handler (prom_routes True) (''/debug/pprof/'' @ p) =
     Some (if p = ''cmdline'' then ''pprof.Cmdline'' else if p = ''profile'' then ''pprof.Profile''
           else if p = ''symbol'' then ''pprof.Symbol'' else if p = ''trace'' then ''pprof.Trace''
           else ''pprof.Index'')"
  by (simp add: mux_handler_def prom_routes_def)

section \<open>The program\<close>

text \<open>The flags that matter here, each with its environment variable as default.\<close>

record Flags =
  f_interfaces :: string
  f_tcp :: string
  f_udp :: string
  f_logLevel :: string

text \<open>What the program does once it is up: it runs until a signal, or has left with exit
  code 1, or has panicked, or hangs in the start of a monitor.\<close>

datatype startup =
    Exit1 string
  | Panicked
  | Hangs
  | Serving "string list" "InterfaceMonitor list" hist

definition monitor_config :: "NamespacedName \<Rightarrow> string \<Rightarrow> MonitorConfig" where
  "monitor_config key intf =
     NewInterfaceMonitor intf [\<lambda>m. m\<lparr>HasClient := True, AuthNsName := key\<rparr>]"

text \<open>An interface whose monitor does not start is skipped.\<close>

fun start_monitors ::
  "env \<Rightarrow> NamespacedName \<Rightarrow> string list \<Rightarrow> hist \<Rightarrow> (InterfaceMonitor list \<times> hist) option" where
  "start_monitors E key [] h = Some ([], h)"
| "start_monitors E key (intf # rest) h =
     (case StartMonitor E (monitor_config key intf) h of
        None \<Rightarrow> None
      | Some (Inl e, h1) \<Rightarrow> start_monitors E key rest (CLogError ''start monitor on interface failed'' e # h1)
      | Some (Inr m, h1) \<Rightarrow>
          (case start_monitors E key rest h1 of
             None \<Rightarrow> None
           | Some (ms, h2) \<Rightarrow> Some (m # ms, h2)))"

definition main_startup ::
  "env \<Rightarrow> (string \<Rightarrow> string res) \<Rightarrow> err option \<Rightarrow> kube \<Rightarrow> Flags \<Rightarrow> startup" where
  "main_startup E open_file pipeErr K fl =
     (if isl (snd (logging_Init pipeErr (f_logLevel fl))) then Exit1 ''failed to initialize logging''
      else if f_interfaces fl = [] then Exit1 ''IFACES env variable must be set''
      else let ifaces = parseStringsArgs (Some (f_interfaces fl)) in
        case parseIntArgs (Some (f_tcp fl)) of
          Inl e \<Rightarrow> Exit1 ''UNPROTECTED_TCP_PORTS env variable must be set properly''
        | Inr tcp \<Rightarrow>
            (case parseIntArgs (Some (f_udp fl)) of
               Inl e \<Rightarrow> Exit1 ''UNPROTECTED_UDP_PORTS env variable must be set properly''
             | Inr udp \<Rightarrow>
                 (case GetAuthNamespacedName open_file of
                    Panic \<Rightarrow> Panicked
                  | Ret (Inl e) \<Rightarrow> Exit1 ''auth retrieval failed''
                  | Ret (Inr key) \<Rightarrow>
                      (case GetClient K of
                         Panic \<Rightarrow> Panicked
                       | Ret (Inl e) \<Rightarrow> Exit1 ''retrieve client''
                       | Ret (Inr k8Client) \<Rightarrow>
                           (case EventRecorder K of
                              Panic \<Rightarrow> Panicked
                            | Ret (Inl e) \<Rightarrow> Exit1 ''retrieve event recorder''
                            | Ret (Inr eventRecorder) \<Rightarrow>
                                (case initInterfaces E tcp udp ifaces [] of
                                   (Some e, h) \<Rightarrow> Exit1 ''init interface''
                                 | (None, h) \<Rightarrow>
                                     (case start_monitors E key ifaces h of
                                        None \<Rightarrow> Hangs
                                      | Some (ms, h1) \<Rightarrow> Serving ifaces ms h1)))))))"

fun stop_monitors :: "env \<Rightarrow> InterfaceMonitor list \<Rightarrow> hist \<Rightarrow> InterfaceMonitor list \<times> hist" where
  "stop_monitors E [] h = ([], h)"
| "stop_monitors E (m # ms) h =
     (case StopMonitor E m h of (m', h1) \<Rightarrow>
        (case stop_monitors E ms h1 of (ms', h2) \<Rightarrow> (m' # ms', h2)))"

definition main_shutdown :: "env \<Rightarrow> string list \<Rightarrow> InterfaceMonitor list \<Rightarrow> hist \<Rightarrow> hist" where
  "main_shutdown E ifaces ms h =
     (case stop_monitors E ms h of (ms', h1) \<Rightarrow>
        (case resetInterfaces E ifaces h1 of
           (None, h2) \<Rightarrow> h2
         | (Some e, h2) \<Rightarrow> CLogError ''reset interfaces'' e # h2))"

section \<open>From the operator to the monitor\<close>

text \<open>What the operator puts into \<open>IFACES\<close> and the monitor takes out of it.\<close>

definition iface_ok :: "string \<Rightarrow> bool" where
  "iface_ok s = (\<forall>c\<in>set s. c \<noteq> CHR '','' \<and> \<not> isSpace c)"

lemma parseStrings_Join:
  assumes "\<forall>i\<in>set ifs. iface_ok i" and "ifs \<noteq> []" and "ifs \<noteq> [[]]"
  shows "parseStringsArgs (Some (Join ifs '','')) = ifs"
proof -
  have "Join ifs '','' \<noteq> []" using Join_eq_Nil assms(2,3) by blast
  moreover have "Split (Join ifs '','') (CHR '','') = ifs"
    using assms(1,2) by (intro Split_Join) (auto simp: iface_ok_def)
  moreover have "map TrimSpace ifs = ifs"
    using assms(1) by (intro map_idI TrimSpace_no_space) (auto simp: iface_ok_def)
  ultimately show ?thesis by (simp add: parseStringsArgs_def)
qed

lemma write_ports_more:
  "buf \<noteq> [] \<Longrightarrow> write_ports buf ps = buf @ concat (map (\<lambda>p. CHR '' '' # Itoa p) ps)"
  by (induction ps arbitrary: buf) simp_all

lemma port_list_string:
  "write_ports [] (p # q # ps) =
     Itoa p @ CHR '' '' # concat (map (\<lambda>p. Itoa p @ '' '') (butlast (q # ps))) @ Itoa (last (q # ps))"
proof -
  have "concat (map (\<lambda>p. CHR '' '' # Itoa p) (q # ps)) =
      CHR '' '' # concat (map (\<lambda>p. Itoa p @ '' '') (butlast (q # ps))) @ Itoa (last (q # ps))"
    by (induction ps arbitrary: q) auto
  then show ?thesis using write_ports_more [of "Itoa p" "q # ps"] by simp
qed

lemma Itoa_last_no_space: "\<not> isSpace (last (Itoa i))"
  using Itoa_no_space [of i] last_in_set [of "Itoa i"] by simp

lemma Itoa_hd_no_space: "\<not> isSpace (hd (Itoa i))"
  using Itoa_no_space [of i] hd_in_set [of "Itoa i"] by simp

text \<open>Several ports are written as one word list, which is not a number.\<close>

lemma port_list_refused:
  "\<exists>e. parseIntArgs (Some (write_ports [] (p # q # ps))) = Inl e"
proof -
  let ?m = "concat (map (\<lambda>p. Itoa p @ '' '') (butlast (q # ps)))"
  let ?s = "Itoa p @ CHR '' '' # ?m @ Itoa (last (q # ps))"
  have comma: "CHR '','' \<notin> set ?s" using Itoa_no_comma by auto
  have "?s \<noteq> []" by simp
  moreover have "hd ?s = hd (Itoa p)" by simp
  moreover have "last ?s = last (Itoa (last (q # ps)))" by (simp add: last_append)
  ultimately have trim: "TrimSpace ?s = ?s"
    using Itoa_hd_no_space Itoa_last_no_space by (intro TrimSpace_id) simp_all
  have "parseStringsArgs (Some ?s) = [?s]"
    using comma trim by (simp add: parseStringsArgs_def Split_no_sep)
  moreover obtain e where "Atoi ?s = Inl e" using Atoi_blank [of ?s] by auto
  ultimately have "parseIntArgs (Some ?s) = Inl e" by (simp add: parseIntArgs_def)
  then show ?thesis unfolding port_list_string by blast
qed

lemma port_arg:
  assumes "\<forall>p\<in>set ps. in_int64 p"
  shows "if length ps \<le> 1 then parseIntArgs (Some (write_ports [] ps)) = Inr ps
    else \<exists>e. parseIntArgs (Some (write_ports [] ps)) = Inl e"
proof (cases ps rule: remdups_adj.cases)
  case (2 p)
  with assms show ?thesis
    by (simp add: parseIntArgs_def parseStringsArgs_def Split_no_sep Itoa_no_comma Atoi_Itoa_ok)
next
  case (3 p q ps')
  then show ?thesis using port_list_refused [of p q ps'] by simp
qed (simp add: parseIntArgs_def)

text \<open>The ports of a spec.\<close>

definition spec_ports :: "AuthenticatorSpec \<Rightarrow> Ports" where
  "spec_ports spec = (case spec_TrafficControl spec of None \<Rightarrow> \<lparr>Tcp = [], Udp = []\<rparr>
     | Some tc \<Rightarrow> (case UnprotectedPorts tc of None \<Rightarrow> \<lparr>Tcp = [], Udp = []\<rparr> | Some p \<Rightarrow> p))"

lemma parsePorts_spec:
  "parsePorts g = (write_ports [] (Tcp (spec_ports (a_Spec (a11r g)))),
     write_ports [] (Udp (spec_ports (a_Spec (a11r g)))))"
  by (simp add: parsePorts_def spec_ports_def split: option.split)

text \<open>The environment of a container, as the flags' defaults read it.\<close>

fun getenv :: "EnvVar list \<Rightarrow> string \<Rightarrow> string" where
  "getenv [] n = []"
| "getenv (EnvValue k v # es) n = (if k = n then v else getenv es n)"
| "getenv (EnvField k f # es) n = getenv es n"

definition flags_of :: "Container \<Rightarrow> Flags" where
  "flags_of c = \<lparr>f_interfaces = getenv (Env c) ''IFACES'',
     f_tcp = getenv (Env c) ''UNPROTECTED_TCP_PORTS'',
     f_udp = getenv (Env c) ''UNPROTECTED_UDP_PORTS'', f_logLevel = ''info''\<rparr>"

text \<open>Every port of the spec is an \<open>int\<close> of the program.\<close>

definition ports_ok :: "Ports \<Rightarrow> bool" where
  "ports_ok ps = (\<forall>p\<in>set (Tcp ps @ Udp ps). in_int64 p)"

lemma container_flags:
  assumes "c \<in> set (Containers (template_Spec (ds_Spec (fst (Daemonset g)))))"
  shows "f_interfaces (flags_of c) = Join (spec_Interfaces (a_Spec (a11r g))) '',''"
    "f_tcp (flags_of c) = write_ports [] (Tcp (spec_ports (a_Spec (a11r g))))"
    "f_udp (flags_of c) = write_ports [] (Udp (spec_ports (a_Spec (a11r g))))"
    "f_logLevel (flags_of c) = ''info''"
  using assms unfolding Daemonset_sel
  by (auto simp: flags_of_def mk_container_def port_env_def parsePorts_spec)

text \<open>
  C21. The monitor container that the operator generates gets its configuration across:
  it watches exactly the interfaces of the spec, in order. For unprotected ports this
  holds for at most one port per protocol; with two or more the operator writes them
  separated by blanks, which the monitor, splitting at commas, refuses as a number, and
  the monitor leaves with exit code 1 before it sets up anything.
\<close>

theorem operator_to_monitor_args:
  assumes "c \<in> set (Containers (template_Spec (ds_Spec (fst (Daemonset g)))))"
    and "\<forall>i\<in>set (spec_Interfaces (a_Spec (a11r g))). iface_ok i"
    and "spec_Interfaces (a_Spec (a11r g)) \<notin> {[], [[]]}"
    and "spec_ports (a_Spec (a11r g)) = ps" and "ports_ok ps"
  shows "parseStringsArgs (Some (f_interfaces (flags_of c))) = spec_Interfaces (a_Spec (a11r g)) \<and>
    (length (Tcp ps) \<le> 1 \<and> length (Udp ps) \<le> 1 \<longrightarrow>
       parseIntArgs (Some (f_tcp (flags_of c))) = Inr (Tcp ps) \<and>
       parseIntArgs (Some (f_udp (flags_of c))) = Inr (Udp ps)) \<and>
    (length (Tcp ps) \<ge> 2 \<or> length (Udp ps) \<ge> 2 \<longrightarrow>
       (\<exists>msg. main_startup E open_file pe K (flags_of c) = Exit1 msg))"
proof -
  have env: "f_interfaces (flags_of c) = Join (spec_Interfaces (a_Spec (a11r g))) '',''"
    "f_tcp (flags_of c) = write_ports [] (Tcp ps)" "f_udp (flags_of c) = write_ports [] (Udp ps)"
    "f_logLevel (flags_of c) = ''info''"
    using container_flags [OF assms(1)] assms(4) by simp_all
  have ok: "\<forall>p\<in>set (Tcp ps). in_int64 p" "\<forall>p\<in>set (Udp ps). in_int64 p"
    using assms(5) by (simp_all add: ports_ok_def)
  note args = port_arg [OF ok(1)] port_arg [OF ok(2)]
  have "\<exists>msg. main_startup E open_file pe K (flags_of c) = Exit1 msg"
    if "length (Tcp ps) \<ge> 2 \<or> length (Udp ps) \<ge> 2"
    using that args by (auto simp: main_startup_def env Let_def split: if_splits sum.splits)
  moreover have "parseStringsArgs (Some (f_interfaces (flags_of c))) = spec_Interfaces (a_Spec (a11r g))"
    using assms(2,3) parseStrings_Join by (simp add: env)
  ultimately show ?thesis using args by (simp add: env)
qed

theorem operator_to_monitor_args_witness:
  "\<exists>c\<in>set (Containers (template_Spec (ds_Spec (fst (Daemonset g1))))).
     parseStringsArgs (Some (f_interfaces (flags_of c))) = [''eth0'', ''eth1''] \<and>
     (\<exists>msg. main_startup (calm [] a0) (\<lambda>p. Inl NotFound) None kube0 (flags_of c) = Exit1 msg)"
proof -
  let ?cs = "Containers (template_Spec (ds_Spec (fst (Daemonset g1))))"
  have c: "hd ?cs \<in> set ?cs" by (simp add: Daemonset_sel)
  have ifs: "spec_Interfaces (a_Spec (a11r g1)) = [''eth0'', ''eth1'']"
    by (simp add: g1_def auth1_def spec1_def)
  have "spec_ports (a_Spec (a11r g1)) = \<lparr>Tcp = [], Udp = [319, 320]\<rparr>"
    by (simp add: spec_ports_def g1_def auth1_def spec1_def)
  moreover have "ports_ok \<lparr>Tcp = [], Udp = [319, 320]\<rparr>"
    by (simp add: ports_ok_def in_int64_def int64_min_def int64_max_def)
  moreover have "\<forall>i\<in>set (spec_Interfaces (a_Spec (a11r g1))). iface_ok i"
    by (simp add: ifs iface_ok_def isSpace_def)
  ultimately show ?thesis
    using operator_to_monitor_args [OF c, of _ "calm [] a0" "\<lambda>p. Inl NotFound" None kube0] c ifs
    by fastforce
qed

section \<open>Start and stop of the whole program\<close>

lemma runs_append: "runs (a @ b) = runs a @ runs b"
  by (induction a rule: runs.induct) auto

lemma only_runs_extend: "only P h' h \<Longrightarrow> \<exists>cs. runs h' = cs @ runs h"
  by (auto simp: only_def runs_append)

lemma ResetInterface_only [frame]: "only is_run_call (snd (ResetInterface E n h)) h"
  by (auto simp: ResetInterface_def go_defs Let_def split: option.splits)

lemma run_each_only [frame]: "only is_run_call (run_each E cmds h) h"
  by (induction E cmds h rule: run_each.induct) (auto simp: Run_def Let_def intro: only_Cons)

lemma UnprotectPorts_only [frame]:
  "only is_run_call (snd (UnprotectPorts E n p ports h)) h"
  "only is_run_call (snd (UnprotectIPv6Ports E n ports h)) h"
  by (auto simp: UnprotectPorts_def UnprotectIPv6Ports_def LookPath_def split: option.splits
      intro: only_Cons [OF run_each_only])

lemma unprotect_all_only [frame]: "only is_run_call (snd (unprotect_all E n tcp udp h)) h"
  using UnprotectPorts_only
  by (auto simp: unprotect_all_def Let_def split: prod.splits option.splits)
    (metis only_trans snd_conv)+

text \<open>An interface is closed in a history: the queue and the catch-all drop were installed.\<close>

definition closed :: "hist \<Rightarrow> string \<Rightarrow> bool" where
  "closed h n = ((qdisc_cmd n, None) \<in> set (runs h) \<and> (drop_cmd n, None) \<in> set (runs h))"

lemma closed_mono: "only P h' h \<Longrightarrow> closed h n \<Longrightarrow> closed h' n"
  using only_runs_extend [of P h' h] by (auto simp: closed_def)

lemma InitInterface_closed:
  assumes "InitInterfaceForEAPTraffic E n tcp udp h = (r, h')"
  shows "only is_run_call h' h \<and> (r = None \<longrightarrow> closed h' n)"
proof -
  obtain r1 h1 where h1: "ResetInterface E n h = (r1, h1)" by fastforce
  have o1: "only is_run_call h1 h" using ResetInterface_only [of E n h] h1 by simp
  let ?q = "env_Run E h1 (qdisc_cmd n)" and ?h2 = "CRun (qdisc_cmd n) None # h1"
  let ?d = "env_Run E ?h2 (drop_cmd n)" and ?h3 = "CRun (drop_cmd n) None # CRun (qdisc_cmd n) None # h1"
  show ?thesis
  proof (cases "r1 = None \<and> ?q = None \<and> ?d = None")
    case True
    obtain b h4 where h4: "IsSriovPF E n ?h3 = (b, h4)" by fastforce
    have o4: "only is_run_call h4 ?h3" using only_read_run [OF IsSriovPF_only, of E n ?h3] h4 by simp
    have "only is_run_call h' h4"
      using assms True h1 h4 unprotect_all_only [of E n tcp udp]
      by (auto simp: InitInterfaceForEAPTraffic_def Run_def Let_def split: bool.splits option.splits)
        (metis is_run_call.simps(1) only_Cons snd_conv)
    then have o: "only is_run_call h' ?h3" using o4 by (rule only_trans)
    then have "closed h' n" by (rule closed_mono) (simp add: closed_def)
    moreover have "only is_run_call h' h"
      using only_trans [OF only_Cons [OF only_Cons [OF o]] o1] by simp
    ultimately show ?thesis by blast
  next
    case False
    then show ?thesis
      using assms h1 o1
      by (auto simp: InitInterfaceForEAPTraffic_def Run_def Let_def split: option.splits)
  qed
qed

lemma init_links_closed:
  "init_links E tcp udp ls h = (r, h') \<Longrightarrow>
     only is_run_call h' h \<and> (r = None \<longrightarrow> (\<forall>n\<in>set ls. closed h' n))"
proof (induction ls arbitrary: h)
  case (Cons n ls)
  obtain r1 h1 where h1: "InitInterfaceForEAPTraffic E n tcp udp h = (r1, h1)" by fastforce
  note i = InitInterface_closed [OF h1]
  show ?case
  proof (cases r1)
    case None
    with Cons.prems h1 have "init_links E tcp udp ls h1 = (r, h')" by simp
    from Cons.IH [OF this] None i show ?thesis by (auto intro: only_trans closed_mono)
  next
    case (Some e)
    with Cons.prems h1 i show ?thesis by auto
  qed
qed simp

lemma initInterfaces_closed:
  "initInterfaces E tcp udp ifs h = (r, h') \<Longrightarrow>
     only is_run_call h' h \<and> (r = None \<longrightarrow> (\<forall>i\<in>set ifs. \<exists>g ls g'.
       GetAssociatedInterfaces E i g = (Inr ls, g') \<and> (\<forall>n\<in>set ls. closed h' n)))"
proof (induction ifs arbitrary: h)
  case (Cons i ifs)
  obtain a h1 where a: "GetAssociatedInterfaces E i h = (a, h1)" by fastforce
  have o1: "only is_run_call h1 h"
    using only_read_run [OF GetAssociatedInterfaces_only, of E i h] a by simp
  show ?case
  proof (cases a)
    case (Inl e)
    with Cons.prems a o1 show ?thesis by auto
  next
    case (Inr ls)
    obtain r2 h2 where h2: "init_links E tcp udp ls h1 = (r2, h2)" by fastforce
    note l = init_links_closed [OF h2]
    show ?thesis
    proof (cases r2)
      case None
      with Cons.prems a Inr h2 have rest: "initInterfaces E tcp udp ifs h2 = (r, h')" by simp
      note IH = Cons.IH [OF rest]
      have "\<forall>n\<in>set ls. closed h' n" using l IH None by (auto intro: closed_mono)
      then show ?thesis using IH l o1 a Inr by (auto intro: only_trans)
    next
      case (Some e)
      with Cons.prems a Inr h2 l o1 show ?thesis by (auto intro: only_trans)
    qed
  qed
qed simp

text \<open>Starting monitors only adds calls, none of them a filter command.\<close>

lemma attach_only: "attachHostapd E h = Some (r, h') \<Longrightarrow> only is_other h' h"
proof -
  have "only is_other (snd y) h" if "attachHostapd E h = Some y" for y
  proof (rule attachHostapd.raw_induct [OF _ that], goal_cases)
    case (1 f E h y)
    show ?case
    proof (cases "env_Write E h attachCommand = Some NetTimeout")
      case True
      with 1(2) have "f E (CWrite attachCommand (Some NetTimeout) # h) = Some y"
        by (simp add: IsTimeout_def)
      from only_Cons [OF 1(1) [OF this]] show ?thesis by simp
    next
      case False
      with 1(2) show ?thesis
        by (auto simp: IsTimeout_def split: option.splits if_splits)
    qed
  qed
  then show "attachHostapd E h = Some (r, h') \<Longrightarrow> only is_other h' h" by force
qed

text \<open>Calls that set up VFs of one PF only.\<close>

fun vf_of :: "string \<Rightarrow> call \<Rightarrow> bool" where
  "vf_of n (CLinkSetVfVlan n' i v r) = (n' = n)"
| "vf_of n (CLinkSetVfState n' i v r) = (n' = n)"
| "vf_of n (CRun cmd r) = False"
| "vf_of n c = True"

lemma vf_of_frame:
  assumes "only (vf_of n) h' h" and "n' \<noteq> n"
  shows "vf_vlan h' n' i = vf_vlan h n' i \<and> vf_state h' n' i = vf_state h n' i"
proof -
  have "vf_vlan (c # g) n' i = vf_vlan g n' i \<and> vf_state (c # g) n' i = vf_state g n' i"
    if "vf_of n c" for c g using that assms(2) by (cases c) auto
  then show ?thesis
    using only_induct [OF assms(1), of "\<lambda>h. vf_vlan h n' i"]
      only_induct [OF assms(1), of "\<lambda>h. vf_state h n' i"] by blast
qed

lemma vf_of_other: "only is_other h' h \<Longrightarrow> only (vf_of n) h' h"
  by (erule only_mono) (auto elim!: is_other.elims)

lemma vf_of_read: "only is_read h' h \<Longrightarrow> only (vf_of n) h' h"
  by (erule only_mono) (auto elim!: is_read.elims)

lemma configure_one_vf_of:
  "names_ok E \<Longrightarrow> only (vf_of (pf_Name pf)) (snd (ConfigureVlanState E pf vf h)) h"
  by (auto simp: ConfigureVlanState_def go_defs Let_def names_ok_def split: sum.splits option.splits)

lemma configure_vf_of:
  assumes "names_ok E" shows "only (vf_of (pf_Name pf)) (snd (ConfigureVlanStateForVFs E pf h)) h"
proof -
  note one = configure_one_vf_of [OF assms, of pf]
  have "only (vf_of (pf_Name pf)) (snd (configure_loop E pf vfs h)) h" for vfs h
  proof (induction vfs arbitrary: h)
    case (Cons vf vfs)
    show ?case
      using one [of vf h] only_trans [OF Cons]
      by (cases "ConfigureVlanState E pf vf h") (auto split: option.splits)
  qed simp
  then show ?thesis by (simp add: ConfigureVlanStateForVFs_def)
qed

lemma start_setup_vf_of:
  assumes "start_setup E c h = (x, h')" and "names_ok E"
  shows "only (vf_of (IfName c)) h' h \<and> (\<forall>m. x = Inr m \<longrightarrow> vfs_set h' (PfInfo m))"
proof -
  let ?h2 = "CDial (filepath_Join [hostapdSocketDir, IfName c]) None # CRemove # CTempFile None # h"
  obtain a h3 where a: "GetSriovPFInfo E (IfName c) ?h2 = (a, h3)" by fastforce
  then have o3: "only (vf_of (IfName c)) h3 h"
    by (auto simp: GetSriovPFInfo_def LinkByName_def split: sum.splits)
  show ?thesis
  proof (cases "env_TempFile E h = None \<and> env_Dial E (CRemove # CTempFile None # h)
      (filepath_Join [hostapdSocketDir, IfName c]) = None \<and> (\<exists>pf. a = Inr pf)")
    case True
    then obtain pf where pf: "a = Inr pf" by blast
    note f = GetSriovPFInfo_fields [of E "IfName c" ?h2 pf h3]
    obtain r h4 where h4: "ConfigureVlanStateForVFs E pf h3 = (r, h4)" by fastforce
    have o4: "only (vf_of (IfName c)) h4 h3"
      using configure_vf_of [OF assms(2), of pf h3] f a pf h4 by simp
    have "vfs_set h4 pf" if "r = None" using configure_vfs_set [OF _ assms(2)] f a pf h4 that by blast
    then have "r = None \<Longrightarrow> vfs_set (CSubscribe n # h4) pf" for n by (simp add: vfs_set_def)
    with assms(1) True pf a h4 only_trans [OF o4 o3] show ?thesis
      by (auto simp: start_setup_def TempFile_def DialUnix_def Let_def MonitorConfig.defs
          split: option.splits)
  next
    case False
    with assms(1) a o3 show ?thesis
      by (cases a) (auto simp: start_setup_def TempFile_def DialUnix_def Let_def split: option.splits)
  qed
qed

lemma stop_restore_vf_of:
  "names_ok E \<Longrightarrow> only (vf_of (pf_Name (PfInfo m))) (snd (stop_restore E m h)) h"
  using configure_vf_of [of E "(PfInfo m)\<lparr>Authenticated := True\<rparr>" h]
  by (auto simp: stop_restore_def Let_def split: prod.splits option.splits)

lemma StopMonitor_vf_of:
  assumes "names_ok E" shows "only (vf_of (pf_Name (PfInfo m))) (snd (StopMonitor E m h)) h"
proof -
  have "only (vf_of (pf_Name (PfInfo m))) (snd (stop_restore E m h)) h"
    by (rule stop_restore_vf_of [OF assms])
  then show ?thesis
    by (auto simp: StopMonitor_def stop_close_def go_defs Let_def split: prod.splits option.splits)
qed

lemma StartMonitor_vf_of:
  assumes "StartMonitor E c h = Some (x, h')" and "names_ok E"
  shows "only (vf_of (IfName c)) h' h \<and>
    (\<forall>m. x = Inr m \<longrightarrow> vfs_set h' (PfInfo m) \<and> mon_ok m \<and> clients m = {} \<and> IfName m = IfName c \<and>
      pf_Name (PfInfo m) = IfName c)"
proof -
  obtain y h1 where h1: "start_setup E c h = (y, h1)" by fastforce
  note s = start_setup_vf_of [OF h1 assms(2)]
  show ?thesis
  proof (cases y)
    case (Inl e)
    with assms(1) h1 s show ?thesis by (auto simp: StartMonitor_def)
  next
    case (Inr m)
    note ok = start_setup_ok [OF h1 [unfolded Inr]]
    obtain r h2 where h2: "attachHostapd E h1 = Some (r, h2)"
      using assms(1) h1 Inr by (auto simp: StartMonitor_def split: option.splits)
    note o2 = attach_only [OF h2]
    show ?thesis
    proof (cases r)
      case None
      let ?h3 = "snd (writeCommand E statusCommand h2)"
      have o3: "only is_other ?h3 h2" by (simp add: writeCommand_def ConnWrite_def Let_def)
      have x: "x = Inr m" "h' = snd (updateInterfaceStatus E m ?h3)"
        using assms(1) h1 Inr h2 None by (auto simp: StartMonitor_def Let_def)
      then have o: "only is_other h' h1"
        using only_trans [OF updateInterfaceStatus_other only_trans [OF o3 o2]] by simp
      have "vfs_set h' (PfInfo m)"
        using s Inr o by (simp add: vfs_set_def only_other_vf_vlan only_other_vf_state)
      with x ok s only_trans [OF vf_of_other [OF o]] show ?thesis by (auto simp: mon_ok_def)
    next
      case (Some e)
      with assms(1) h1 Inr h2 have "x = Inl e" "h' = snd (StopMonitor E m h2)"
        by (auto simp: StartMonitor_def)
      then show ?thesis
        using only_trans [OF StopMonitor_vf_of [OF assms(2), of m h2]] ok s
          only_trans [OF vf_of_other [OF o2]] by auto
    qed
  qed
qed

text \<open>A started monitor has the configuration it was made with.\<close>

lemma StartMonitor_config:
  assumes "StartMonitor E c h = Some (Inr m, h')"
  shows "IfName m = IfName c \<and> HasClient m = HasClient c \<and> AuthNsName m = AuthNsName c"
  using assms
  by (auto simp: StartMonitor_def start_setup_def Let_def MonitorConfig.defs
      split: prod.splits option.splits sum.splits)

lemma start_monitors_config:
  "start_monitors E key ifs h = Some (ms, h') \<Longrightarrow>
     \<forall>m\<in>set ms. IfName m \<in> set ifs \<and> HasClient m \<and> AuthNsName m = key"
proof (induction ifs arbitrary: h ms)
  case (Cons intf rest)
  have c: "IfName m = intf \<and> HasClient m \<and> AuthNsName m = key"
    if "StartMonitor E (monitor_config key intf) h = Some (Inr m, h1)" for m h1
    using StartMonitor_config [OF that] by (simp add: monitor_config_def NewInterfaceMonitor_def)
  from Cons.prems show ?case
    by (auto split: option.splits sum.splits prod.splits dest: c dest!: Cons.IH)
qed simp

lemma vf_of_runs: "only (vf_of n) h' h \<Longrightarrow> runs h' = runs h"
  by (erule only_induct) (auto elim!: vf_of.elims)

text \<open>A PF that no later start touches keeps the set-up of its VFs.\<close>

lemma start_monitors_sound:
  assumes "start_monitors E key ifs h = Some (ms, h')" and "names_ok E" and "distinct ifs"
  shows "runs h' = runs h \<and>
    (\<forall>n i. n \<notin> set ifs \<longrightarrow> vf_vlan h' n i = vf_vlan h n i \<and> vf_state h' n i = vf_state h n i) \<and>
    (\<forall>m\<in>set ms. IfName m \<in> set ifs \<and> mon_ok m \<and> clients m = {} \<and> vfs_set h' (PfInfo m))"
  using assms(1,3)
proof (induction ifs arbitrary: h ms)
  case (Cons intf rest)
  obtain x h1 where x: "StartMonitor E (monitor_config key intf) h = Some (x, h1)"
    using Cons.prems(1) by (auto split: option.splits)
  have name: "IfName (monitor_config key intf) = intf"
    by (simp add: monitor_config_def NewInterfaceMonitor_def)
  note s = StartMonitor_vf_of [OF x assms(2), unfolded name]
  have r1: "runs h1 = runs h" using s vf_of_runs by blast
  have f1: "vf_vlan h1 n i = vf_vlan h n i \<and> vf_state h1 n i = vf_state h n i" if "n \<noteq> intf" for n i
    using vf_of_frame [of intf h1 h] s that by blast
  show ?case
  proof (cases x)
    case (Inl e)
    let ?h1 = "CLogError ''start monitor on interface failed'' e # h1"
    have rest: "start_monitors E key rest ?h1 = Some (ms, h')" using Cons.prems(1) x Inl by simp
    from Cons.IH [OF rest] Cons.prems(2) r1 f1 show ?thesis by auto
  next
    case (Inr m)
    then obtain ms' where rest: "start_monitors E key rest h1 = Some (ms', h')" and ms: "ms = m # ms'"
      using Cons.prems(1) x by (auto split: option.splits)
    have "distinct rest" and new: "intf \<notin> set rest" using Cons.prems(2) by simp_all
    note IH = Cons.IH [OF rest this(1)]
    have "vfs_set h' (PfInfo m)" using s Inr IH new by (auto simp: vfs_set_def)
    with IH s Inr ms r1 f1 show ?thesis by auto
  qed
qed simp


lemma reset_links_ok:
  "reset_links E ls h = (r, h') \<Longrightarrow> \<exists>cs. runs h' = cs @ runs h \<and>
     (r = None \<longrightarrow> (\<forall>n\<in>set ls. \<forall>c\<in>set (reset_cmds n). (c, None) \<in> set cs))"
proof (induction ls arbitrary: h)
  case (Cons n ls)
  obtain r1 h1 where h1: "ResetInterface E n h = (r1, h1)" by fastforce
  have o: "only is_run_call h1 h" using ResetInterface_only [of E n h] h1 by simp
  show ?case
  proof (cases r1)
    case None
    with Cons.prems h1 have rest: "reset_links E ls h1 = (r, h')" by simp
    from Cons.IH [OF rest] ResetInterface_ok [of E n h h1] h1 None show ?thesis
      by (auto simp: reset_cmds_def)
  next
    case (Some e)
    with Cons.prems h1 only_runs_extend [OF o] show ?thesis by auto
  qed
qed simp

lemma resetInterfaces_ok:
  "resetInterfaces E ifs h = (r, h') \<Longrightarrow> \<exists>cs. runs h' = cs @ runs h \<and>
     (r = None \<longrightarrow> (\<forall>i\<in>set ifs. \<exists>g ls g'. GetAssociatedInterfaces E i g = (Inr ls, g') \<and>
       (\<forall>n\<in>set ls. \<forall>c\<in>set (reset_cmds n). (c, None) \<in> set cs)))"
proof (induction ifs arbitrary: h)
  case (Cons i ifs)
  obtain a h1 where a: "GetAssociatedInterfaces E i h = (a, h1)" by fastforce
  have r1: "runs h1 = runs h"
    using only_read_runs [OF GetAssociatedInterfaces_only, of E i h] a by simp
  show ?case
  proof (cases a)
    case (Inl e)
    with Cons.prems a r1 show ?thesis by auto
  next
    case (Inr ls)
    obtain r2 h2 where h2: "reset_links E ls h1 = (r2, h2)" by fastforce
    then obtain cs2 where cs2: "runs h2 = cs2 @ runs h"
      "r2 = None \<longrightarrow> (\<forall>n\<in>set ls. \<forall>c\<in>set (reset_cmds n). (c, None) \<in> set cs2)"
      using reset_links_ok r1 by metis
    show ?thesis
    proof (cases r2)
      case None
      with Cons.prems a Inr h2 have rest: "resetInterfaces E ifs h2 = (r, h')" by simp
      obtain cs where cs: "runs h' = cs @ runs h2" "r = None \<longrightarrow> (\<forall>i\<in>set ifs. \<exists>g ls g'.
          GetAssociatedInterfaces E i g = (Inr ls, g') \<and>
          (\<forall>n\<in>set ls. \<forall>c\<in>set (reset_cmds n). (c, None) \<in> set cs))"
        using Cons.IH [OF rest] by blast
      have "\<forall>n\<in>set ls. \<forall>c\<in>set (reset_cmds n). (c, None) \<in> set (cs @ cs2)"
        using cs2 None by simp
      moreover have "\<forall>i\<in>set ifs. \<exists>g ls g'. GetAssociatedInterfaces E i g = (Inr ls, g') \<and>
          (\<forall>n\<in>set ls. \<forall>c\<in>set (reset_cmds n). (c, None) \<in> set (cs @ cs2))" if "r = None"
        using cs(2) that by (metis Un_iff set_append)
      ultimately show ?thesis
        using a Inr by (intro exI [of _ "cs @ cs2"]) (auto simp: cs(1) cs2(1))
    next
      case (Some e)
      with Cons.prems a Inr h2 cs2 show ?thesis by auto
    qed
  qed
qed simp

lemma StopMonitor_runs: "runs (snd (StopMonitor E m h)) = runs h"
proof -
  have "runs (snd (stop_restore E m h)) = runs h"
    using only_vf_runs [OF ConfigureVlanStateForVFs_only, of E "(PfInfo m)\<lparr>Authenticated := True\<rparr>" h]
    by (auto simp: stop_restore_def Let_def split: prod.splits option.splits)
  then show ?thesis
    by (auto simp: StopMonitor_def stop_close_def go_defs Let_def split: prod.splits option.splits)
qed

lemma stop_monitors_runs: "runs (snd (stop_monitors E ms h)) = runs h"
proof (induction ms arbitrary: h)
  case (Cons m ms)
  then show ?case using StopMonitor_runs [of E m h] by (simp add: split_beta)
qed simp

definition fl0 :: Flags where
  "fl0 = \<lparr>f_interfaces = ''eth0'', f_tcp = [], f_udp = [], f_logLevel = ''info''\<rparr>"

definition labels0 :: string where
  "labels0 = label_file [(AuthName, ''auth''), (AuthNamespace, ''ns'')]"

abbreviation "E1 \<equiv> calm [\<lparr>vf_ID = 0, vf_Vlan = 100\<rparr>] a0"

lemma labels0_key: "GetAuthNamespacedName (\<lambda>p. Inr labels0) =
    Ret (Inr \<lparr>nn_Namespace = ''ns'', nn_Name = ''auth''\<rparr>)"
  by (rule GetAuth_file [of "[(AuthName, ''auth''), (AuthNamespace, ''ns'')]"])
    (simp_all add: labels0_def label_ok_def isSpace_def AuthName_def AuthNamespace_def)

lemma calm_init: "fst (initInterfaces (calm vfs a) [] [] [''eth0''] h) = None"
  by (simp add: calm_assoc InitInterfaceForEAPTraffic_def ResetInterface_def IsSriovPF_def
      unprotect_all_def go_defs split_beta assoc_path)

lemma calm_update: "fst (updateInterfaceStatus (calm vfs a) m h) = None"
  by (simp add: updateInterfaceStatus_def DefaultRetry_Steps_def status_attempt_def
      getAuthObject_def go_defs numeral_eq_Suc)

lemma calm_start: "\<exists>m h'. StartMonitor (calm vfs a) (monitor_config key ''eth0'') h = Some (Inr m, h')"
proof -
  have conf: "fst (configure_loop (calm vfs a) pf vs h) = None" if "pf_Name pf = ''eth0''" for pf vs h
    using that by (induction vs arbitrary: h) (simp_all add: ConfigureVlanState_def go_defs)
  obtain m h1 where "start_setup (calm vfs a) (monitor_config key ''eth0'') h = (Inr m, h1)"
    using conf by (fastforce simp: start_setup_def go_defs GetSriovPFInfo_def monitor_config_def
        NewInterfaceMonitor_def ConfigureVlanStateForVFs_def split_beta prod_eq_iff)
  then show ?thesis
    using attach_unfold [of "calm vfs a" h1] by (simp add: StartMonitor_def Let_def)
qed


text \<open>
  Shutting down takes the filters away: after stopping all monitors, which runs no
  filter command, the two commands that delete an interface's queues were run for every
  interface of \<open>IFACES\<close> and each interface associated with it, after all other filter
  commands, unless the reset reported an error.
\<close>

lemma shutdown_resets:
  assumes "main_shutdown E ifs ms h = h'" and "\<forall>e. CLogError ''reset interfaces'' e \<notin> set h'"
  shows "\<exists>cs. runs h' = cs @ runs h \<and>
    (\<forall>i\<in>set ifs. \<exists>g ls g'. GetAssociatedInterfaces E i g = (Inr ls, g') \<and>
       (\<forall>n\<in>set ls. \<forall>c\<in>set (reset_cmds n). (c, None) \<in> set cs))"
proof -
  obtain ms' h1 where h1: "stop_monitors E ms h = (ms', h1)" by fastforce
  obtain r h2 where h2: "resetInterfaces E ifs h1 = (r, h2)" by fastforce
  have "r = None" using assms h1 h2 by (cases r) (auto simp: main_shutdown_def)
  moreover have "runs h1 = runs h" using stop_monitors_runs [of E ms h] h1 by simp
  ultimately show ?thesis
    using resetInterfaces_ok [OF h2] assms(1) h1 h2 by (simp add: main_shutdown_def)
qed

end
