(* ===== verification/Node.thy ===== *)
theory Node
  imports MonitorStop MonitorMain
begin

text \<open>
  All monitors of a machine together. The monitor program runs one interface monitor per
  interface of \<open>IFACES\<close>, in one process and on one host: they share the history of calls, so
  each of them sees answers of the host that depend on what the others did. The theory puts
  the step relations of theory \<open>MonitorSystem\<close> side by side on one history, starts them one
  after the other as \<open>monitor/main.go\<close> does, and shows that they do not disturb each other.
\<close>

section \<open>The calls of one monitor\<close>

text \<open>The calls that concern other machines' parts not at all: settings of VFs of one PF,
  filters for addresses on its interfaces, and whatever is neither.\<close>

fun own_call :: "string \<Rightarrow> string list \<Rightarrow> call \<Rightarrow> bool" where
  "own_call n ifs (CLinkSetVfVlan n' i v r) = (n' = n)"
| "own_call n ifs (CLinkSetVfState n' i v r) = (n' = n)"
| "own_call n ifs (CRun cmd r) =
     (\<exists>i\<in>set ifs. \<exists>a. no_blank a \<and> (cmd = allow_cmd i a \<or> cmd = deny_cmd i a))"
| "own_call n ifs c = True"

lemma own_vf: "only (vf_of n) h' h \<Longrightarrow> only (own_call n ifs) h' h"
  by (erule only_mono) (auto elim!: vf_of.elims)

lemma own_other: "only is_other h' h \<Longrightarrow> only (own_call n ifs) h' h"
  by (rule own_vf [OF vf_of_other])

lemma own_read: "only is_read h' h \<Longrightarrow> only (own_call n ifs) h' h"
  by (rule own_vf [OF vf_of_read])

lemma run_all_own:
  assumes "\<forall>c\<in>set cmds. \<exists>i\<in>set ifs. \<exists>a. no_blank a \<and> (c = allow_cmd i a \<or> c = deny_cmd i a)"
  shows "only (own_call n ifs) (snd (run_all E cmds h)) h"
  using assms
proof (induction E cmds h rule: run_all.induct)
  case (2 E cmd cmds h)
  then have own: "own_call n ifs (CRun cmd r)" for r by auto
  show ?case
  proof (cases "env_Run E h cmd")
    case None
    with 2 have "only (own_call n ifs) (snd (run_all E cmds (CRun cmd None # h))) (CRun cmd None # h)"
      by (simp add: Run_def)
    from only_Cons [OF this own] None show ?thesis by (simp add: Run_def)
  next
    case (Some e)
    with own [of "Some e"] show ?thesis by (simp add: Run_def Let_def del: own_call.simps)
  qed
qed simp

lemma apply_policy_own:
  assumes "apply_policy E conf cmd pf h = (r, h')" and "host_ok (pf_Name pf) ifs E"
    and "cmd = (\<lambda>i. allow_cmd i a) \<or> cmd = (\<lambda>i. deny_cmd i a)" and "no_blank a"
  shows "only (own_call (pf_Name pf) ifs) h' h"
proof -
  let ?P = "own_call (pf_Name pf) ifs"
  have E: "names_ok E" "stable E (pf_Name pf) ifs" using assms(2) by (simp_all add: host_ok_def)
  have conf: "only ?P (snd (ConfigureVlanStateForVFs E pf g)) g" for g
    by (rule own_vf [OF configure_vf_of [OF E(1)]])
  have assoc: "only ?P (snd (GetAssociatedInterfaces E (pf_Name pf) g)) g" for g
    by (rule own_read [OF GetAssociatedInterfaces_only])
  have run: "only ?P (snd (run_all E (map cmd is) g')) g'"
    if "GetAssociatedInterfaces E (pf_Name pf) g = (Inr is, g')" for g "is" g'
    using E(2) that assms(3,4) by (intro run_all_own) (auto simp: stable_def)
  obtain r1 h1 where h1: "(if conf then ConfigureVlanStateForVFs E pf h else (None, h)) = (r1, h1)" by fastforce
  have o1: "only ?P h1 h" using conf [of h] h1 by (auto split: if_splits)
  obtain x h3 where h3: "GetAssociatedInterfaces E (pf_Name pf) (CLookPath ''tc'' # h1) = (x, h3)" by fastforce
  have o3: "only ?P h3 h" using only_trans [OF only_Cons [OF assoc [of "CLookPath ''tc'' # h1"]] o1] h3 by simp
  show ?thesis
  proof (cases x)
    case (Inl e)
    then show ?thesis using assms(1) h1 h3 o1 o3
      by (auto simp: apply_policy_def LookPath_def split: option.splits)
  next
    case (Inr "is")
    then show ?thesis using assms(1) h1 h3 o1 only_trans [OF run [OF h3 [unfolded Inr]] o3]
      by (auto simp: apply_policy_def LookPath_def split: option.splits)
  qed
qed

lemma vlan_loop_vf_of:
  assumes "names_ok E"
  shows "vlan_change_loop E vfs pf h = (r, pf', h') \<Longrightarrow> only (vf_of (pf_Name pf)) h' h"
proof (induction vfs arbitrary: pf h)
  case (Cons vf rest)
  from Cons.prems show ?case
  proof (cases rule: vlan_change_Cons)
    case skip
    then show ?thesis by (rule Cons.IH)
  next
    case (fail vi e)
    then show ?thesis
      using configure_one_vf_of [OF assms, of pf' "vi\<lparr>Vlan := vf_Vlan vf\<rparr>" h] by simp
  next
    case (step vi pf1 h1)
    then show ?thesis
      using configure_one_vf_of [OF assms, of pf1 "vi\<lparr>Vlan := vf_Vlan vf\<rparr>" h] Cons.IH [of pf1 h1]
        only_trans by fastforce
  qed
qed simp

lemma vlan_change_own:
  assumes "handlePfEventForVfVlanChange E m h = (m', h')" and "names_ok E"
  shows "only (own_call (pf_Name (PfInfo m)) ifs) h' h"
proof -
  obtain r pf h1 where pf: "HandlePfEventForVlanChange E (PfInfo m) h = (r, pf, h1)"
    by (metis prod_cases3)
  have "only (vf_of (pf_Name (PfInfo m))) h1 h"
    using pf only_Cons [OF vlan_loop_vf_of [OF assms(2)]]
    by (auto simp: HandlePfEventForVlanChange_def LinkByName_def split: sum.splits)
  with pf assms(1) show ?thesis
    by (auto simp: handlePfEventForVfVlanChange_def split: option.splits intro: own_vf)
qed

lemma allow_own:
  assumes "AllowTrafficFromMac E pf a h = (r, pf', h')" and "host_ok (pf_Name pf) ifs E" and "no_blank a"
  shows "only (own_call (pf_Name pf) ifs) h' h"
  using assms apply_policy_own [of E _ "\<lambda>i. allow_cmd i a" "allow_pf pf" h _ h' ifs a]
  by (auto simp: Allow_apply split: prod.splits)

lemma deny_own:
  assumes "DenyTrafficFromMac E pf a h = (r, pf', h')" and "host_ok (pf_Name pf) ifs E" and "no_blank a"
  shows "only (own_call (pf_Name pf) ifs) h' h"
  using assms apply_policy_own [of E _ "\<lambda>i. deny_cmd i a" "deny_pf pf" h _ h' ifs a]
  by (auto simp: Deny_apply split: prod.splits)

lemma event_switch_own:
  assumes "event_switch E key a m h = (r, m', h')" and "host_ok (pf_Name (PfInfo m)) ifs E" and "no_blank a"
  shows "only (own_call (pf_Name (PfInfo m)) ifs) h' h"
proof -
  have log: "only (own_call (pf_Name (PfInfo m)) ifs) (logEvent E m ty msg h) h" for ty msg
    by (rule own_other [OF logEvent_other])
  have deny: "only (own_call (pf_Name (PfInfo m)) ifs) g' h"
    if "DenyTrafficFromMac E (expel a (PfInfo m)) a (CDeAuthenticated i # logEvent E m ty msg h) = (q, pf', g')"
    for i ty msg q pf' g'
  proof -
    have "only (own_call (pf_Name (PfInfo m)) ifs) g' (CDeAuthenticated i # logEvent E m ty msg h)"
      using deny_own [OF that, of ifs] assms(2,3) by simp
    from only_trans [OF only_Cons [OF this] log] show ?thesis by simp
  qed
  show ?thesis
    using assms log deny allow_own [of E "enroll a (PfInfo m)" a h]
    by (auto simp: event_switch_def stats_Authenticated_def stats_DeAuthenticated_def
        stats_AuthFailed_def handleAuthenticateEvent_def handleDeAuthenticateEvent_def
        split: if_splits prod.splits)
qed

lemma timeout_own:
  assumes "timeout_loop E now reqs m h = (m', h')" and "host_ok (pf_Name (PfInfo m)) ifs E"
    and "\<forall>a\<in>fst ` set reqs. no_blank a"
  shows "only (own_call (pf_Name (PfInfo m)) ifs) h' h"
  using assms
proof (induction reqs arbitrary: m h)
  case (Cons q rest)
  obtain a ts where q: "q = (a, ts)" by fastforce
  obtain r pf h1 where d: "DenyTrafficFromMac E (expel a (PfInfo m)) a h = (r, pf, h1)"
    by (metis prod_cases3)
  have o1: "only (own_call (pf_Name (PfInfo m)) ifs) h1 h"
    using deny_own [OF d, of ifs] Cons.prems q by simp
  have n: "pf_Name pf = pf_Name (PfInfo m)" using tc.deny_state [OF d] by simp
  show ?case
  proof (cases "wrap64 (now - ts) < requestTimeout")
    case True
    with Cons.prems(1) q show ?thesis by simp
  next
    case False
    let ?h = "case r of None \<Rightarrow> h1 | Some e \<Rightarrow> CLogError ''error applying deny traffic'' e # h1"
    have "only (own_call (pf_Name (PfInfo m)) ifs) h' ?h"
      using Cons.IH [of "m\<lparr>PfInfo := pf, deauthRequests := AList.delete a (deauthRequests m)\<rparr>" ?h]
        Cons.prems q d False n by simp
    moreover have "only (own_call (pf_Name (PfInfo m)) ifs) ?h h" using o1 by (cases r) simp_all
    ultimately show ?thesis by (rule only_trans)
  qed
qed simp

text \<open>Every step of a monitor makes only calls of its own.\<close>

lemma mstep_own:
  assumes "mstep P l s t" and host: "\<And>E. P E \<Longrightarrow> host_ok n ifs E" and inv: "enf_inv n ifs s"
  shows "only (own_call n ifs) (hst t) (hst s)"
proof -
  from inv have n: "pf_Name (PfInfo (mon s)) = n" and blank: "\<forall>a\<in>clients (mon s). no_blank a"
    and shape: "shape_ok (mon s)" by (simp_all add: enf_inv_def sys_inv_def)
  have names: "P E \<Longrightarrow> names_ok E" for E using host by (simp add: host_ok_def)
  from assms(1) n blank shape show ?thesis
  proof (induction rule: mstep.induct)
    case (reply_event E s ev key arg rest r m h)
    have "no_blank arg"
      using Split_elems_no_sep [of arg "receive ev" "CHR '' ''"] reply_event(3) by (simp add: no_blank_def)
    then show ?case using event_switch_own [OF reply_event(4), of ifs] host reply_event by simp
  next
    case (reply_publish E s r r' h)
    then have "only is_other h (hst s)" using updateInterfaceStatus_other [of E "mon s" "hst s"] by simp
    then show ?case by (cases r) (simp_all add: own_other)
  next
    case (if_opstate E s m h)
    then have "only is_other h (hst s)" using opstate_section_other [of E "mon s" "hst s"] by simp
    then show ?case by (simp add: own_other)
  next
    case (if_write E s r h)
    then show ?case by (auto simp: writeCommand_def go_defs Let_def)
  next
    case (if_vlan E s m h)
    then show ?case using vlan_change_own [OF if_vlan(3) names] by simp
  next
    case (keep_round E s go h)
    then show ?case
      by (auto simp: keepalive_round_def go_defs Let_def split: option.splits if_splits)
  next
    case (timer_tick E s m h)
    let ?h = "CNow # hst s"
    have loop: "timeout_loop E (env_Now E (hst s)) (range_keys E ?h (deauthRequests (mon s))) (mon s) ?h = (m, h)"
      using timer_tick(3) by (simp add: handleRequestsTimeout_def Now_def)
    have "\<forall>a\<in>fst ` set (range_keys E ?h (deauthRequests (mon s))). no_blank a"
      using timer_tick(5,6) by (auto simp: shape_ok_def pending_def map_keys_def)
    from only_Cons [OF timeout_own [OF loop _ this, of ifs]] host timer_tick show ?case by simp
  next
    case (main_attach E s r h)
    then show ?case by (auto simp: go_defs Let_def split: option.splits)
  next
    case (main_status E s r h)
    then show ?case by (auto simp: writeCommand_def go_defs Let_def)
  next
    case (main_update E s r h)
    then have "only is_other h (hst s)" using updateInterfaceStatus_other [of E "mon s" "hst s"] by simp
    then show ?case by (simp add: own_other)
  next
    case (main_restore E s m h)
    then show ?case
      using own_vf [OF stop_restore_vf_of [OF names, of E "mon s" "hst s"]] by simp
  next
    case (main_unsub E s)
    then show ?case by (auto simp: stop_close_def go_defs Let_def split: option.splits)
  qed (auto split: if_splits)
qed

text \<open>So it leaves alone what another monitor has to enforce.\<close>

lemma own_runs:
  assumes "only (own_call n ifs) h' h" and "i \<notin> set ifs" and "no_blank i" and "\<forall>j\<in>set ifs. no_blank j"
    and "no_blank a"
  shows "mac_verdict (runs h') i a = mac_verdict (runs h) i a"
proof -
  have "mac_verdict (runs (c # g)) i a = mac_verdict (runs g) i a" if "own_call n ifs c" for c g
    using that assms(2-5) by (cases c) (auto simp: cmd_simps)
  then show ?thesis using only_induct [OF assms(1), of "\<lambda>h. mac_verdict (runs h) i a"] by blast
qed

lemma own_vfs:
  assumes "only (own_call n ifs) h' h" and "n' \<noteq> n"
  shows "vf_vlan h' n' i = vf_vlan h n' i \<and> vf_state h' n' i = vf_state h n' i"
proof -
  have "vf_vlan (c # g) n' i = vf_vlan g n' i \<and> vf_state (c # g) n' i = vf_state g n' i"
    if "own_call n ifs c" for c g using that assms(2) by (cases c) auto
  then show ?thesis
    using only_induct [OF assms(1), of "\<lambda>h. vf_vlan h n' i"]
      only_induct [OF assms(1), of "\<lambda>h. vf_state h n' i"] by blast
qed

section \<open>The set-up of the filters admits nobody\<close>

fun no_accept_call :: "call \<Rightarrow> bool" where
  "no_accept_call (CRun cmd r) = (\<forall>rest. cmd \<noteq> ''tc filter r'' @ rest)"
| "no_accept_call c = True"

lemma no_accept_read: "only is_read h' h \<Longrightarrow> only no_accept_call h' h"
  by (erule only_mono) (auto elim!: is_read.elims)

lemma run_each_no_accept:
  "\<forall>c\<in>set cmds. no_accept_call (CRun c None) \<Longrightarrow> only no_accept_call (run_each E cmds h) h"
proof (induction E cmds h rule: run_each.induct)
  case (2 E cmd cmds h)
  then have "only no_accept_call (run_each E cmds (CRun cmd (env_Run E h cmd) # h)) (CRun cmd (env_Run E h cmd) # h)"
    by (simp add: Run_def Let_def)
  from only_Cons [OF this] 2(2) show ?case by (simp add: Run_def Let_def)
qed simp

lemma UnprotectPorts_no_accept:
  "only no_accept_call (snd (UnprotectPorts E n p ports h)) h"
  "only no_accept_call (snd (UnprotectIPv6Ports E n ports h)) h"
proof -
  have "only no_accept_call (run_each E (map (port_cmd n p) ports) g) g"
    "only no_accept_call (run_each E (map (port6_cmd n) ports) g) g" for g
    by (rule run_each_no_accept, simp add: port_cmd_def port6_cmd_def)+
  from this [of "CLookPath ''tc'' # h"]
  show "only no_accept_call (snd (UnprotectPorts E n p ports h)) h"
    and "only no_accept_call (snd (UnprotectIPv6Ports E n ports h)) h"
    by (auto simp: UnprotectPorts_def UnprotectIPv6Ports_def LookPath_def split: option.splits intro: only_Cons)
qed

lemma unprotect_all_no_accept: "only no_accept_call (snd (unprotect_all E n tcp udp h)) h"
  using UnprotectPorts_no_accept
  by (auto simp: unprotect_all_def Let_def split: prod.splits option.splits)
    (metis only_trans snd_conv)+

lemma InitInterface_no_accept: "only no_accept_call (snd (InitInterfaceForEAPTraffic E n tcp udp h)) h"
proof -
  have reset: "only no_accept_call (snd (ResetInterface E n h)) h"
    by (auto simp: ResetInterface_def go_defs Let_def split: option.splits)
  obtain r1 h1 where h1: "ResetInterface E n h = (r1, h1)" by fastforce
  let ?h3 = "CRun (drop_cmd n) None # CRun (qdisc_cmd n) None # h1"
  have c: "no_accept_call (CRun (qdisc_cmd n) r)" "no_accept_call (CRun (drop_cmd n) r)"
    "no_accept_call (CRun (eapol_cmd n) r)" for r
    by (simp_all add: qdisc_cmd_def drop_cmd_def eapol_cmd_def)
  have o1: "only no_accept_call h1 h" using reset h1 by simp
  have o3: "only no_accept_call ?h3 h" using o1 c by (simp del: no_accept_call.simps)
  obtain b h4 where h4: "IsSriovPF E n ?h3 = (b, h4)" by fastforce
  have o4: "only no_accept_call h4 h"
    using only_trans [OF no_accept_read [OF IsSriovPF_only] o3, of E n] h4 by simp
  have "only no_accept_call (snd (unprotect_all E n tcp udp (CRun (eapol_cmd n) None # h4))) h"
    using only_trans [OF unprotect_all_no_accept only_add [OF c(3) o4]] by blast
  with h1 h4 o1 o3 o4 c show ?thesis
    by (auto simp: InitInterfaceForEAPTraffic_def Run_def Let_def simp del: no_accept_call.simps
        split: option.splits bool.splits)
qed

lemma init_links_no_accept: "only no_accept_call (snd (init_links E tcp udp ls h)) h"
proof (induction ls arbitrary: h)
  case (Cons n ls)
  obtain r1 h1 where h1: "InitInterfaceForEAPTraffic E n tcp udp h = (r1, h1)" by fastforce
  have "only no_accept_call h1 h" using InitInterface_no_accept [of E n tcp udp h] h1 by simp
  with h1 only_trans [OF Cons.IH [of h1]] show ?case by (cases r1) auto
qed simp

lemma initInterfaces_no_accept: "only no_accept_call (snd (initInterfaces E tcp udp is h)) h"
proof (induction "is" arbitrary: h)
  case (Cons i "is")
  obtain x h1 where h1: "GetAssociatedInterfaces E i h = (x, h1)" by fastforce
  have o1: "only no_accept_call h1 h"
    using no_accept_read [OF GetAssociatedInterfaces_only, of E i h] h1 by simp
  show ?case
  proof (cases x)
    case (Inr ls)
    obtain r2 h2 where h2: "init_links E tcp udp ls h1 = (r2, h2)" by fastforce
    have "only no_accept_call h2 h" using only_trans [OF init_links_no_accept o1, of E tcp udp ls] h2 by simp
    with h1 h2 Inr only_trans [OF Cons.IH [of h2]] show ?thesis by (cases r2) auto
  qed (use h1 o1 in simp)
qed simp

lemma no_accept_verdict:
  assumes "only no_accept_call h' h" shows "mac_verdict (runs h') i a = mac_verdict (runs h) i a"
proof -
  have "mac_verdict (runs (c # g)) i a = mac_verdict (runs g) i a" if "no_accept_call c" for c g
  proof (cases c)
    case (CRun cmd r)
    with that have "cmd \<noteq> allow_cmd i a" "cmd \<noteq> deny_cmd i a" by (auto simp: allow_cmd_def deny_cmd_def)
    with CRun show ?thesis by simp
  qed simp_all
  then show ?thesis using only_induct [OF assms, of "\<lambda>h. mac_verdict (runs h) i a"] by blast
qed

text \<open>Nor does the reset of the interfaces at the end; it sets no VF, and the only commands it
  runs delete the queues of an interface.\<close>

fun reset_call :: "call \<Rightarrow> bool" where
  "reset_call (CRun cmd r) = (\<exists>n. cmd \<in> set (reset_cmds n))"
| "reset_call (CLinkSetVfVlan n i v r) = False"
| "reset_call (CLinkSetVfState n i v r) = False"
| "reset_call c = True"

lemma reset_read: "only is_read h' h \<Longrightarrow> only reset_call h' h"
  by (erule only_mono) (auto elim!: is_read.elims)

lemma reset_no_accept: "only reset_call h' h \<Longrightarrow> only no_accept_call h' h"
  by (erule only_mono) (auto elim!: reset_call.elims simp: reset_cmds_def)

lemma reset_vfs:
  assumes "only reset_call h' h" shows "vf_vlan h' n i = vf_vlan h n i \<and> vf_state h' n i = vf_state h n i"
proof -
  have "vf_vlan (c # g) n i = vf_vlan g n i \<and> vf_state (c # g) n i = vf_state g n i" if "reset_call c" for c g
    using that by (cases c) auto
  then show ?thesis
    using only_induct [OF assms, of "\<lambda>h. vf_vlan h n i"] only_induct [OF assms, of "\<lambda>h. vf_state h n i"] by blast
qed

lemma ResetInterface_reset: "only reset_call (snd (ResetInterface E n h)) h"
  by (auto simp: ResetInterface_def reset_cmds_def go_defs Let_def split: option.splits)

lemma reset_links_reset: "only reset_call (snd (reset_links E ls h)) h"
proof (induction ls arbitrary: h)
  case (Cons n ls)
  obtain r1 h1 where h1: "ResetInterface E n h = (r1, h1)" by fastforce
  have "only reset_call h1 h" using ResetInterface_reset [of E n h] h1 by simp
  with h1 only_trans [OF Cons.IH [of h1]] show ?case by (cases r1) auto
qed simp

lemma resetInterfaces_reset: "only reset_call (snd (resetInterfaces E is h)) h"
proof (induction "is" arbitrary: h)
  case (Cons i "is")
  obtain x h1 where h1: "GetAssociatedInterfaces E i h = (x, h1)" by fastforce
  have o1: "only reset_call h1 h" using reset_read [OF GetAssociatedInterfaces_only, of E i h] h1 by simp
  show ?case
  proof (cases x)
    case (Inr ls)
    obtain r2 h2 where h2: "reset_links E ls h1 = (r2, h2)" by fastforce
    have "only reset_call h2 h" using only_trans [OF reset_links_reset o1, of E ls] h2 by simp
    with h1 h2 Inr only_trans [OF Cons.IH [of h2]] show ?thesis by (cases r2) auto
  qed (use h1 o1 in simp)
qed simp

section \<open>The machine\<close>

text \<open>The history of the process, the monitors that were started, by interface, the interfaces
  that are still to come, and how far \<open>main\<close> is: before the signal that ends it, after it, or
  returned. The own history of each monitor is not used.\<close>

datatype phase = NServing | NStopping | NOver

record node =
  n_hist :: hist
  n_mons :: "string \<Rightarrow> system option"
  n_todo :: "string list"
  n_phase :: phase

definition fresh_system :: "InterfaceMonitor \<Rightarrow> hist \<Rightarrow> system" where
  "fresh_system m h = \<lparr>mon = m, hst = h, reply = RIdle, ifev = IIdle, keepalive = PTop, timer = PTop,
     main = MAttach, stop = False\<rparr>"

definition on_history :: "hist \<Rightarrow> system \<Rightarrow> system" where
  "on_history h s = s\<lparr>hst := h\<rparr>"

text \<open>The goroutine of \<open>main\<close> is inside \<open>StartMonitor\<close> or \<open>StopMonitor\<close> of some monitor. It
  starts a monitor only when the call for the previous one has returned, and stops a monitor
  only when the signal has come and the call that stops the previous one has returned; in
  which order it stops them is left open. When all are stopped it resets the interfaces. A
  start that fails when it attaches stops its monitor before the next one is started; the
  record that \<open>main\<close> logs of it is left out.\<close>

definition busy :: "node \<Rightarrow> bool" where
  "busy s = (\<exists>i t. n_mons s i = Some t \<and> main t \<notin> {MRun, MDone})"

definition may_move :: "node \<Rightarrow> system \<Rightarrow> system \<Rightarrow> bool" where
  "may_move s t u = (main t = MRun \<and> main u = MStop \<longrightarrow> n_phase s = NStopping \<and> \<not> busy s)"

definition all_stopped :: "node \<Rightarrow> bool" where
  "all_stopped s = (\<forall>i t. n_mons s i = Some t \<longrightarrow> main t = MDone)"

datatype node_label = NStart string | NFail string | NStep string label | NSignal | NEnd

inductive node_init :: "(env \<Rightarrow> bool) \<Rightarrow> string list \<Rightarrow> node \<Rightarrow> bool"
  for P :: "env \<Rightarrow> bool" and ifaces :: "string list" where
  initialised: "P E \<Longrightarrow> initInterfaces E tcp udp ifaces [] = (None, h) \<Longrightarrow>
     node_init P ifaces \<lparr>n_hist = h, n_mons = Map.empty, n_todo = ifaces, n_phase = NServing\<rparr>"

inductive node_step :: "(env \<Rightarrow> bool) \<Rightarrow> NamespacedName \<Rightarrow> string list \<Rightarrow> node_label \<Rightarrow> node \<Rightarrow> node \<Rightarrow> bool"
  for P :: "env \<Rightarrow> bool" and key :: NamespacedName and ifaces :: "string list" where
  monitor_started: "P E \<Longrightarrow> n_todo s = i # rest \<Longrightarrow> \<not> busy s \<Longrightarrow>
     start_setup E (monitor_config key i) (n_hist s) = (Inr m, h) \<Longrightarrow>
     node_step P key ifaces (NStart i) s
       (s\<lparr>n_hist := h, n_mons := (n_mons s)(i \<mapsto> fresh_system m h), n_todo := rest\<rparr>)"
| monitor_skipped: "P E \<Longrightarrow> n_todo s = i # rest \<Longrightarrow> \<not> busy s \<Longrightarrow>
     start_setup E (monitor_config key i) (n_hist s) = (Inl e, h) \<Longrightarrow>
     node_step P key ifaces (NFail i) s
       (s\<lparr>n_hist := CLogError ''start monitor on interface failed'' e # h, n_todo := rest\<rparr>)"
| monitor_moves: "n_mons s i = Some t \<Longrightarrow> mstep P l (on_history (n_hist s) t) u \<Longrightarrow> may_move s t u \<Longrightarrow>
     node_step P key ifaces (NStep i l) s (s\<lparr>n_hist := hst u, n_mons := (n_mons s)(i \<mapsto> u)\<rparr>)"
| signalled: "n_phase s = NServing \<Longrightarrow> n_todo s = [] \<Longrightarrow> \<not> busy s \<Longrightarrow>
     node_step P key ifaces NSignal s (s\<lparr>n_phase := NStopping\<rparr>)"
| returned: "P E \<Longrightarrow> n_phase s = NStopping \<Longrightarrow> all_stopped s \<Longrightarrow>
     resetInterfaces E ifaces (n_hist s) = (r, h) \<Longrightarrow>
     node_step P key ifaces NEnd s
       (s\<lparr>n_hist := (case r of None \<Rightarrow> h | Some e \<Rightarrow> CLogError ''reset interfaces'' e # h),
          n_phase := NOver\<rparr>)"

text \<open>The interfaces are different ones, their PFs share no interface, and no name has a blank;
  on every PF the host answers as enforcement needs it.\<close>

definition apart :: "string list \<Rightarrow> (string \<Rightarrow> string list) \<Rightarrow> bool" where
  "apart ifaces ifs = (distinct ifaces \<and> (\<forall>i\<in>set ifaces. no_blank i \<and> (\<forall>j\<in>set (ifs i). no_blank j)) \<and>
     (\<forall>i\<in>set ifaces. \<forall>j\<in>set ifaces. i \<noteq> j \<longrightarrow> set (ifs i) \<inter> set (ifs j) = {}))"

definition all_ok :: "string list \<Rightarrow> (string \<Rightarrow> string list) \<Rightarrow> env \<Rightarrow> bool" where
  "all_ok ifaces ifs E = (\<forall>i\<in>set ifaces. host_ok i (ifs i) E)"

definition node_inv :: "string list \<Rightarrow> (string \<Rightarrow> string list) \<Rightarrow> node \<Rightarrow> bool" where
  "node_inv ifaces ifs s =
     ((\<forall>i t. n_mons s i = Some t \<longrightarrow> i \<in> set ifaces \<and> enf_inv i (ifs i) (on_history (n_hist s) t)) \<and>
      set (n_todo s) \<subseteq> set ifaces \<and> distinct (n_todo s) \<and>
      (\<forall>i\<in>set (n_todo s). n_mons s i = None \<and>
         (\<forall>j\<in>set (ifs i). \<forall>a. no_blank a \<longrightarrow> mac_verdict (runs (n_hist s)) j a \<noteq> Some Accept)))"

lemma on_history_sel [simp]:
  "hst (on_history h s) = h" "mon (on_history h s) = mon s" "main (on_history h s) = main s"
  "reply (on_history h s) = reply s" "on_history h (on_history h' s) = on_history h s"
  "running (on_history h s) = running s" "sys_inv (on_history h s) = sys_inv s"
  by (simp_all add: on_history_def running_def sys_inv_def)

lemma on_history_id: "on_history (hst s) s = s"
  by (simp add: on_history_def)

lemma apart_verdict:
  assumes "apart ifaces ifs" and "i \<in> set ifaces" "j \<in> set ifaces" "i \<noteq> j"
    and "only (own_call j (ifs j)) h' h" and "k \<in> set (ifs i)" and "no_blank a"
  shows "mac_verdict (runs h') k a = mac_verdict (runs h) k a"
proof (rule own_runs [OF assms(5) _ _ _ assms(7)])
  show "k \<notin> set (ifs j)" using assms(1-4,6) unfolding apart_def by blast
  show "no_blank k" "\<forall>j\<in>set (ifs j). no_blank j" using assms(1-3,6) unfolding apart_def by blast+
qed

text \<open>What another monitor does to the history leaves the enforcement of this one alone.\<close>

lemma enf_frame:
  assumes inv: "enf_inv i (ifs i) (on_history h t)" and own: "only (own_call j (ifs j)) h' h"
    and ap: "apart ifaces ifs" and ij: "i \<in> set ifaces" "j \<in> set ifaces" "i \<noteq> j"
  shows "enf_inv i (ifs i) (on_history h' t)"
proof -
  have n: "pf_Name (PfInfo (mon t)) = i" using inv by (simp add: enf_inv_def)
  have runs: "mac_verdict (runs h') k a = mac_verdict (runs h) k a"
    if "k \<in> set (ifs i)" "no_blank a" for k a
    by (rule apart_verdict [OF ap ij own that])
  have vfs: "vfs_set h' (PfInfo (mon t)) = vfs_set h (PfInfo (mon t))"
    using own_vfs [OF own ij(3)] by (simp add: vfs_set_def n)
  have "enforced (ifs i) h' (PfInfo (mon t)) = enforced (ifs i) h (PfInfo (mon t))"
    using runs vfs by (auto simp: enforced_def)
  moreover have "tc_error h \<longrightarrow> tc_error h'" using tc_error_mono [OF own] by blast
  ultimately show ?thesis using inv by (auto simp: enf_inv_def faultless_def)
qed

text \<open>One monitor moved, or was started, by calls of its own; the others keep what they have.\<close>

lemma node_frame:
  assumes inv: "node_inv ifaces ifs s" and ap: "apart ifaces ifs" and i: "i \<in> set ifaces"
    and own: "only (own_call i (ifs i)) h (n_hist s)"
    and new: "\<And>u. mons i = Some u \<Longrightarrow> enf_inv i (ifs i) (on_history h u)"
    and same: "\<And>k. k \<noteq> i \<Longrightarrow> mons k = n_mons s k"
    and todo: "set rest \<subseteq> set (n_todo s) - {i}" "distinct rest"
  shows "node_inv ifaces ifs (s\<lparr>n_hist := h, n_mons := mons, n_todo := rest\<rparr>)"
proof -
  have "k \<in> set ifaces \<and> enf_inv k (ifs k) (on_history h u)" if "mons k = Some u" for k u
  proof (cases "k = i")
    case True
    with that new i show ?thesis by blast
  next
    case False
    with that same inv have k: "k \<in> set ifaces" "enf_inv k (ifs k) (on_history (n_hist s) u)"
      by (auto simp: node_inv_def)
    with enf_frame [OF k(2) own ap k(1) i False] show ?thesis by blast
  qed
  moreover have "mons k = None \<and>
      (\<forall>j\<in>set (ifs k). \<forall>a. no_blank a \<longrightarrow> mac_verdict (runs h) j a \<noteq> Some Accept)"
    if "k \<in> set rest" for k
  proof -
    have k: "k \<in> set (n_todo s)" "k \<noteq> i" "k \<in> set ifaces" using that todo(1) inv by (auto simp: node_inv_def)
    then have "mons k = None" using same inv by (simp add: node_inv_def)
    moreover have "mac_verdict (runs h) j a \<noteq> Some Accept" if "j \<in> set (ifs k)" "no_blank a" for j a
      using apart_verdict [OF ap k(3) i k(2) own that] inv k(1) that by (simp add: node_inv_def)
    ultimately show ?thesis by blast
  qed
  moreover have "set rest \<subseteq> set ifaces" using todo(1) inv by (auto simp: node_inv_def)
  ultimately show ?thesis using todo(2) by (simp add: node_inv_def)
qed

lemma mstep_mono: "mstep P l s t \<Longrightarrow> (\<And>E. P E \<Longrightarrow> Q E) \<Longrightarrow> mstep Q l s t"
  by (induction rule: mstep.induct) (rule mstep.intros; blast)+

lemma fresh_enf:
  assumes set_up: "start_setup E (monitor_config key i) h = (Inr m, h')" and "names_ok E" and "no_blank i"
    and none: "\<And>j a. j \<in> set ifs \<Longrightarrow> no_blank a \<Longrightarrow> mac_verdict (runs h) j a \<noteq> Some Accept"
  shows "enf_inv i ifs (on_history h' (fresh_system m h'))" and "only (own_call i ifs) h' h"
proof -
  have name: "IfName (monitor_config key i) = i" by (simp add: monitor_config_def NewInterfaceMonitor_def)
  note s = start_setup_vf_of [OF set_up assms(2), unfolded name]
  note ok = start_setup_ok [OF set_up, unfolded name]
  show "only (own_call i ifs) h' h" using s by (blast intro: own_vf)
  have "runs h' = runs h" using s vf_of_runs by blast
  moreover have "clients m = {}" "pf_Name (PfInfo m) = i" using ok by simp_all
  ultimately have "enforced ifs h' (PfInfo m)" using s none by (auto simp: enforced_def clients_def)
  then show "enf_inv i ifs (on_history h' (fresh_system m h'))"
    using ok assms(3) by (auto simp: enf_inv_def fresh_system_def on_history_def sys_inv_def mon_ok_def)
qed

text \<open>A start that fails has touched the VFs of its own PF only.\<close>

lemma skipped_own:
  assumes "start_setup E (monitor_config key i) h = (x, h')" and "names_ok E"
  shows "only (own_call i ifs) (CLogError msg e # h') h"
proof -
  have "IfName (monitor_config key i) = i" by (simp add: monitor_config_def NewInterfaceMonitor_def)
  then have "only (vf_of i) h' h" using start_setup_vf_of [OF assms] by simp
  then show ?thesis by (simp add: own_vf)
qed

text \<open>The signal changes nothing for the monitors, and the reset nothing that they enforce.\<close>

lemma node_reset:
  assumes inv: "node_inv ifaces ifs s" and reset: "only reset_call h (n_hist s)"
  shows "node_inv ifaces ifs (s\<lparr>n_hist := h, n_phase := p\<rparr>)"
proof -
  have runs: "mac_verdict (runs h) j a = mac_verdict (runs (n_hist s)) j a" for j a
    by (rule no_accept_verdict [OF reset_no_accept [OF reset]])
  have "vfs_set h pf = vfs_set (n_hist s) pf" for pf using reset_vfs [OF reset] by (simp add: vfs_set_def)
  then have "enforced js h pf = enforced js (n_hist s) pf" for js pf using runs by (simp add: enforced_def)
  moreover have "tc_error (n_hist s) \<longrightarrow> tc_error h" using tc_error_mono [OF reset] by blast
  ultimately have "enf_inv i js (on_history h t)" if "enf_inv i js (on_history (n_hist s) t)" for i js t
    using that by (auto simp: enf_inv_def faultless_def)
  with inv runs show ?thesis by (simp add: node_inv_def)
qed

lemma node_step_inv:
  assumes "node_step (all_ok ifaces ifs) key ifaces l s t" and ap: "apart ifaces ifs" and inv: "node_inv ifaces ifs s"
  shows "node_inv ifaces ifs t"
  using assms(1)
proof cases
  case (monitor_started E i rest m h)
  from inv monitor_started(4) have i: "i \<in> set ifaces" and
    none: "\<And>j a. j \<in> set (ifs i) \<Longrightarrow> no_blank a \<Longrightarrow> mac_verdict (runs (n_hist s)) j a \<noteq> Some Accept"
    and todo: "set rest \<subseteq> set (n_todo s) - {i}" "distinct rest" by (auto simp: node_inv_def)
  have "names_ok E" and "no_blank i" using monitor_started(3) i ap
    by (simp_all add: all_ok_def host_ok_def apart_def)
  note fresh = fresh_enf [OF monitor_started(6) this none]
  show ?thesis unfolding monitor_started(2)
    by (rule node_frame [OF inv ap i fresh(2) _ _ todo]) (use fresh(1) in auto)
next
  case (monitor_skipped E i rest e h)
  let ?h = "CLogError ''start monitor on interface failed'' e # h"
  from inv monitor_skipped(4) have i: "i \<in> set ifaces" "n_mons s i = None"
    and todo: "set rest \<subseteq> set (n_todo s) - {i}" "distinct rest" by (auto simp: node_inv_def)
  have "names_ok E" using monitor_skipped(3) i by (simp add: all_ok_def host_ok_def)
  note own = skipped_own [OF monitor_skipped(6) this]
  have "node_inv ifaces ifs (s\<lparr>n_hist := ?h, n_mons := n_mons s, n_todo := rest\<rparr>)"
    by (rule node_frame [OF inv ap i(1) own _ _ todo]) (use i(2) in simp_all)
  with monitor_skipped(2) show ?thesis by simp
next
  case (monitor_moves i t' l' u)
  from inv monitor_moves(3) have i: "i \<in> set ifaces" "i \<notin> set (n_todo s)" "distinct (n_todo s)"
    and enf: "enf_inv i (ifs i) (on_history (n_hist s) t')" by (auto simp: node_inv_def)
  have host: "\<And>E. all_ok ifaces ifs E \<Longrightarrow> host_ok i (ifs i) E" using i(1) by (simp add: all_ok_def)
  have own: "only (own_call i (ifs i)) (hst u) (n_hist s)"
    using mstep_own [OF monitor_moves(4) host enf] by simp
  have "enf_inv i (ifs i) u" by (rule mstep_enf [OF mstep_mono [OF monitor_moves(4) host] enf])
  then have new: "enf_inv i (ifs i) (on_history (hst u) u)" by (simp add: on_history_id)
  have "node_inv ifaces ifs (s\<lparr>n_hist := hst u, n_mons := (n_mons s)(i \<mapsto> u), n_todo := n_todo s\<rparr>)"
    by (rule node_frame [OF inv ap i(1) own]) (use new i in auto)
  with monitor_moves(2) show ?thesis by simp
next
  case signalled
  from node_reset [OF inv, of "n_hist s" NStopping] signalled(2) show ?thesis by simp
next
  case (returned E r h)
  let ?h = "case r of None \<Rightarrow> h | Some e \<Rightarrow> CLogError ''reset interfaces'' e # h"
  have "only reset_call h (n_hist s)" using resetInterfaces_reset [of E ifaces "n_hist s"] returned(6) by simp
  then have "only reset_call ?h (n_hist s)" by (cases r) simp_all
  from node_reset [OF inv this, of NOver] returned(2) show ?thesis by simp
qed

lemma node_init_inv:
  assumes "node_init P ifaces s" and "apart ifaces ifs" shows "node_inv ifaces ifs s"
  using assms
proof cases
  case (initialised E tcp udp h)
  have "mac_verdict (runs h) j a = mac_verdict (runs []) j a" for j a
    using no_accept_verdict [OF initInterfaces_no_accept, of E tcp udp ifaces "[]" j a] initialised(3) by simp
  with initialised(1) assms(2) show ?thesis by (simp add: node_inv_def apart_def)
qed

interpretation node: invariant_system "node_init (all_ok ifaces ifs) ifaces"
  "node_step (all_ok ifaces ifs) key ifaces" "\<lambda>s. apart ifaces ifs \<longrightarrow> node_inv ifaces ifs s"
  by unfold_locales (blast intro: node_init_inv node_step_inv)+

section \<open>An example machine\<close>

text \<open>A machine with two interfaces: the monitor of \<open>eth0\<close> is started, then that of \<open>eth1\<close>, and
  hostapd reports a client on the second.\<close>

lemma calm_assoc1: "GetAssociatedInterfaces (calm vfs a) ''eth1'' h =
   (Inr [''eth1''], CStat (filepath_Join [sysClassNet, ''eth1'', ''device'', ''sriov_numvfs'']) # h)"
proof -
  have "filepath_Join [sysClassNet, ''eth1'', ''device'', ''sriov_numvfs''] \<noteq>
    ''/sys/class/net/eth0/device/sriov_numvfs''" by code_simp
  then show ?thesis by (simp add: GetAssociatedInterfaces_def IsSriovPF_def go_defs)
qed

definition two :: "string list" where "two = [''eth0'', ''eth1'']"

definition key0 :: NamespacedName where
  "key0 = \<lparr>nn_Namespace = ''ns'', nn_Name = ''auth''\<rparr>"

lemma two_apart: "apart two (\<lambda>i. [i])"
  by (simp add: apart_def two_def no_blank_def)

lemma E0_all_ok: "all_ok two (\<lambda>i. [i]) E0"
  by (simp add: all_ok_def two_def host_ok_def E0_def calm_names_ok blank_free_def stable_def calm_assoc
      calm_assoc1 no_blank_def split: if_splits)

lemma init_two: "\<exists>h. initInterfaces E0 [] [] two [] = (None, h) \<and> \<not> tc_error h"
  by (simp add: two_def E0_def calm_assoc calm_assoc1 InitInterfaceForEAPTraffic_def ResetInterface_def
     IsSriovPF_def unprotect_all_def go_defs split_beta assoc_path)

lemma start_two:
  assumes "i \<in> set two"
  shows "\<exists>m h'. start_setup E0 (monitor_config key i) h = (Inr m, h') \<and> tc_error h' = tc_error h \<and>
    clients m = {} \<and> pf_Name (PfInfo m) = i \<and> VFs (PfInfo m) = (if i = ''eth0'' then VFs pf0 else [])"
  using assms
  by (auto simp: two_def start_setup_def E0_def monitor_config_def NewInterfaceMonitor_def go_defs GetSriovPFInfo_def
      vf_entry_def ConfigureVlanStateForVFs_def ConfigureVlanState_def m0_def pf0_def
      MonitorConfig.defs ReservedVlan_def clients_def)

lemma update_two: "tc_error (snd (updateInterfaceStatus E0 m h)) = tc_error h"
  by (simp add: E0_def updateInterfaceStatus_def DefaultRetry_Steps_def status_attempt_def
      getAuthObject_def go_defs numeral_eq_Suc)

lemma connect_two:
  assumes "clients m = {}" and "pf_Name (PfInfo m) = ''eth1''" and "VFs (PfInfo m) = []"
  shows "\<exists>m' h'. event_switch E0 staConnectedEvent ''aa'' m h = (None, m', h') \<and>
    tc_error h' = tc_error h \<and> clients m' = {''aa''}"
  using assms
  by (simp add: event_switch_def handleAuthenticateEvent_def Allow_apply apply_policy_def
      allow_pf_def enroll_def E0_def calm_assoc1 clients_def
      ConfigureVlanStateForVFs_def ConfigureVlanState_def go_defs MonitorConfig.defs)

lemma node_moves:
  assumes "run (node_init P ifaces) (node_step P key ifaces) tr s" and "n_mons s i = Some t"
    and "mstep P l (on_history (n_hist s) t) u" and "may_move s t u"
  shows "run (node_init P ifaces) (node_step P key ifaces) (NStep i l # tr)
    (s\<lparr>n_hist := hst u, n_mons := (n_mons s)(i \<mapsto> u)\<rparr>)"
  using assms(1) monitor_moves [OF assms(2-4)] by (rule run.run_step)

text \<open>From its start to the end of \<open>StartMonitor\<close> a monitor whose calls succeed takes three steps.\<close>

lemma up_two:
  assumes "run (node_init P ifaces) (node_step P key ifaces) tr s" and "P E0"
    and "s = \<lparr>n_hist = hs, n_mons = M, n_todo = i # rest, n_phase = NServing\<rparr>" and "\<not> busy s" and "i \<in> set two"
  shows "\<exists>t h. run (node_init P ifaces) (node_step P key ifaces)
      ([NStep i LTau, NStep i LTau, NStep i LTau, NStart i] @ tr)
      \<lparr>n_hist = h, n_mons = M(i \<mapsto> t), n_todo = rest, n_phase = NServing\<rparr> \<and>
    tc_error h = tc_error hs \<and> main t = MRun \<and> reply t = RIdle \<and> \<not> stop t \<and>
    clients (mon t) = {} \<and> pf_Name (PfInfo (mon t)) = i \<and> VFs (PfInfo (mon t)) = (if i = ''eth0'' then VFs pf0 else [])"
proof -
  obtain m h where m: "start_setup E0 (monitor_config key i) (n_hist s) = (Inr m, h)"
    "tc_error h = tc_error (n_hist s)" "clients m = {}" "pf_Name (PfInfo m) = i"
    "VFs (PfInfo m) = (if i = ''eth0'' then VFs pf0 else [])" using start_two [OF assms(5)] by metis
  let ?at = "\<lambda>h u. \<lparr>n_hist = h, n_mons = M(i \<mapsto> u), n_todo = rest, n_phase = NServing\<rparr>"
  have todo: "n_todo s = i # rest" using assms(3) by simp
  let ?u0 = "fresh_system m h"
  have r0: "run (node_init P ifaces) (node_step P key ifaces) (NStart i # tr) (?at h ?u0)"
    using run.run_step [OF assms(1) monitor_started [where P = P, OF assms(2) todo assms(4) m(1)]] assms(3) by simp
  let ?h1 = "snd (ConnWrite E0 attachCommand h)"
  let ?u1 = "?u0\<lparr>hst := ?h1, main := MStatusCmd\<rparr>"
  have "mstep P LTau ?u0 ?u1"
    using main_attach [where P = P, OF assms(2), of ?u0 None ?h1]
    by (simp add: fresh_system_def E0_def go_defs)
  then have r1: "run (node_init P ifaces) (node_step P key ifaces) (NStep i LTau # NStart i # tr) (?at ?h1 ?u1)"
    using node_moves [OF r0, of i ?u0 LTau ?u1]
    by (simp add: on_history_def fresh_system_def may_move_def)
  let ?h2 = "snd (writeCommand E0 statusCommand ?h1)"
  let ?u2 = "?u1\<lparr>hst := ?h2, main := MUpdate\<rparr>"
  have "mstep P LTau ?u1 ?u2"
    using main_status [where P = P, OF assms(2), of ?u1 _ ?h2] by (simp add: prod_eq_iff)
  then have r2: "run (node_init P ifaces) (node_step P key ifaces) (NStep i LTau # NStep i LTau # NStart i # tr) (?at ?h2 ?u2)"
    using node_moves [OF r1, of i ?u1 LTau ?u2]
    by (simp add: on_history_def fresh_system_def may_move_def)
  let ?h3 = "snd (updateInterfaceStatus E0 m ?h2)"
  let ?u3 = "?u2\<lparr>hst := ?h3, main := MRun\<rparr>"
  have "mstep P LTau ?u2 ?u3"
    using main_update [where P = P, OF assms(2), of ?u2 _ ?h3] by (simp add: prod_eq_iff fresh_system_def)
  then have r3: "run (node_init P ifaces) (node_step P key ifaces)
      ([NStep i LTau, NStep i LTau, NStep i LTau, NStart i] @ tr) (?at ?h3 ?u3)"
    using node_moves [OF r2, of i ?u2 LTau ?u3]
    by (simp add: on_history_def fresh_system_def may_move_def)
  have "tc_error ?h3 = tc_error h" unfolding update_two by (simp add: writeCommand_def E0_def go_defs)
  with r3 m assms(3) show ?thesis by (intro exI [of _ ?u3] exI [of _ ?h3]) (simp add: fresh_system_def)
qed

text \<open>Its reader then takes a message in two steps.\<close>

lemma msg_two:
  assumes "run (node_init P ifaces) (node_step P key ifaces) tr \<lparr>n_hist = h, n_mons = M, n_todo = [], n_phase = NServing\<rparr>" and "P E0"
    and "M ''eth1'' = Some t" and "main t = MRun" and "reply t = RIdle" and "\<not> stop t"
    and "clients (mon t) = {}" and "pf_Name (PfInfo (mon t)) = ''eth1''" and "VFs (PfInfo (mon t)) = []"
  shows "\<exists>u h'. run (node_init P ifaces) (node_step P key ifaces)
      (NStep ''eth1'' (LMsg staConnectedEvent ''aa'') # NStep ''eth1'' LTau # tr)
      \<lparr>n_hist = h', n_mons = M(''eth1'' \<mapsto> u), n_todo = [], n_phase = NServing\<rparr> \<and>
    tc_error h' = tc_error h \<and> running u \<and> reply u = RStatus None \<and> clients (mon u) = {''aa''}"
proof -
  let ?t = "on_history h t\<lparr>reply := RRead\<rparr>"
  have "mstep P LTau (on_history h t) ?t"
    using reply_top [of "on_history h t" P] assms(5,6) by (simp add: on_history_def)
  with node_moves [OF assms(1), of "''eth1''" t LTau ?t] assms(3,4)
  have r: "run (node_init P ifaces) (node_step P key ifaces) (NStep ''eth1'' LTau # tr)
      \<lparr>n_hist = h, n_mons = M(''eth1'' \<mapsto> ?t), n_todo = [], n_phase = NServing\<rparr>"
    by (simp add: may_move_def on_history_def)
  obtain m h' where m: "event_switch E0 staConnectedEvent ''aa'' (mon t) h = (None, m, h')"
    "tc_error h' = tc_error h" "clients m = {''aa''}" using connect_two [OF assms(7-9)] by metis
  have ev: "Split (receive ''<3>AP-STA-CONNECTED aa'') (CHR '' '') = [''<3>AP-STA-CONNECTED'', ''aa'']"
    and key: "after_first ''<3>AP-STA-CONNECTED'' (CHR ''>'') = staConnectedEvent"
    by code_simp+
  let ?u = "?t\<lparr>mon := m, hst := h', reply := RStatus None\<rparr>"
  have "on_history h ?t = ?t" by (cases t) (simp add: on_history_def)
  moreover have "mstep P (LMsg staConnectedEvent ''aa'') ?t ?u"
    using reply_event [where P = P, OF assms(2) _ ev, of ?t, unfolded key] m(1) by (simp add: on_history_def)
  ultimately have "run (node_init P ifaces) (node_step P key ifaces)
      (NStep ''eth1'' (LMsg staConnectedEvent ''aa'') # NStep ''eth1'' LTau # tr)
      \<lparr>n_hist = h', n_mons = M(''eth1'' \<mapsto> ?u), n_todo = [], n_phase = NServing\<rparr>"
    using node_moves [OF r, of "''eth1''" ?t _ ?u] assms(4) by (simp add: may_move_def)
  with m assms(4) show ?thesis
    by (intro exI [of _ ?u] exI [of _ h']) (simp add: running_def)
qed

section \<open>Properties of the machine\<close>

text \<open>
  C2. Enforcement on the whole machine. The monitors of the interfaces are started one after
  the other on one host and then run side by side, and whatever one of them does the others
  see. Suppose the interfaces are different and their PFs share none, no name has a blank, and
  the host answers lookups by name and discovery for each of them as enforcement by a single monitor needs it. Then in every state
  any interleaving of all their goroutines reaches, for every monitor that is not being
  stopped, unless a traffic-control error was reported: on each of its own interfaces the
  filter last installed for an address accepts it exactly when the address is one of its own
  clients, and its VFs are open exactly when it has a client. In particular a client of one
  interface is not let in on another.
\<close>

theorem node_enforces:
  assumes "run (node_init (all_ok ifaces ifs) ifaces) (node_step (all_ok ifaces ifs) key ifaces) tr s"
    and "apart ifaces ifs" and "n_mons s i = Some t" and "running t" and "faultless (on_history (n_hist s) t)"
  shows "(\<forall>j\<in>set (ifs i). \<forall>a. no_blank a \<longrightarrow>
      (mac_verdict (runs (n_hist s)) j a = Some Accept \<longleftrightarrow> a \<in> clients (mon t))) \<and>
    (\<forall>(k, vf)\<in>set (VFs (PfInfo (mon t))).
       vf_vlan (n_hist s) i k = Some (if clients (mon t) = {} then 4095 else Vlan vf) \<and>
       vf_state (n_hist s) i k =
         Some (if clients (mon t) = {} then VF_LINK_STATE_DISABLE else VF_LINK_STATE_AUTO))"
proof -
  have "enf_inv i (ifs i) (on_history (n_hist s) t)"
    using node.inv_run [OF assms(1)] assms(2,3) by (simp add: node_inv_def)
  with assms(4,5) show ?thesis
    by (auto simp: enf_inv_def sys_inv_def enforced_def vfs_set_def auth_sync_def clients_def
        target_vlan_def target_state_def ReservedVlan_def)
qed

lemma node_example:
  assumes "P E0"
  shows "\<exists>tr s t0 t1. run (node_init P two) (node_step P key two) tr s \<and> \<not> tc_error (n_hist s) \<and>
    n_mons s ''eth0'' = Some t0 \<and> running t0 \<and> reply t0 = RIdle \<and> clients (mon t0) = {} \<and>
    VFs (PfInfo (mon t0)) = VFs pf0 \<and>
    n_mons s ''eth1'' = Some t1 \<and> running t1 \<and> reply t1 = RStatus None \<and> clients (mon t1) = {''aa''}"
proof -
  obtain h where h: "initInterfaces E0 [] [] two [] = (None, h)" "\<not> tc_error h" using init_two by blast
  let ?s = "\<lparr>n_hist = h, n_mons = Map.empty, n_todo = two, n_phase = NServing\<rparr>"
  have "run (node_init P two) (node_step P key two) [] ?s"
    using initialised [where P = P, OF assms h(1)] by (rule run.run_init)
  from up_two [where P = P, OF this assms, of h Map.empty "''eth0''" "[''eth1'']"]
  obtain t0 h0 tr0 where r0: "run (node_init P two) (node_step P key two) tr0
      \<lparr>n_hist = h0, n_mons = [''eth0'' \<mapsto> t0], n_todo = [''eth1''], n_phase = NServing\<rparr>"
    and t0: "\<not> tc_error h0" "main t0 = MRun" "reply t0 = RIdle" "clients (mon t0) = {}"
      "VFs (PfInfo (mon t0)) = VFs pf0"
    using h(2) by (auto simp: two_def busy_def)
  have "\<not> busy \<lparr>n_hist = h0, n_mons = [''eth0'' \<mapsto> t0], n_todo = [''eth1''], n_phase = NServing\<rparr>"
    using t0(2) by (auto simp: busy_def split: if_splits)
  from up_two [where P = P, OF r0 assms refl this]
  obtain t1 h1 tr1 where r1: "run (node_init P two) (node_step P key two) tr1
      \<lparr>n_hist = h1, n_mons = [''eth0'' \<mapsto> t0, ''eth1'' \<mapsto> t1], n_todo = [], n_phase = NServing\<rparr>"
    and t1: "\<not> tc_error h1" "main t1 = MRun" "reply t1 = RIdle" "\<not> stop t1" "clients (mon t1) = {}"
      "pf_Name (PfInfo (mon t1)) = ''eth1''" "VFs (PfInfo (mon t1)) = []"
    using t0(1) by (auto simp: two_def)
  from msg_two [where P = P, OF r1 assms _ t1(2-7)] t1(1)
  obtain t2 h2 tr2 where r2: "run (node_init P two) (node_step P key two) tr2
      \<lparr>n_hist = h2, n_mons = [''eth0'' \<mapsto> t0, ''eth1'' \<mapsto> t2], n_todo = [], n_phase = NServing\<rparr>"
    and t2: "\<not> tc_error h2" "running t2" "reply t2 = RStatus None" "clients (mon t2) = {''aa''}"
    by auto
  have "running t0" using t0(2) by (simp add: running_def)
  with r2 t0 t2 show ?thesis by (intro exI conjI) (assumption | simp)+
qed

theorem node_enforces_witness:
  "\<exists>tr s t0 t1. run (node_init (all_ok two (\<lambda>i. [i])) two) (node_step (all_ok two (\<lambda>i. [i])) key0 two) tr s \<and>
     n_mons s ''eth0'' = Some t0 \<and> n_mons s ''eth1'' = Some t1 \<and>
     mac_verdict (runs (n_hist s)) ''eth1'' ''aa'' = Some Accept \<and>
     mac_verdict (runs (n_hist s)) ''eth0'' ''aa'' \<noteq> Some Accept \<and>
     vf_vlan (n_hist s) ''eth0'' 0 = Some 4095"
proof -
  obtain tr s t0 t1 where r: "run (node_init (all_ok two (\<lambda>i. [i])) two) (node_step (all_ok two (\<lambda>i. [i])) key0 two) tr s"
    and s: "\<not> tc_error (n_hist s)"
    and t0: "n_mons s ''eth0'' = Some t0" "running t0" "reply t0 = RIdle" "clients (mon t0) = {}"
      "VFs (PfInfo (mon t0)) = VFs pf0"
    and t1: "n_mons s ''eth1'' = Some t1" "running t1" "reply t1 = RStatus None" "clients (mon t1) = {''aa''}"
    using node_example [where P = "all_ok two (\<lambda>i. [i])", OF E0_all_ok] by metis
  have "faultless (on_history (n_hist s) t0)" "faultless (on_history (n_hist s) t1)"
    using s t0 t1 by (simp_all add: faultless_def)
  with node_enforces [OF r two_apart t0(1,2)] node_enforces [OF r two_apart t1(1,2)] r t0 t1
  show ?thesis by (intro exI conjI) (assumption | simp add: pf0_def no_blank_def)+
qed

end
