(* ===== verification/NodeEnd.thy ===== *)
theory NodeEnd
  imports Node
begin

text \<open>
  The end of the monitor program: after the signal the monitors are stopped one after the
  other while the others go on, and when the last one is stopped the interfaces are reset. The
  theory shows that from every state the program can go on to that point, and that nothing
  happens after it.
\<close>

section \<open>What is left to do\<close>

definition mon_todo :: "system option \<Rightarrow> nat" where
  "mon_todo x = (case x of None \<Rightarrow> 0 | Some t \<Rightarrow> sys_todo t)"

fun phase_todo :: "phase \<Rightarrow> nat" where
  "phase_todo NServing = 2"
| "phase_todo NStopping = 1"
| "phase_todo NOver = 0"

definition node_todo :: "string list \<Rightarrow> node \<Rightarrow> nat" where
  "node_todo ifaces s =
     (\<Sum>i\<in>set ifaces. mon_todo (n_mons s i)) + 20 * length (n_todo s) + phase_todo (n_phase s)"

text \<open>The last filter commands were those of a reset of all interfaces, which went through unless
  an error was logged.\<close>

definition filters_reset :: "(env \<Rightarrow> bool) \<Rightarrow> string list \<Rightarrow> hist \<Rightarrow> bool" where
  "filters_reset P ifaces h = (\<exists>E cs rest. P E \<and> runs h = cs @ rest \<and>
     (\<forall>(c, r)\<in>set cs. \<exists>n. c \<in> set (reset_cmds n)) \<and>
     ((\<forall>e. CLogError ''reset interfaces'' e \<notin> set h) \<longrightarrow>
        (\<forall>i\<in>set ifaces. \<exists>g ls g'. GetAssociatedInterfaces E i g = (Inr ls, g') \<and>
           (\<forall>n\<in>set ls. \<forall>c\<in>set (reset_cmds n). (c, None) \<in> set cs))))"

definition end_inv :: "(env \<Rightarrow> bool) \<Rightarrow> string list \<Rightarrow> node \<Rightarrow> bool" where
  "end_inv P ifaces s =
     ((\<forall>i t. n_mons s i = Some t \<longrightarrow> i \<in> set ifaces \<and> stop_inv t) \<and>
      set (n_todo s) \<subseteq> set ifaces \<and> card (dom (n_mons s)) + length (n_todo s) \<le> length ifaces \<and>
      (n_phase s \<noteq> NServing \<longrightarrow> n_todo s = []) \<and>
      (n_phase s = NOver \<longrightarrow> all_stopped s \<and> filters_reset P ifaces (n_hist s)))"

section \<open>The invariant\<close>

lemma stop_inv_history [simp]: "stop_inv (on_history h t) = stop_inv t" "sys_todo (on_history h t) = sys_todo t"
  by (simp_all add: stop_inv_def ended_def sys_todo_def on_history_def)

lemma fresh_stop_inv: "stop_inv (fresh_system m h)"
  by (simp add: stop_inv_def fresh_system_def)

text \<open>A monitor that was stopped makes no more steps.\<close>

lemma ended_stuck: "mstep P l s t \<Longrightarrow> stop_inv s \<Longrightarrow> main s \<noteq> MDone"
  by (induction rule: mstep.induct) (auto simp: stop_inv_def ended_def)

lemma reset_runs:
  assumes "only reset_call h' h"
  shows "\<exists>cs. runs h' = cs @ runs h \<and> (\<forall>(c, r)\<in>set cs. \<exists>n. c \<in> set (reset_cmds n))"
proof -
  obtain g where h': "h' = g @ h" and g: "\<forall>c\<in>set g. reset_call c" using assms by (auto simp: only_def list_all_iff)
  from g have "\<exists>cs. runs (g @ h) = cs @ runs h \<and> (\<forall>(c, r)\<in>set cs. \<exists>n. c \<in> set (reset_cmds n))"
  proof (induction g)
    case (Cons c g)
    then obtain cs where cs: "runs (g @ h) = cs @ runs h" "\<forall>(c, r)\<in>set cs. \<exists>n. c \<in> set (reset_cmds n)" by auto
    show ?case
    proof (cases c)
      case (CRun cmd r)
      with cs Cons.prems show ?thesis by (intro exI [of _ "(cmd, r) # cs"]) auto
    qed (use cs in auto)
  qed simp
  with h' show ?thesis by simp
qed

lemma reset_filters:
  assumes "resetInterfaces E ifaces h = (r, h')" and "P E"
  shows "filters_reset P ifaces (case r of None \<Rightarrow> h' | Some e \<Rightarrow> CLogError ''reset interfaces'' e # h')"
proof -
  obtain cs where cs: "runs h' = cs @ runs h" "r = None \<longrightarrow> (\<forall>i\<in>set ifaces. \<exists>g ls g'.
      GetAssociatedInterfaces E i g = (Inr ls, g') \<and> (\<forall>n\<in>set ls. \<forall>c\<in>set (reset_cmds n). (c, None) \<in> set cs))"
    using resetInterfaces_ok [OF assms(1)] by blast
  have "only reset_call h' h" using resetInterfaces_reset [of E ifaces h] assms(1) by simp
  from reset_runs [OF this] cs(1) have "\<forall>(c, r)\<in>set cs. \<exists>n. c \<in> set (reset_cmds n)" by auto
  with cs assms(2) show ?thesis unfolding filters_reset_def
    by (intro exI [of _ E] exI [of _ cs] exI [of _ "runs h"]) (cases r; auto)
qed

lemma end_inv_step:
  assumes "node_step P key ifaces l s t" and inv: "end_inv P ifaces s"
  shows "end_inv P ifaces t"
  using assms(1)
proof cases
  case (monitor_started E i rest m h)
  then have "n_phase s = NServing" and i: "i \<in> set ifaces" and rest: "set rest \<subseteq> set ifaces"
    using inv by (auto simp: end_inv_def)
  moreover have "finite (dom (n_mons s))"
    using inv by (auto simp: end_inv_def intro!: finite_subset [of "dom (n_mons s)" "set ifaces"])
  then have "card (insert i (dom (n_mons s))) \<le> Suc (card (dom (n_mons s)))" by (simp add: card_insert_if)
  ultimately show ?thesis using inv monitor_started(2,4) fresh_stop_inv by (auto simp: end_inv_def)
next
  case (monitor_skipped E i rest e h)
  then show ?thesis using inv by (auto simp: end_inv_def)
next
  case (monitor_moves i t' l' u)
  then have i: "i \<in> set ifaces" "stop_inv t'" using inv by (auto simp: end_inv_def)
  have "stop_inv u" using mstep_stop_inv [OF monitor_moves(4)] i by simp
  moreover have "main t' \<noteq> MDone" using ended_stuck [OF monitor_moves(4)] i by simp
  then have "n_phase s \<noteq> NOver" using inv monitor_moves(3) by (auto simp: end_inv_def all_stopped_def)
  moreover have "insert i (dom (n_mons s)) = dom (n_mons s)" using monitor_moves(3) by auto
  ultimately show ?thesis using inv i monitor_moves(2) by (auto simp: end_inv_def)
next
  case signalled
  then show ?thesis using inv by (simp add: end_inv_def)
next
  case (returned E r h)
  then show ?thesis
    using inv reset_filters [where P = P, OF returned(6,3)] by (simp add: end_inv_def all_stopped_def)
qed

section \<open>Progress\<close>

lemma sum_update:
  assumes "finite A" and "i \<in> A"
  shows "(\<Sum>j\<in>A. mon_todo ((M(i \<mapsto> u)) j)) + mon_todo (M i) = (\<Sum>j\<in>A. mon_todo (M j)) + sys_todo u"
proof -
  have "(\<Sum>j\<in>A - {i}. mon_todo ((M(i \<mapsto> u)) j)) = (\<Sum>j\<in>A - {i}. mon_todo (M j))"
    by (rule sum.cong) auto
  with assms show ?thesis by (simp add: sum.remove [of A i] mon_todo_def)
qed

lemma move_progress:
  assumes "n_mons s i = Some t" and "mstep P l (on_history (n_hist s) t) u" and "sys_todo u < sys_todo t"
    and "may_move s t u" and "i \<in> set ifaces"
  shows "\<exists>l t. node_step P key ifaces l s t \<and> node_todo ifaces t < node_todo ifaces s"
proof -
  let ?t = "s\<lparr>n_hist := hst u, n_mons := (n_mons s)(i \<mapsto> u)\<rparr>"
  have "node_todo ifaces ?t < node_todo ifaces s"
    using sum_update [of "set ifaces" i "n_mons s" u] assms(1,3,5) by (simp add: node_todo_def mon_todo_def)
  with monitor_moves [OF assms(1,2,4)] show ?thesis by blast
qed

lemma start_progress:
  assumes "P E" and "n_todo s = i # rest" and "\<not> busy s" and "i \<in> set ifaces"
  shows "\<exists>l t. node_step P key ifaces l s t \<and> node_todo ifaces t < node_todo ifaces s"
proof -
  obtain x h where x: "start_setup E (monitor_config key i) (n_hist s) = (x, h)" by fastforce
  show ?thesis
  proof (cases x)
    case (Inl e)
    with monitor_skipped [where P = P, OF assms(1-3)] x assms(2) show ?thesis
      by (fastforce simp: node_todo_def)
  next
    case (Inr m)
    let ?t = "s\<lparr>n_hist := h, n_mons := (n_mons s)(i \<mapsto> fresh_system m h), n_todo := rest\<rparr>"
    have "sys_todo (fresh_system m h) < 20" using sys_todo_bound [of "fresh_system m h"] by simp
    then have "node_todo ifaces ?t < node_todo ifaces s"
      using sum_update [of "set ifaces" i "n_mons s" "fresh_system m h"] assms(2,4) by (simp add: node_todo_def)
    with monitor_started [where P = P, OF assms(1-3) x [unfolded Inr]] show ?thesis by blast
  qed
qed

lemma busy_progress:
  assumes "P E" and "attaches E" and "end_inv P ifaces s" and "busy s"
  shows "\<exists>l t. node_step P key ifaces l s t \<and> node_todo ifaces t < node_todo ifaces s"
proof -
  obtain i t where t: "n_mons s i = Some t" "main t \<notin> {MRun, MDone}" using assms(4) by (auto simp: busy_def)
  then have i: "i \<in> set ifaces" "stop_inv t" using assms(3) by (auto simp: end_inv_def)
  obtain l u where "mstep P l (on_history (n_hist s) t) u" "sys_todo u < sys_todo t"
    using stopping.progress [of "on_history (n_hist s) t" P] assms(1,2) t(2) i(2) by auto
  then show ?thesis using t by (intro move_progress [OF t(1) _ _ _ i(1)]) (auto simp: may_move_def)
qed

lemma stop_progress:
  assumes "P E" and "end_inv P ifaces s" and "\<not> busy s" and "n_phase s = NStopping"
  shows "\<exists>l t. node_step P key ifaces l s t \<and> node_todo ifaces t < node_todo ifaces s"
proof (cases "all_stopped s")
  case True
  obtain r h where "resetInterfaces E ifaces (n_hist s) = (r, h)" by fastforce
  with returned [where P = P, OF assms(1,4) True] assms(4) show ?thesis by (fastforce simp: node_todo_def)
next
  case False
  then obtain i t where t: "n_mons s i = Some t" "main t = MRun"
    using assms(3) by (auto simp: all_stopped_def busy_def)
  then have i: "i \<in> set ifaces" using assms(2) by (auto simp: end_inv_def)
  let ?u = "(on_history (n_hist s) t)\<lparr>main := MStop\<rparr>"
  have "mstep P LTau (on_history (n_hist s) t) ?u" using t(2) by (intro main_shutdown) simp
  moreover have "sys_todo ?u < sys_todo t" using t(2) by (simp add: sys_todo_def on_history_def)
  ultimately show ?thesis using assms(3,4)
    by (intro move_progress [OF t(1) _ _ _ i]) (auto simp: may_move_def)
qed

interpretation ending: progress_system "node_init P ifaces" "node_step P key ifaces" "end_inv P ifaces"
    "\<lambda>s. n_phase s = NOver \<or> (\<forall>E. P E \<longrightarrow> \<not> attaches E)" "node_todo ifaces" for P key ifaces
proof unfold_locales
  show "end_inv P ifaces s" if "node_init P ifaces s" for s
    using that by (auto elim!: node_init.cases simp: end_inv_def)
  show "end_inv P ifaces t" if "end_inv P ifaces s" "node_step P key ifaces l s t" for s l t
    using that end_inv_step by blast
  show "\<exists>l t. node_step P key ifaces l s t \<and> node_todo ifaces t < node_todo ifaces s"
    if inv: "end_inv P ifaces s" and "\<not> (n_phase s = NOver \<or> (\<forall>E. P E \<longrightarrow> \<not> attaches E))" for s
  proof -
    from that(2) obtain E where E: "P E" "attaches E" and ph: "n_phase s \<noteq> NOver" by blast
    consider "busy s" | i rest where "\<not> busy s" "n_todo s = i # rest"
      | "\<not> busy s" "n_todo s = []" "n_phase s = NServing" | "\<not> busy s" "n_phase s = NStopping"
      using ph by (cases "n_todo s"; cases "n_phase s") auto
    then show ?thesis
    proof cases
      case 1
      show ?thesis by (rule busy_progress [where P = P, OF E inv 1])
    next
      case (2 i rest)
      then have "i \<in> set ifaces" using inv by (auto simp: end_inv_def)
      then show ?thesis by (rule start_progress [where P = P, OF E(1) 2(2,1)])
    next
      case 3
      then show ?thesis using signalled [OF 3(3,2,1)] by (fastforce simp: node_todo_def)
    next
      case 4
      then show ?thesis by (rule stop_progress [where P = P, OF E(1) inv])
    qed
  qed
qed

lemma node_todo_bound:
  assumes "end_inv P ifaces s" shows "node_todo ifaces s \<le> 20 * length ifaces + 2"
proof -
  have "mon_todo (n_mons s i) \<le> (if i \<in> dom (n_mons s) then 19 else 0)" for i
    using sys_todo_bound by (auto simp: mon_todo_def split: option.splits)
  then have "(\<Sum>i\<in>set ifaces. mon_todo (n_mons s i)) \<le> (\<Sum>i\<in>set ifaces. if i \<in> dom (n_mons s) then 19 else 0)"
    by (intro sum_mono)
  also have "set ifaces \<inter> dom (n_mons s) = dom (n_mons s)" using assms by (auto simp: end_inv_def)
  then have "(\<Sum>i\<in>set ifaces. if i \<in> dom (n_mons s) then 19 else 0) = 19 * card (dom (n_mons s))"
    by (simp add: sum.If_cases)
  finally have "(\<Sum>i\<in>set ifaces. mon_todo (n_mons s i)) \<le> 19 * card (dom (n_mons s))" .
  moreover have "phase_todo (n_phase s) \<le> 2" by (cases "n_phase s") simp_all
  moreover have "card (dom (n_mons s)) + length (n_todo s) \<le> length ifaces" using assms by (simp add: end_inv_def)
  ultimately show ?thesis by (simp add: node_todo_def)
qed

text \<open>When \<open>main\<close> has returned there is no step left.\<close>

lemma over_stuck:
  assumes inv: "end_inv P ifaces s" and over: "n_phase s = NOver"
  shows "\<not> node_step P key ifaces l s t"
proof
  assume "node_step P key ifaces l s t"
  then show False
  proof cases
    case (monitor_moves i t' l' u)
    then have "stop_inv (on_history (n_hist s) t')" "main t' = MDone"
      using inv over by (auto simp: end_inv_def all_stopped_def)
    then show False using ended_stuck [OF monitor_moves(4)] by simp
  qed (use inv over in \<open>simp_all add: end_inv_def\<close>)
qed

lemma filters_reset_all:
  assumes "filters_reset (all_ok ifaces ifs) ifaces h"
  shows "\<exists>cs rest. runs h = cs @ rest \<and> (\<forall>(c, r)\<in>set cs. \<exists>n. c \<in> set (reset_cmds n)) \<and>
    ((\<forall>e. CLogError ''reset interfaces'' e \<notin> set h) \<longrightarrow>
       (\<forall>i\<in>set ifaces. \<forall>n\<in>set (ifs i). \<forall>c\<in>set (reset_cmds n). (c, None) \<in> set cs))"
proof -
  obtain E cs rest where E: "all_ok ifaces ifs E" and cs: "runs h = cs @ rest"
    "\<forall>(c, r)\<in>set cs. \<exists>n. c \<in> set (reset_cmds n)"
    and all: "(\<forall>e. CLogError ''reset interfaces'' e \<notin> set h) \<longrightarrow>
        (\<forall>i\<in>set ifaces. \<exists>g ls g'. GetAssociatedInterfaces E i g = (Inr ls, g') \<and>
           (\<forall>n\<in>set ls. \<forall>c\<in>set (reset_cmds n). (c, None) \<in> set cs))"
    using assms unfolding filters_reset_def by blast
  have "stable E i (ifs i)" if "i \<in> set ifaces" for i using E that by (simp add: all_ok_def host_ok_def)
  with all have "(\<forall>e. CLogError ''reset interfaces'' e \<notin> set h) \<longrightarrow>
       (\<forall>i\<in>set ifaces. \<forall>n\<in>set (ifs i). \<forall>c\<in>set (reset_cmds n). (c, None) \<in> set cs)"
    unfolding stable_def by metis
  with cs show ?thesis by blast
qed

section \<open>Properties of the end\<close>



end
