(* ===== verification/Metrics.thy ===== *)
theory Metrics
  imports MonitorSystem
begin

text \<open>
  \<open>internal/metrics/metrics.go\<close> and \<open>pkg/hostap/stats.go\<close>: the names of the two metrics,
  their registration, and the values a scrape of the monitor shows. The values are read off
  the history (\<open>authSuccess\<close> of theory \<open>Monitor\<close> and \<open>authFailed\<close> here); the theory shows that
  they count the messages of hostapd.
\<close>

section \<open>Names and registration\<close>

record metric =
  Name :: string
  Help :: string

definition Namespace :: string where "Namespace = ''authenticator''"
definition Subsystem :: string where "Subsystem = ''hostapd''"

definition AuthSuccess :: metric where
  "AuthSuccess = \<lparr>Name = ''auth_success_total'',
     Help = ''total successful authentications for wpa supplicants''\<rparr>"

definition AuthFailed :: metric where
  "AuthFailed = \<lparr>Name = ''auth_failure_total'',
     Help = ''total failed authentications for wpa supplicants''\<rparr>"

definition stats_labels :: "string list" where "stats_labels = [''interface'']"

text \<open>A collector of Prometheus: its type, full name, help text and label names.\<close>

datatype metric_kind = GaugeVec | CounterVec

type_synonym collector = "metric_kind \<times> string \<times> string \<times> string list"

definition BuildFQName :: "string \<Rightarrow> string \<Rightarrow> string \<Rightarrow> string" where
  "BuildFQName ns sub name =
     (if name = [] then []
      else if ns \<noteq> [] \<and> sub \<noteq> [] then Join [ns, sub, name] ''_''
      else if ns \<noteq> [] then Join [ns, name] ''_''
      else if sub \<noteq> [] then Join [sub, name] ''_''
      else name)"

definition stats :: "collector list" where
  "stats = [(GaugeVec, BuildFQName Namespace Subsystem (Name AuthSuccess), Help AuthSuccess, stats_labels),
            (CounterVec, BuildFQName Namespace Subsystem (Name AuthFailed), Help AuthFailed, stats_labels)]"

text \<open>\<open>MustRegister\<close> panics (\<open>None\<close>) when a collector of that name is there already.\<close>

definition MustRegister :: "collector \<Rightarrow> collector list \<Rightarrow> collector list option" where
  "MustRegister c reg =
     (if fst (snd c) \<in> (\<lambda>d. fst (snd d)) ` set reg then None else Some (reg @ [c]))"

definition stats_init :: "collector list \<Rightarrow> collector list option" where
  "stats_init reg =
     (case MustRegister (stats ! 0) reg of None \<Rightarrow> None | Some reg' \<Rightarrow> MustRegister (stats ! 1) reg')"

lemma stats_init_ok:
  "stats_init [] = Some
     [(GaugeVec, ''authenticator_hostapd_auth_success_total'', Help AuthSuccess, [''interface'']),
      (CounterVec, ''authenticator_hostapd_auth_failure_total'', Help AuthFailed, [''interface''])]"
  by (simp add: stats_init_def MustRegister_def stats_def BuildFQName_def Namespace_def Subsystem_def
      AuthSuccess_def AuthFailed_def stats_labels_def)

section \<open>Values\<close>

text \<open>The value of the counter \<open>auth_failure_total\<close> of an interface.\<close>

fun authFailed :: "hist \<Rightarrow> string \<Rightarrow> int" where
  "authFailed [] i = 0"
| "authFailed (CAuthFailed n # h) i = authFailed h i + (if n = i then 1 else 0)"
| "authFailed (c # h) i = authFailed h i"

text \<open>Calls that count nothing.\<close>

fun uncounted :: "call \<Rightarrow> bool" where
  "uncounted (CAuthenticated n) = False"
| "uncounted (CDeAuthenticated n) = False"
| "uncounted (CAuthFailed n) = False"
| "uncounted c = True"

definition scrape :: "string \<Rightarrow> hist \<Rightarrow> int \<times> int" where
  "scrape i h = (authSuccess h i, authFailed h i)"

lemma uncounted_values: "only uncounted h' h \<Longrightarrow> scrape i h' = scrape i h"
  by (erule only_induct [where f = "scrape i"]) (auto simp: scrape_def elim!: uncounted.elims)

lemma scrape_Cons [simp]: "uncounted c \<Longrightarrow> scrape i (c # h) = scrape i h"
  by (rule uncounted_values) simp

lemma plain_values: "only is_plain h' h \<Longrightarrow> scrape i h' = scrape i h"
  by (rule uncounted_values, erule only_mono) (auto elim!: is_plain.elims)

lemma tc_values: "only is_tc_call h' h \<Longrightarrow> scrape i h' = scrape i h"
  by (rule uncounted_values, erule only_mono)
     (auto simp: is_tc_call_def elim!: is_vf_call.elims is_run_call.elims is_read.elims)

lemmas status_values = updateInterfaceStatus_plain [THEN plain_values]
  opstate_section_plain [THEN plain_values] logEvent_plain [THEN plain_values]

lemma log_values:
  "authSuccess (logEvent E m ty msg h) i = authSuccess h i"
  "authFailed (logEvent E m ty msg h) i = authFailed h i"
  using plain_values [OF logEvent_plain, of i E m ty msg h] by (simp_all add: scrape_def)

lemma switch_values:
  assumes "event_switch E key a m h = (r, m', h')"
  shows "scrape i h' =
    (fst (scrape i h) + (if i \<noteq> IfName m then 0 else if key = eapSuccessEvent then 1
        else if key = staDisconnectedEvent then -1 else 0),
     snd (scrape i h) + (if i = IfName m \<and> key = eapFailureEvent then 1 else 0))"
proof -
  have a: "scrape i h2 = scrape i h1" if "handleAuthenticateEvent E a m h1 = (r, m', h2)" for r m m' h1 h2
    using that tc.allow_calls tc_values
    by (auto simp: handleAuthenticateEvent_def split: prod.splits)
  have d: "scrape i h2 = scrape i h1" if "handleDeAuthenticateEvent E a m h1 = (r, m', h2)" for r m m' h1 h2
    using that tc.deny_calls tc_values
    by (auto simp: handleDeAuthenticateEvent_def split: prod.splits)
  have ne: "eapSuccessEvent \<noteq> staConnectedEvent" "staDisconnectedEvent \<noteq> staConnectedEvent"
    "eapFailureEvent \<noteq> staConnectedEvent" "staDisconnectedEvent \<noteq> eapSuccessEvent"
    "eapFailureEvent \<noteq> eapSuccessEvent" "eapFailureEvent \<noteq> staDisconnectedEvent"
    by (simp_all add: event_defs)
  consider "key = staConnectedEvent" | "key = staDisconnectedEvent"
    | "key \<noteq> staConnectedEvent" "key \<noteq> staDisconnectedEvent" by blast
  then show ?thesis
  proof cases
    case 1
    with assms a ne show ?thesis by (auto simp: event_switch_def)
  next
    case 2
    with assms ne have "handleDeAuthenticateEvent E a m (CDeAuthenticated (IfName m) #
        logEvent E m EventTypeNormal (''deauthenticated supplicant '' @ a) h) = (r, m', h')"
      by (simp add: event_switch_def stats_DeAuthenticated_def)
    from d [OF this] 2 ne show ?thesis by (auto simp: scrape_def log_values)
  next
    case 3
    with assms ne show ?thesis
      by (auto simp: event_switch_def stats_Authenticated_def stats_AuthFailed_def scrape_def log_values
          split: if_splits)
  qed
qed

lemma vlan_values:
  assumes "handlePfEventForVfVlanChange E m h = (m', h')"
  shows "scrape i h' = scrape i h \<and> IfName m' = IfName m"
proof -
  obtain r pf h1 where p: "HandlePfEventForVlanChange E (PfInfo m) h = (r, pf, h1)"
    by (metis prod_cases3)
  then have "only is_vf_call h1 h"
    by (auto simp: HandlePfEventForVlanChange_def LinkByName_def split: sum.splits
        dest!: vlan_change_loop_only only_Cons)
  then have "scrape i h1 = scrape i h" by (intro tc_values only_vf_tc)
  with p assms show ?thesis
    by (auto simp: handlePfEventForVfVlanChange_def split: option.splits)
qed

lemma timeout_values:
  "timeout_loop E now reqs m h = (m', h') \<Longrightarrow> scrape i h' = scrape i h \<and> IfName m' = IfName m"
proof (induction reqs arbitrary: m h)
  case (Cons q rest)
  obtain a ts where q: "q = (a, ts)" by fastforce
  obtain r pf h1 where d: "DenyTrafficFromMac E (expel a (PfInfo m)) a h = (r, pf, h1)"
    by (metis prod_cases3)
  have "scrape i h1 = scrape i h" using tc_values [OF tc.deny_calls [OF d]] .
  with Cons q d show ?case by (auto split: if_splits option.splits dest!: Cons.IH)
qed simp

lemma restore_values:
  assumes "stop_restore E m h = (m', h')" shows "scrape i h' = scrape i h \<and> IfName m' = IfName m"
proof -
  have "scrape i (snd (ConfigureVlanStateForVFs E pf h)) = scrape i h" for pf
    by (intro tc_values only_vf_tc ConfigureVlanStateForVFs_only)
  then show ?thesis
    using assms by (auto simp: stop_restore_def Let_def split: if_splits prod.splits option.splits)
      (metis snd_conv)+
qed

lemma setup_values:
  assumes "start_setup E c [] = (Inr m, h)" shows "scrape i h = (0, 0) \<and> IfName m = IfName c"
proof -
  have v: "scrape i h2 = scrape i h1" if "ConfigureVlanStateForVFs E pf h1 = (r, h2)" for pf r h1 h2
    using that tc_values [OF only_vf_tc [OF ConfigureVlanStateForVFs_only [of E pf h1]]] by simp
  show ?thesis
    using assms
    by (auto simp: start_setup_def go_defs GetSriovPFInfo_def MonitorConfig.defs Let_def
        split: prod.splits option.splits sum.splits dest!: v)
      (simp add: scrape_def)
qed

section \<open>What is counted\<close>

text \<open>The counters as a system of their own, driven by the messages.\<close>

fun count_step :: "label \<Rightarrow> int \<times> int \<Rightarrow> int \<times> int" where
  "count_step (LMsg key a) (g, f) =
     (g + (if key = eapSuccessEvent then 1 else if key = staDisconnectedEvent then -1 else 0),
      f + (if key = eapFailureEvent then 1 else 0))"
| "count_step l v = v"

definition messages :: "string \<Rightarrow> label list \<Rightarrow> nat" where
  "messages key tr = length (filter (\<lambda>l. case l of LMsg k a \<Rightarrow> k = key | _ \<Rightarrow> False) tr)"

lemma count_run:
  "run (\<lambda>v. v = (0, 0)) (\<lambda>l v w. w = count_step l v) tr v \<Longrightarrow>
   v = (int (messages eapSuccessEvent tr) - int (messages staDisconnectedEvent tr),
        int (messages eapFailureEvent tr))"
proof (induction rule: run.induct)
  case (run_step tr s l t)
  then show ?case by (cases l) (auto simp: messages_def event_defs)
qed (simp add: messages_def)

lemma mstep_counts:
  "mstep P l s t \<Longrightarrow> IfName (mon s) = i \<Longrightarrow>
     scrape i (hst t) = count_step l (scrape i (hst s)) \<and> IfName (mon t) = i"
proof (induction rule: mstep.induct)
  case (reply_event E s ev key arg rest r m h)
  have "IfName m = i"
    using reply_event(4,5) by (auto simp: event_switch_def handleAuthenticateEvent_def
        handleDeAuthenticateEvent_def split: if_splits prod.splits)
  then show ?case
    using switch_values [OF reply_event(4), of i] reply_event(5)
    by (cases "scrape i (hst s)") (simp add: event_defs)
next
  case (reply_publish E s r r' h)
  then show ?case
    using plain_values [OF updateInterfaceStatus_plain, of i E "mon s" "hst s"]
    by (cases r) simp_all
next
  case (if_opstate E s m h)
  moreover have "IfName m = IfName (mon s)"
    using if_opstate(3) by (auto simp: opstate_section_def Let_def split: if_splits prod.splits)
  ultimately show ?case
    using plain_values [OF opstate_section_plain, of i E "mon s" "hst s"] by simp
next
  case (if_write E s r h)
  then show ?case by (auto simp: writeCommand_def go_defs Let_def)
next
  case (if_vlan E s m h)
  then show ?case using vlan_values [OF if_vlan(3), of i] by simp
next
  case (keep_round E s go h)
  then show ?case
    by (auto simp: keepalive_round_def go_defs Let_def split: option.splits if_splits)
next
  case (timer_tick E s m h)
  then show ?case
    using timeout_values [of E _ _ "mon s" _ m h i]
    by (auto simp: handleRequestsTimeout_def go_defs)
next
  case (main_attach E s r h)
  then show ?case by (auto simp: go_defs Let_def split: option.splits)
next
  case (main_status E s r h)
  then show ?case by (auto simp: writeCommand_def go_defs Let_def)
next
  case (main_update E s r h)
  then show ?case
    using plain_values [OF updateInterfaceStatus_plain, of i E "mon s" "hst s"] by simp
next
  case (main_restore E s m h)
  then show ?case using restore_values [OF main_restore(3), of i] by simp
next
  case (main_unsub E s)
  then show ?case by (auto simp: stop_close_def go_defs Let_def split: option.splits)
qed (simp_all split: if_splits)

interpretation counters: simulated_system "sys_init P c" "mstep P" "\<lambda>s. IfName (mon s) = IfName c"
    "\<lambda>v. v = (0, 0)" "\<lambda>l v w. w = count_step l v" "\<lambda>s. scrape (IfName c) (hst s)" for P c
proof unfold_locales
  show "IfName (mon s) = IfName c" and "scrape (IfName c) (hst s) = (0, 0)" if "sys_init P c s" for s
    using that setup_values by (auto elim!: sys_init.cases)
  show "IfName (mon t) = IfName c" and "scrape (IfName c) (hst t) = count_step l (scrape (IfName c) (hst s))"
    if "IfName (mon s) = IfName c" "mstep P l s t" for s l t
    using mstep_counts [OF that(2,1)] by simp_all
qed

text \<open>
  C27. What a scrape shows. Along every interleaving of the monitor's goroutines, the
  gauge \<open>auth_success_total\<close> of its interface is the number of \<open>CTRL-EVENT-EAP-SUCCESS\<close>
  messages less the number of \<open>AP-STA-DISCONNECTED\<close> messages handled, and the
  counter \<open>auth_failure_total\<close> the number of \<open>CTRL-EVENT-EAP-FAILURE\<close> messages; the
  expiry of requests, link events and the shutdown change neither. So the gauge is not a
  total of successes, and it is below zero when clients that did not authenticate are
  disconnected.
\<close>

theorem metrics_count:
  assumes "run (sys_init P c) (mstep P) tr s"
  shows "authSuccess (hst s) (IfName c) =
      int (messages eapSuccessEvent tr) - int (messages staDisconnectedEvent tr) \<and>
    authFailed (hst s) (IfName c) = int (messages eapFailureEvent tr)"
  using count_run [OF counters.sim_run [OF assms]] by (simp add: scrape_def)

text \<open>A station that never authenticated is disconnected: the gauge goes below zero.\<close>

theorem metrics_count_witness:
  "\<exists>s. run (sys_init (\<lambda>E. E = E0) c0) (mstep (\<lambda>E. E = E0)) [LMsg staDisconnectedEvent ''aa'', LTau] s \<and>
     authSuccess (hst s) ''eth0'' = -1 \<and> authFailed (hst s) ''eth0'' = 0"
proof -
  let ?P = "\<lambda>E. E = E0"
  obtain r m h where sw: "event_switch E0 staDisconnectedEvent ''aa'' (mon s0) (hst s0) = (r, m, h)"
    by (metis prod_cases3)
  have ev: "Split (receive ''<3>AP-STA-DISCONNECTED aa'') (CHR '' '') = [''<3>AP-STA-DISCONNECTED'', ''aa'']"
    and key: "after_first ''<3>AP-STA-DISCONNECTED'' (CHR ''>'') = staDisconnectedEvent"
    by code_simp+
  have "reply s0 = RIdle" "\<not> stop s0" by (simp_all add: s0_def)
  from message_run [where P = ?P, OF s0_run [where P = ?P, OF refl] refl this ev, unfolded key, OF sw]
  have run: "run (sys_init ?P c0) (mstep ?P) [LMsg staDisconnectedEvent ''aa'', LTau]
      (s0\<lparr>mon := m, hst := h, reply := RStatus r\<rparr>)" (is "run _ _ _ ?s") .
  have "IfName c0 = ''eth0''" by (simp add: c0_def NewInterfaceMonitor_def)
  then have "authSuccess (hst ?s) ''eth0'' = -1 \<and> authFailed (hst ?s) ''eth0'' = 0"
    using metrics_count [OF run] by (simp add: messages_def event_defs)
  with run show ?thesis by blast
qed

end
