(* ===== verification/LinkEvents.thy ===== *)
theory LinkEvents
  imports Host
begin

text \<open>
  \<open>pkg/netlink/eventhandle.go\<close>: one goroutine receives the link updates of the
  kernel and passes each to the channel subscribed for the interface's name. First the
  subscription table; then the interleaving of that goroutine with the receivers of the
  channels (\<open>handleIfEvents\<close> of the monitors) and with their shutdown.
\<close>

section \<open>Subscriptions\<close>

text \<open>A channel is named by a number; \<open>None\<close> is the nil channel.\<close>

type_synonym channel = nat

record LinkEventHandler =
  ifaceChannels :: "(string \<times> channel) list"

definition Start :: LinkEventHandler where
  "Start = \<lparr>ifaceChannels = []\<rparr>"

definition Subscribe ::
  "channel option \<Rightarrow> string list \<Rightarrow> LinkEventHandler \<Rightarrow> err option \<times> LinkEventHandler" where
  "Subscribe eventChannel ifNames l =
     (case eventChannel of
        None \<Rightarrow> (Some (NewErr ''event channel can not be empty''), l)
      | Some ch \<Rightarrow>
          (None, l\<lparr>ifaceChannels := fold (\<lambda>n. AList.update n ch) ifNames (ifaceChannels l)\<rparr>))"

definition Unsubscribe :: "string list \<Rightarrow> LinkEventHandler \<Rightarrow> LinkEventHandler" where
  "Unsubscribe ifNames l = l\<lparr>ifaceChannels := fold AList.delete ifNames (ifaceChannels l)\<rparr>"

text \<open>The channel an update goes to; \<open>None\<close>: it is dropped.\<close>

definition dispatch :: "Link \<Rightarrow> LinkEventHandler \<Rightarrow> channel option" where
  "dispatch update l = map_of (ifaceChannels l) (link_Name update)"

text \<open>
  After subscribing, updates of exactly the named interfaces go to the new channel and
  all others go where they went before; a nil channel is refused and changes nothing;
  after unsubscribing, updates of the named interfaces are dropped and all others go where
  they went before. The table keeps one channel per name.
\<close>

lemma subscriptions:
  "map_ok (ifaceChannels l) \<longrightarrow>
     Subscribe None ns l = (Some (NewErr ''event channel can not be empty''), l) \<and>
     (let (r, l') = Subscribe (Some ch) ns l in r = None \<and> map_ok (ifaceChannels l') \<and>
        (\<forall>u. dispatch u l' = (if link_Name u \<in> set ns then Some ch else dispatch u l))) \<and>
     (let l' = Unsubscribe ns l in map_ok (ifaceChannels l') \<and>
        (\<forall>u. dispatch u l' = (if link_Name u \<in> set ns then None else dispatch u l)))"
  by (simp add: Subscribe_def Unsubscribe_def dispatch_def amap.look_put_all amap.look_del_all
      amap.ok_put_all amap.ok_del_all)

lemma subscriptions_example:
  "dispatch \<lparr>link_Name = ''eth0'', OperState = OperUp, link_Vfs = []\<rparr>
     (snd (Subscribe (Some 7) [''eth0'', ''eth1''] Start)) = Some 7"
  using subscriptions [of Start "[''eth0'', ''eth1'']" 7]
  by (simp add: Start_def Let_def split_beta)

section \<open>Delivery and shutdown\<close>

text \<open>
  The handler goroutine has yet to subscribe to netlink, is in its \<open>select\<close>, holds the
  mutex and is blocked in \<open>ch <- linkUpdateEvent\<close> on an unbuffered channel, or has
  panicked or returned. A receiver waits in its \<open>select\<close>, handles an update, or has closed
  its channel and returned. A monitor subscribes when it starts; its shutdown closes its
  \<open>stop\<close> and then calls \<open>Unsubscribe\<close>. \<open>StopHandler\<close> is called after all monitors of the
  list \<open>monitors\<close> have been stopped; \<open>hstop\<close> and \<open>done_closed\<close> say whether the handler's stop
  channel and the channel that ends the netlink subscription are closed, and \<open>drain\<close>
  whether the goroutine of \<open>closeLinkSubscribe\<close> that reads the rest of the updates runs.
\<close>

datatype handler_pc = HStart | HIdle | HSend channel Link | HPanic | HReturned

datatype receiver_pc = RWait | RBusy | RClosed

datatype stopper_pc = SNew | SRun | SStopped | SUnsubscribed

record delivery =
  handler :: LinkEventHandler
  hpc :: handler_pc
  hstop :: bool
  done_closed :: bool
  drain :: bool
  receiver :: "channel \<Rightarrow> receiver_pc"
  stopper :: "channel \<Rightarrow> stopper_pc"
  monitors :: "channel list"
  name_of :: "channel \<Rightarrow> string"

datatype link_label = LUpdate Link | LDeliver channel Link | LStop channel | LInternal

text \<open>\<open>Start\<close> of the handler, with the monitors still to come.\<close>

definition delivery_init :: "delivery \<Rightarrow> bool" where
  "delivery_init s = (handler s = Start \<and> hpc s = HStart \<and> \<not> hstop s \<and> \<not> done_closed s \<and> \<not> drain s \<and>
     (\<forall>c. receiver s c = RWait \<and> stopper s c = SNew))"

text \<open>\<open>closeLinkSubscribe\<close>.\<close>

definition closeLinkSubscribe :: "delivery \<Rightarrow> delivery" where
  "closeLinkSubscribe s = s\<lparr>done_closed := True, drain := True\<rparr>"

definition sending :: "delivery \<Rightarrow> bool" where
  "sending s = (case hpc s of HSend c u \<Rightarrow> True | _ \<Rightarrow> False)"

inductive delivery_step :: "link_label \<Rightarrow> delivery \<Rightarrow> delivery \<Rightarrow> bool" where
  link_subscribe: "hpc s = HStart \<Longrightarrow> delivery_step LInternal s (s\<lparr>hpc := HIdle\<rparr>)"
| link_subscribe_fails: "hpc s = HStart \<Longrightarrow>
     delivery_step LInternal s (s\<lparr>hpc := HReturned, done_closed := True\<rparr>)"
| update: "hpc s = HIdle \<Longrightarrow>
     delivery_step (LUpdate u) s
       (case dispatch u (handler s) of None \<Rightarrow> s | Some c \<Rightarrow> s\<lparr>hpc := HSend c u\<rparr>)"
| updates_closed: "hpc s = HIdle \<Longrightarrow>
     delivery_step LInternal s ((closeLinkSubscribe s)\<lparr>hpc := HReturned\<rparr>)"
| deliver: "hpc s = HSend c u \<Longrightarrow> receiver s c = RWait \<Longrightarrow>
     delivery_step (LDeliver c u) s (s\<lparr>hpc := HIdle, receiver := (receiver s)(c := RBusy)\<rparr>)"
| send_closed: "hpc s = HSend c u \<Longrightarrow> receiver s c = RClosed \<Longrightarrow>
     delivery_step LInternal s (s\<lparr>hpc := HPanic\<rparr>)"
| handled: "receiver s c = RBusy \<Longrightarrow>
     delivery_step LInternal s (s\<lparr>receiver := (receiver s)(c := RWait)\<rparr>)"
| subscribe: "stopper s c = SNew \<Longrightarrow> c \<in> set (monitors s) \<Longrightarrow> \<not> sending s \<Longrightarrow>
     delivery_step LInternal s (s\<lparr>handler := snd (Subscribe (Some c) [name_of s c] (handler s)),
       stopper := (stopper s)(c := SRun)\<rparr>)"
| stop_monitor: "stopper s c = SRun \<Longrightarrow>
     delivery_step (LStop c) s (s\<lparr>stopper := (stopper s)(c := SStopped)\<rparr>)"
| receiver_exit: "receiver s c = RWait \<Longrightarrow> stopper s c \<in> {SStopped, SUnsubscribed} \<Longrightarrow>
     delivery_step LInternal s (s\<lparr>receiver := (receiver s)(c := RClosed)\<rparr>)"
| unsubscribe: "stopper s c = SStopped \<Longrightarrow> \<not> sending s \<Longrightarrow>
     delivery_step LInternal s (s\<lparr>handler := Unsubscribe [name_of s c] (handler s),
       stopper := (stopper s)(c := SUnsubscribed)\<rparr>)"
| stop_handler: "\<forall>c\<in>set (monitors s). stopper s c = SUnsubscribed \<and> receiver s c = RClosed \<Longrightarrow>
     \<not> hstop s \<Longrightarrow> delivery_step LInternal s (s\<lparr>hstop := True\<rparr>)"
| handler_stops: "hpc s = HIdle \<Longrightarrow> hstop s \<Longrightarrow>
     delivery_step LInternal s ((closeLinkSubscribe s)\<lparr>hpc := HReturned\<rparr>)"

text \<open>Channels are closed by their receivers, after \<open>stop\<close>; the table has channels of monitors
  that have subscribed and not unsubscribed; the handler sends an update to the channel
  subscribed for its interface.\<close>

definition delivery_inv :: "delivery \<Rightarrow> bool" where
  "delivery_inv s = (map_ok (ifaceChannels (handler s)) \<and>
     (\<forall>n c. map_of (ifaceChannels (handler s)) n = Some c \<longrightarrow>
        n = name_of s c \<and> c \<in> set (monitors s) \<and> stopper s c \<in> {SRun, SStopped}) \<and>
     (\<forall>c. receiver s c = RClosed \<longrightarrow> stopper s c \<in> {SStopped, SUnsubscribed}) \<and>
     (\<forall>c u. hpc s = HSend c u \<longrightarrow> dispatch u (handler s) = Some c) \<and>
     (hpc s = HPanic \<longrightarrow> (\<exists>c. stopper s c \<in> {SStopped, SUnsubscribed})) \<and>
     (hstop s \<longrightarrow> (\<forall>c\<in>set (monitors s). stopper s c = SUnsubscribed)) \<and>
     (hpc s = HReturned \<longleftrightarrow> done_closed s))"

lemma panic_stopped:
  "delivery_inv s \<Longrightarrow> hpc s = HPanic \<Longrightarrow> \<exists>c. stopper s c \<in> {SStopped, SUnsubscribed}"
  by (simp add: delivery_inv_def)

lemma table_empty:
  assumes "delivery_inv s" and "\<forall>c\<in>set (monitors s). stopper s c = SUnsubscribed"
  shows "map_of (ifaceChannels (handler s)) n = None"
proof (rule ccontr)
  assume "\<not> ?thesis"
  then obtain c where "map_of (ifaceChannels (handler s)) n = Some c" by blast
  with assms(1) have "c \<in> set (monitors s)" "stopper s c \<in> {SRun, SStopped}"
    unfolding delivery_inv_def by blast+
  with assms(2) show False by auto
qed

lemma delivery_step_inv: "delivery_step l s t \<Longrightarrow> delivery_inv s \<Longrightarrow> delivery_inv t"
proof (induction rule: delivery_step.induct)
  case (update s u)
  then show ?case by (cases "dispatch u (handler s)") (auto simp: delivery_inv_def)
next
  case (unsubscribe s c)
  then show ?case
    by (auto simp: delivery_inv_def Unsubscribe_def amap.ok_del amap.look_del sending_def
        split: if_splits handler_pc.splits)
next
  case (subscribe s c)
  have "\<exists>d. d \<noteq> c \<and> stopper s d \<in> {SStopped, SUnsubscribed}" if "hpc s = HPanic"
  proof -
    from panic_stopped [OF subscribe(4) that] obtain d where "stopper s d \<in> {SStopped, SUnsubscribed}" ..
    with subscribe(1) show ?thesis by (intro exI [of _ d]) auto
  qed
  with subscribe show ?case
    by (auto simp: delivery_inv_def Subscribe_def amap.ok_put amap.look_put sending_def
        split: if_splits handler_pc.splits)
next
  case (stop_handler s)
  then have "map_of (ifaceChannels (handler s)) n = None" for n by (intro table_empty) simp_all
  with stop_handler show ?case by (simp add: delivery_inv_def)
next
  case (handler_stops s)
  then have "\<forall>c\<in>set (monitors s). stopper s c = SUnsubscribed" unfolding delivery_inv_def by blast
  with handler_stops(3) have "map_of (ifaceChannels (handler s)) n = None" for n by (rule table_empty)
  with handler_stops show ?case by (simp add: delivery_inv_def closeLinkSubscribe_def)
qed (auto simp: delivery_inv_def closeLinkSubscribe_def)

interpretation links: invariant_system delivery_init delivery_step delivery_inv
proof unfold_locales
  show "delivery_inv s" if "delivery_init s" for s
    using that by (auto simp: delivery_init_def delivery_inv_def Start_def)
  show "delivery_inv t" if "delivery_inv s" "delivery_step l s t" for l s t
    using delivery_step_inv that by blast
qed

inductive_cases deliver_cases: "delivery_step (LDeliver c u) s t"

lemma target_subscribed:
  assumes "delivery_inv s" and "dispatch u (handler s) = Some c"
  shows "link_Name u = name_of s c \<and> c \<in> set (monitors s) \<and> stopper s c \<in> {SRun, SStopped} \<and> \<not> hstop s"
proof -
  from assms have c: "link_Name u = name_of s c" "c \<in> set (monitors s)" "stopper s c \<in> {SRun, SStopped}"
    unfolding delivery_inv_def dispatch_def by blast+
  then have "stopper s c \<noteq> SUnsubscribed" by auto
  with c assms(1) show ?thesis unfolding delivery_inv_def by blast
qed

text \<open>
  C32. Whatever the interleaving of the event handler, the monitors and their shutdown, an
  update is delivered only to the channel of the interface it is about, of a monitor that
  has subscribed and not unsubscribed, into a receiver that waits for it, and the
  subscription table keeps one channel per name; and as long as no monitor is being
  stopped the handler does not panic.
\<close>

theorem link_delivery:
  assumes "run delivery_init delivery_step tr s"
  shows "map_ok (ifaceChannels (handler s)) \<and>
    (\<forall>c u t. delivery_step (LDeliver c u) s t \<longrightarrow>
       name_of s c = link_Name u \<and> stopper s c \<in> {SRun, SStopped} \<and>
       receiver s c = RWait \<and> receiver t c = RBusy) \<and>
    ((\<forall>c. stopper s c \<in> {SNew, SRun}) \<longrightarrow> hpc s \<noteq> HPanic)"
proof -
  have inv: "delivery_inv s" by (rule links.inv_run [OF assms])
  have "name_of s c = link_Name u \<and> stopper s c \<in> {SRun, SStopped} \<and>
      receiver s c = RWait \<and> receiver t c = RBusy"
    if "delivery_step (LDeliver c u) s t" for c u t
  proof -
    from that have "hpc s = HSend c u" "receiver s c = RWait" "receiver t c = RBusy"
      by (auto elim: deliver_cases)
    moreover from this(1) inv have "dispatch u (handler s) = Some c" by (simp add: delivery_inv_def)
    ultimately show ?thesis using target_subscribed [OF inv] by simp
  qed
  moreover have "hpc s \<noteq> HPanic" if "\<forall>c. stopper s c \<in> {SNew, SRun}"
  proof
    assume "hpc s = HPanic"
    from panic_stopped [OF inv this] obtain c where "stopper s c \<in> {SStopped, SUnsubscribed}" ..
    with that [rule_format, of c] show False by auto
  qed
  ultimately show ?thesis using inv by (auto simp: delivery_inv_def)
qed

text \<open>One monitor, of \<open>eth0\<close>, on channel 0.\<close>

definition d0 :: delivery where
  "d0 = \<lparr>handler = Start, hpc = HStart, hstop = False, done_closed = False, drain = False,
     receiver = (\<lambda>_. RWait), stopper = (\<lambda>_. SNew), monitors = [0], name_of = (\<lambda>_. ''eth0'')\<rparr>"

definition d1 :: delivery where
  "d1 = d0\<lparr>hpc := HIdle, handler := snd (Subscribe (Some 0) [''eth0''] Start),
     stopper := (\<lambda>_. SNew)(0 := SRun)\<rparr>"

definition u0 :: Link where
  "u0 = \<lparr>link_Name = ''eth0'', OperState = OperDown, link_Vfs = []\<rparr>"

lemma d1_run: "run delivery_init delivery_step [LInternal, LInternal] d1"
proof -
  have "delivery_init d0" by (simp add: delivery_init_def d0_def)
  moreover have "delivery_step LInternal d0 (d0\<lparr>hpc := HIdle\<rparr>)"
    by (rule delivery_step.link_subscribe) (simp add: d0_def)
  moreover have "delivery_step LInternal (d0\<lparr>hpc := HIdle\<rparr>) d1"
    using delivery_step.subscribe [of "d0\<lparr>hpc := HIdle\<rparr>" 0] by (simp add: d0_def d1_def sending_def)
  ultimately show ?thesis by (blast intro: run.intros)
qed

lemma d1_update: "run delivery_init delivery_step [LUpdate u0, LInternal, LInternal] (d1\<lparr>hpc := HSend 0 u0\<rparr>)"
proof -
  have "dispatch u0 (handler d1) = Some 0"
    by (simp add: dispatch_def d1_def u0_def Subscribe_def Start_def)
  with delivery_step.update [of d1 u0] have "delivery_step (LUpdate u0) d1 (d1\<lparr>hpc := HSend 0 u0\<rparr>)"
    by (simp add: d1_def)
  with d1_run show ?thesis by (rule run.run_step)
qed

theorem link_delivery_witness:
  "\<exists>t. delivery_step (LDeliver 0 u0) (d1\<lparr>hpc := HSend 0 u0\<rparr>) t \<and> receiver t 0 = RBusy \<and>
     map_ok (ifaceChannels (handler d1))"
proof -
  let ?s = "d1\<lparr>hpc := HSend 0 u0\<rparr>"
  have "delivery_step (LDeliver 0 u0) ?s (?s\<lparr>hpc := HIdle, receiver := (receiver ?s)(0 := RBusy)\<rparr>)"
    by (rule delivery_step.deliver) (simp_all add: d1_def d0_def)
  then show ?thesis using link_delivery [OF d1_update] by auto
qed

text \<open>
  C39. Stopping a monitor can crash the whole process: while the handler is about to send
  an update to a monitor's channel, \<open>StopMonitor\<close> closes \<open>stop\<close> first and
  unsubscribes only afterwards, the receiver sees \<open>stop\<close> and closes its channel, and
  the handler's send hits the closed channel.
\<close>

theorem stop_can_panic:
  "\<exists>s. run delivery_init delivery_step
       [LInternal, LInternal, LStop 0, LUpdate u0, LInternal, LInternal] s \<and> hpc s = HPanic"
proof -
  let ?s1 = "d1\<lparr>hpc := HSend 0 u0\<rparr>"
  let ?s2 = "?s1\<lparr>stopper := (stopper ?s1)(0 := SStopped)\<rparr>"
  let ?s3 = "?s2\<lparr>receiver := (receiver ?s2)(0 := RClosed)\<rparr>"
  have "delivery_step (LStop 0) ?s1 ?s2"
    by (rule delivery_step.stop_monitor) (simp add: d1_def)
  moreover have "delivery_step LInternal ?s2 ?s3"
    by (rule delivery_step.receiver_exit) (simp_all add: d1_def d0_def)
  moreover have "delivery_step LInternal ?s3 (?s3\<lparr>hpc := HPanic\<rparr>)"
    by (rule delivery_step.send_closed [where c = 0]) auto
  ultimately have "run delivery_init delivery_step
      [LInternal, LInternal, LStop 0, LUpdate u0, LInternal, LInternal] (?s3\<lparr>hpc := HPanic\<rparr>)"
    using run.run_step [OF run.run_step [OF run.run_step [OF d1_update]]] by blast
  moreover have "hpc (?s3\<lparr>hpc := HPanic\<rparr>) = HPanic" by simp
  ultimately show ?thesis by blast
qed

text \<open>
  C33. The end of the event handler. Once \<open>StopHandler\<close> has closed the handler's stop channel,
  which it does after every monitor was stopped, no update can be delivered any more and
  the handler is not blocked in a send: it has returned, or it has panicked before, or two
  steps of its own bring it to its return, so the wait in \<open>StopHandler\<close> ends. And
  in every reachable state, shutting down or not, the channel that ends the netlink
  subscription is closed exactly if the handler has returned, so it is closed once.
\<close>

theorem handler_shutdown:
  assumes "run delivery_init delivery_step tr s"
  shows "(hstop s \<longrightarrow> (\<forall>u. dispatch u (handler s) = None) \<and>
      (\<forall>c u t. \<not> delivery_step (LDeliver c u) s t) \<and>
      (hpc s \<in> {HReturned, HPanic} \<or>
       (\<exists>tr' t. run delivery_init delivery_step (tr' @ tr) t \<and> length tr' \<le> 2 \<and>
          hpc t = HReturned \<and> done_closed t))) \<and>
    (done_closed s \<longleftrightarrow> hpc s = HReturned)"
proof (intro conjI impI)
  have inv: "delivery_inv s" by (rule links.inv_run [OF assms])
  then show "done_closed s \<longleftrightarrow> hpc s = HReturned" by (simp add: delivery_inv_def)
  assume stop: "hstop s"
  with inv have none: "dispatch u (handler s) = None" for u
    using target_subscribed [OF inv] by (cases "dispatch u (handler s)") auto
  then show "\<forall>u. dispatch u (handler s) = None" by blast
  have send: "hpc s \<noteq> HSend c u" for c u
    using inv none by (auto simp: delivery_inv_def)
  then show "\<forall>c u t. \<not> delivery_step (LDeliver c u) s t" by (blast elim: deliver_cases)
  have exit: "run delivery_init delivery_step (LInternal # tr1) ((closeLinkSubscribe t)\<lparr>hpc := HReturned\<rparr>)"
    if "run delivery_init delivery_step tr1 t" "hpc t = HIdle" "hstop t" for tr1 t
    using run.run_step [OF that(1) delivery_step.handler_stops [OF that(2,3)]] .
  show "hpc s \<in> {HReturned, HPanic} \<or>
    (\<exists>tr' t. run delivery_init delivery_step (tr' @ tr) t \<and> length tr' \<le> 2 \<and>
       hpc t = HReturned \<and> done_closed t)"
  proof (cases "hpc s")
    case HStart
    from exit [OF run.run_step [OF assms delivery_step.link_subscribe [OF HStart]]] stop
    show ?thesis by (intro disjI2 exI [of _ "[LInternal, LInternal]"] exI conjI) (auto simp: closeLinkSubscribe_def)
  next
    case HIdle
    from exit [OF assms HIdle stop]
    show ?thesis by (intro disjI2 exI [of _ "[LInternal]"] exI conjI) (auto simp: closeLinkSubscribe_def)
  qed (use send in auto)
qed

text \<open>The monitor of \<open>d1\<close> is stopped, and then the handler.\<close>

definition d2 :: delivery where
  "d2 = d1\<lparr>stopper := (stopper d1)(0 := SStopped), receiver := (receiver d1)(0 := RClosed)\<rparr>"

definition d3 :: delivery where
  "d3 = d2\<lparr>handler := Unsubscribe [''eth0''] (handler d2), stopper := (stopper d2)(0 := SUnsubscribed),
     hstop := True\<rparr>"

lemma d2_run: "run delivery_init delivery_step [LInternal, LStop 0, LInternal, LInternal] d2"
proof -
  let ?s = "d1\<lparr>stopper := (stopper d1)(0 := SStopped)\<rparr>"
  have "delivery_step (LStop 0) d1 ?s" by (rule delivery_step.stop_monitor) (simp add: d1_def)
  moreover have "delivery_step LInternal ?s d2"
    using delivery_step.receiver_exit [of ?s 0] by (simp add: d2_def d1_def d0_def)
  ultimately show ?thesis using d1_run by (blast intro: run.run_step)
qed

lemma d3_run:
  "run delivery_init delivery_step [LInternal, LInternal, LInternal, LStop 0, LInternal, LInternal] d3"
proof -
  let ?s = "d2\<lparr>handler := Unsubscribe [''eth0''] (handler d2), stopper := (stopper d2)(0 := SUnsubscribed)\<rparr>"
  have "delivery_step LInternal d2 ?s"
    using delivery_step.unsubscribe [of d2 0] by (simp add: d2_def d1_def d0_def sending_def)
  moreover have "delivery_step LInternal ?s d3"
    using delivery_step.stop_handler [of ?s] by (simp add: d3_def d2_def d1_def d0_def)
  ultimately show ?thesis using d2_run by (blast intro: run.run_step)
qed

theorem handler_shutdown_witness:
  "hstop d3 \<and> hpc d3 = HIdle \<and> dispatch u0 (handler d3) = None \<and>
   (\<exists>tr t. run delivery_init delivery_step tr t \<and> hpc t = HReturned \<and> done_closed t)"
proof -
  have "hstop d3" "hpc d3 = HIdle" by (simp_all add: d3_def d2_def d1_def)
  with handler_shutdown [OF d3_run] show ?thesis by auto
qed

end
