(* ===== verification/Controller.thy ===== *)
theory Controller
  imports ConfigGen
begin

text \<open>
  \<open>controllers/authenticator_controller.go\<close>: the reconciler of the operator. The API
  server answers through a \<open>kenv\<close>, an arbitrary function of the history of calls, so
  the theorems hold for every behaviour of the server and of everybody else who writes to
  it. The RBAC objects the reconciler keeps as templates are its state.
\<close>

section \<open>Objects and calls\<close>

datatype rbac_kind = ServiceAccount | Role | RoleBinding

text \<open>The metadata of an RBAC object and, for a role binding, the namespaces of its
  subjects; the rules of a role are passed on unread.\<close>

record RbacObject =
  ro_Meta :: ObjectMeta
  Subject_Namespaces :: "string list"

record resources =
  r_serviceAccount :: RbacObject
  r_role :: RbacObject
  r_roleBinding :: RbacObject

datatype kcall =
    KGetAuth NamespacedName "Authenticator res"
  | KGetCM NamespacedName "ConfigMap res"
  | KCreateCM ConfigMap "err option"
  | KUpdateCM ConfigMap "err option"
  | KGetRbac rbac_kind NamespacedName "RbacObject res"
  | KCreateRbac rbac_kind RbacObject "RbacObject res"
  | KGetDS NamespacedName "DaemonSet res"
  | KCreateDS DaemonSet "err option"
  | KUpdateDS DaemonSet "err option"

type_synonym khist = "kcall list"

text \<open>A successful create returns the object as the server stored it; the client writes it
  back into the object it was given, which matters for the RBAC templates.\<close>

record kenv =
  k_GetAuth :: "khist \<Rightarrow> NamespacedName \<Rightarrow> Authenticator res"
  k_GetCM :: "khist \<Rightarrow> NamespacedName \<Rightarrow> ConfigMap res"
  k_CreateCM :: "khist \<Rightarrow> ConfigMap \<Rightarrow> err option"
  k_UpdateCM :: "khist \<Rightarrow> ConfigMap \<Rightarrow> err option"
  k_GetRbac :: "khist \<Rightarrow> rbac_kind \<Rightarrow> NamespacedName \<Rightarrow> RbacObject res"
  k_CreateRbac :: "khist \<Rightarrow> rbac_kind \<Rightarrow> RbacObject \<Rightarrow> RbacObject res"
  k_GetDS :: "khist \<Rightarrow> NamespacedName \<Rightarrow> DaemonSet res"
  k_CreateDS :: "khist \<Rightarrow> DaemonSet \<Rightarrow> err option"
  k_UpdateDS :: "khist \<Rightarrow> DaemonSet \<Rightarrow> err option"

section \<open>Controller references\<close>

text \<open>\<open>SetControllerReference\<close> of controller-runtime.\<close>

definition owner_ref :: "Authenticator \<Rightarrow> OwnerReference" where
  "owner_ref a = \<lparr>or_APIVersion = ''eapol.eapol.openshift.io/v1'', or_Kind = ''Authenticator'',
     or_Name = om_Name (a_Meta a), or_UID = om_UID (a_Meta a), or_Controller = True,
     BlockOwnerDeletion = True\<rparr>"

definition validateOwner :: "string \<Rightarrow> string \<Rightarrow> err option" where
  "validateOwner ownerNs objNs =
     (if ownerNs = [] then None
      else if objNs = [] then
        Some (NewErr ''cluster-scoped resource must not have a namespace-scoped owner'')
      else if ownerNs \<noteq> objNs then
        Some (NewErr ''cross-namespace owner references are disallowed'')
      else None)"

text \<open>The group of an API version, \<open>None\<close> when it has more than one slash.\<close>

definition group_of :: "string \<Rightarrow> string option" where
  "group_of gv = (if gv = [] \<or> gv = ''/'' then Some []
     else case Split gv (CHR ''/'') of [v] \<Rightarrow> Some [] | [g, v] \<Rightarrow> Some g | _ \<Rightarrow> None)"

definition referSameObject :: "OwnerReference \<Rightarrow> OwnerReference \<Rightarrow> bool" where
  "referSameObject a b =
     (case (group_of (or_APIVersion a), group_of (or_APIVersion b)) of
        (Some g, Some g') \<Rightarrow> g = g' \<and> or_Kind a = or_Kind b \<and> or_Name a = or_Name b
      | _ \<Rightarrow> False)"

definition GetControllerOf :: "OwnerReference list \<Rightarrow> OwnerReference option" where
  "GetControllerOf refs = find or_Controller refs"

fun upsertOwnerRef :: "OwnerReference \<Rightarrow> OwnerReference list \<Rightarrow> OwnerReference list" where
  "upsertOwnerRef ref [] = [ref]"
| "upsertOwnerRef ref (r # rs) =
     (if referSameObject r ref then ref # rs else r # upsertOwnerRef ref rs)"

definition SetControllerReference :: "Authenticator \<Rightarrow> ObjectMeta \<Rightarrow> ObjectMeta res" where
  "SetControllerReference owner obj =
     (case validateOwner (om_Namespace (a_Meta owner)) (om_Namespace obj) of
        Some e \<Rightarrow> Inl e
      | None \<Rightarrow>
          (let ref = owner_ref owner
           in case GetControllerOf (OwnerReferences obj) of
                Some existing \<Rightarrow>
                  (if referSameObject existing ref
                   then Inr (obj\<lparr>OwnerReferences := upsertOwnerRef ref (OwnerReferences obj)\<rparr>)
                   else Inl (NewErr ''already owned by another controller''))
              | None \<Rightarrow> Inr (obj\<lparr>OwnerReferences := upsertOwnerRef ref (OwnerReferences obj)\<rparr>)))"

text \<open>\<open>createOwned\<close> ignores the error of \<open>SetControllerReference\<close>: the object is then
  created as it is.\<close>

definition owned :: "Authenticator \<Rightarrow> ObjectMeta \<Rightarrow> ObjectMeta" where
  "owned owner obj = (case SetControllerReference owner obj of Inl e \<Rightarrow> obj | Inr obj' \<Rightarrow> obj')"

definition createOwned_CM :: "kenv \<Rightarrow> Authenticator \<Rightarrow> ConfigMap \<Rightarrow> khist \<Rightarrow> err option \<times> khist" where
  "createOwned_CM E owner cm h =
     (let cm' = cm\<lparr>cm_Meta := owned owner (cm_Meta cm)\<rparr>; r = k_CreateCM E h cm'
      in (r, KCreateCM cm' r # h))"

definition createOwned_DS :: "kenv \<Rightarrow> Authenticator \<Rightarrow> DaemonSet \<Rightarrow> khist \<Rightarrow> err option \<times> khist" where
  "createOwned_DS E owner ds h =
     (let ds' = ds\<lparr>ds_Meta := owned owner (ds_Meta ds)\<rparr>; r = k_CreateDS E h ds'
      in (r, KCreateDS ds' r # h))"

definition createOwned_Rbac ::
  "kenv \<Rightarrow> rbac_kind \<Rightarrow> Authenticator \<Rightarrow> RbacObject \<Rightarrow> khist \<Rightarrow> err option \<times> RbacObject \<times> khist" where
  "createOwned_Rbac E kind owner obj h =
     (let obj' = obj\<lparr>ro_Meta := owned owner (ro_Meta obj)\<rparr>; r = k_CreateRbac E h kind obj'
      in (case r of Inl e \<Rightarrow> Some e | Inr _ \<Rightarrow> None,
          case r of Inl e \<Rightarrow> obj' | Inr stored \<Rightarrow> stored, KCreateRbac kind obj' r # h))"

section \<open>RBAC resources\<close>

definition get_rbac :: "kenv \<Rightarrow> rbac_kind \<Rightarrow> RbacObject \<Rightarrow> string \<Rightarrow> khist \<Rightarrow> RbacObject res \<times> khist" where
  "get_rbac E kind obj namespace h =
     (let key = \<lparr>nn_Namespace = namespace, nn_Name = om_Name (ro_Meta obj)\<rparr>; r = k_GetRbac E h kind key
      in (r, KGetRbac kind key r # h))"

definition getServiceAccount :: "kenv \<Rightarrow> resources \<Rightarrow> string \<Rightarrow> khist \<Rightarrow> RbacObject res \<times> khist" where
  "getServiceAccount E rs = get_rbac E ServiceAccount (r_serviceAccount rs)"

definition getRole :: "kenv \<Rightarrow> resources \<Rightarrow> string \<Rightarrow> khist \<Rightarrow> RbacObject res \<times> khist" where
  "getRole E rs = get_rbac E Role (r_role rs)"

definition getRoleBinding :: "kenv \<Rightarrow> resources \<Rightarrow> string \<Rightarrow> khist \<Rightarrow> RbacObject res \<times> khist" where
  "getRoleBinding E rs = get_rbac E RoleBinding (r_roleBinding rs)"

text \<open>What \<open>syncRbacResources\<close> does with the outcome of each lookup: if the object is missing, move
  the template to the namespace and create it.\<close>

definition create_missing ::
  "kenv \<Rightarrow> rbac_kind \<Rightarrow> string \<Rightarrow> (RbacObject \<Rightarrow> RbacObject) \<Rightarrow> Authenticator \<Rightarrow> string \<Rightarrow> RbacObject \<Rightarrow>
     RbacObject res \<times> khist \<Rightarrow> err option \<times> RbacObject \<times> khist" where
  "create_missing E kind msg prep owner namespace obj got =
     (case got of
        (Inr _, h1) \<Rightarrow> (None, obj, h1)
      | (Inl e, h1) \<Rightarrow>
          (if IsNotFound e
           then (let obj1 = prep (obj\<lparr>ro_Meta := (ro_Meta obj)
                               \<lparr>om_Namespace := namespace, ResourceVersion := []\<rparr>\<rparr>)
                 in case createOwned_Rbac E kind owner obj1 h1 of
                      (Some e, obj2, h2) \<Rightarrow> (Some (WrapErr msg e), obj2, h2)
                    | (None, obj2, h2) \<Rightarrow> (None, obj2, h2))
           else (Some e, obj, h1)))"

definition subject_in :: "string \<Rightarrow> RbacObject \<Rightarrow> RbacObject" where
  "subject_in namespace rb = rb\<lparr>Subject_Namespaces := (Subject_Namespaces rb)[0 := namespace]\<rparr>"

definition syncRbacResources ::
  "kenv \<Rightarrow> Authenticator \<Rightarrow> string \<Rightarrow> resources \<Rightarrow> khist \<Rightarrow> err option \<times> resources \<times> khist" where
  "syncRbacResources E owner namespace rs h =
     (case create_missing E ServiceAccount ''error creating authenticator service account'' id owner
             namespace (r_serviceAccount rs) (getServiceAccount E rs namespace h) of
        (Some e, sa, h1) \<Rightarrow> (Some e, rs\<lparr>r_serviceAccount := sa\<rparr>, h1)
      | (None, sa, h1) \<Rightarrow>
          (case create_missing E Role ''error creating authenticator role'' id owner namespace
                  (r_role rs) (getRole E rs namespace h1) of
             (Some e, ro, h2) \<Rightarrow> (Some e, rs\<lparr>r_serviceAccount := sa, r_role := ro\<rparr>, h2)
           | (None, ro, h2) \<Rightarrow>
               (case create_missing E RoleBinding ''error creating authenticator role binding''
                       (subject_in namespace) owner namespace (r_roleBinding rs)
                       (getRoleBinding E rs namespace h2) of
                  (r, rb, h3) \<Rightarrow>
                    (r, rs\<lparr>r_serviceAccount := sa, r_role := ro, r_roleBinding := rb\<rparr>, h3))))"

text \<open>The lookup of an object together with what follows it.\<close>

definition sync_one ::
  "kenv \<Rightarrow> rbac_kind \<Rightarrow> string \<Rightarrow> (RbacObject \<Rightarrow> RbacObject) \<Rightarrow> Authenticator \<Rightarrow> string \<Rightarrow> RbacObject \<Rightarrow>
     khist \<Rightarrow> err option \<times> RbacObject \<times> khist" where
  "sync_one E kind msg prep owner namespace obj h =
     create_missing E kind msg prep owner namespace obj (get_rbac E kind obj namespace h)"

lemmas sync_one_unfold = sync_one_def create_missing_def get_rbac_def

lemmas syncRbac_unfold = syncRbacResources_def [unfolded getServiceAccount_def getRole_def
  getRoleBinding_def sync_one_def [symmetric]]

section \<open>Reconcile\<close>

definition sync_cm :: "kenv \<Rightarrow> NamespacedName \<Rightarrow> Authenticator \<Rightarrow> ConfigMap \<Rightarrow> khist \<Rightarrow> err option \<times> khist" where
  "sync_cm E req a newCm h =
     (let r = k_GetCM E h req; h1 = KGetCM req r # h
      in case r of
           Inl e \<Rightarrow> (if IsNotFound e then createOwned_CM E a newCm h1 else (Some e, h1))
         | Inr cm \<Rightarrow>
             (if cm_Data cm \<noteq> cm_Data newCm
              then (let u = k_UpdateCM E h1 newCm in (u, KUpdateCM newCm u # h1))
              else (None, h1)))"

definition sync_ds :: "kenv \<Rightarrow> NamespacedName \<Rightarrow> Authenticator \<Rightarrow> DaemonSet \<Rightarrow> khist \<Rightarrow> err option \<times> khist" where
  "sync_ds E req a newDs h =
     (let r = k_GetDS E h req; h1 = KGetDS req r # h
      in case r of
           Inl e \<Rightarrow> (if IsNotFound e then createOwned_DS E a newDs h1 else (Some e, h1))
         | Inr ds \<Rightarrow>
             (if ds_Spec ds \<noteq> ds_Spec newDs
              then (let ds' = ds\<lparr>ds_Spec := ds_Spec newDs\<rparr>; u = k_UpdateDS E h1 ds'
                    in (u, KUpdateDS ds' u # h1))
              else (None, h1)))"

definition Reconcile ::
  "kenv \<Rightarrow> NamespacedName \<Rightarrow> resources \<Rightarrow> khist \<Rightarrow> err option \<times> resources \<times> khist" where
  "Reconcile E req rs h =
     (let r = k_GetAuth E h req; h1 = KGetAuth req r # h
      in case r of
           Inl e \<Rightarrow> (if IsNotFound e then None else Some e, rs, h1)
         | Inr a \<Rightarrow>
             (let g = \<lparr>a11r = a, serviceAccount = om_Name (ro_Meta (r_serviceAccount rs))\<rparr>
              in case g_ConfigMap g of
                   Inl e \<Rightarrow> (Some (WrapErr ''failed to generate ConfigMap content: '' e), rs, h1)
                 | Inr newCm \<Rightarrow>
                     (case sync_cm E req a newCm h1 of
                        (Some e, h2) \<Rightarrow> (Some e, rs, h2)
                      | (None, h2) \<Rightarrow>
                          (case syncRbacResources E a (nn_Namespace req) rs h2 of
                             (Some e, rs1, h3) \<Rightarrow> (Some e, rs1, h3)
                           | (None, rs1, h3) \<Rightarrow>
                               (case sync_ds E req a (fst (Daemonset g)) h3 of
                                  (r, h4) \<Rightarrow> (r, rs1, h4))))))"

section \<open>What a history says about the cluster\<close>

definition key_of :: "ObjectMeta \<Rightarrow> NamespacedName" where
  "key_of m = \<lparr>nn_Namespace = om_Namespace m, nn_Name = om_Name m\<rparr>"

text \<open>The data of a ConfigMap, the spec of a DaemonSet and the presence of an RBAC object, as
  the newest answer about it shows them.\<close>

fun cm_view :: "khist \<Rightarrow> NamespacedName \<Rightarrow> (string, string) mapping option" where
  "cm_view [] k = None"
| "cm_view (KGetCM k' (Inr cm) # h) k = (if k' = k then Some (cm_Data cm) else cm_view h k)"
| "cm_view (KGetCM k' (Inl e) # h) k = (if k' = k \<and> e = NotFound then None else cm_view h k)"
| "cm_view (KCreateCM cm None # h) k = (if key_of (cm_Meta cm) = k then Some (cm_Data cm) else cm_view h k)"
| "cm_view (KUpdateCM cm None # h) k = (if key_of (cm_Meta cm) = k then Some (cm_Data cm) else cm_view h k)"
| "cm_view (c # h) k = cm_view h k"

fun ds_view :: "khist \<Rightarrow> NamespacedName \<Rightarrow> DaemonSetSpec option" where
  "ds_view [] k = None"
| "ds_view (KGetDS k' (Inr ds) # h) k = (if k' = k then Some (ds_Spec ds) else ds_view h k)"
| "ds_view (KGetDS k' (Inl e) # h) k = (if k' = k \<and> e = NotFound then None else ds_view h k)"
| "ds_view (KCreateDS ds None # h) k = (if key_of (ds_Meta ds) = k then Some (ds_Spec ds) else ds_view h k)"
| "ds_view (KUpdateDS ds None # h) k = (if key_of (ds_Meta ds) = k then Some (ds_Spec ds) else ds_view h k)"
| "ds_view (c # h) k = ds_view h k"

fun rbac_view :: "khist \<Rightarrow> rbac_kind \<Rightarrow> NamespacedName \<Rightarrow> bool" where
  "rbac_view [] kd k = False"
| "rbac_view (KGetRbac kd' k' (Inr obj) # h) kd k = (kd' = kd \<and> k' = k \<or> rbac_view h kd k)"
| "rbac_view (KGetRbac kd' k' (Inl e) # h) kd k =
     (\<not> (kd' = kd \<and> k' = k \<and> e = NotFound) \<and> rbac_view h kd k)"
| "rbac_view (KCreateRbac kd' obj (Inr st) # h) kd k =
     (kd' = kd \<and> key_of (ro_Meta obj) = k \<or> rbac_view h kd k)"
| "rbac_view (c # h) kd k = rbac_view h kd k"

text \<open>The calls a reconciler makes about one kind of object.\<close>

fun is_rbac_call :: "rbac_kind \<Rightarrow> kcall \<Rightarrow> bool" where
  "is_rbac_call kd (KGetRbac kd' k r) = (kd' = kd)"
| "is_rbac_call kd (KCreateRbac kd' obj r) = (kd' = kd)"
| "is_rbac_call kd c = False"

fun is_ds_call :: "kcall \<Rightarrow> bool" where
  "is_ds_call (KGetDS k r) = True"
| "is_ds_call (KCreateDS ds r) = True"
| "is_ds_call (KUpdateDS ds r) = True"
| "is_ds_call c = False"

definition extends :: "(kcall \<Rightarrow> bool) \<Rightarrow> khist \<Rightarrow> khist \<Rightarrow> bool" where
  "extends P h' h = (\<exists>cs. h' = cs @ h \<and> list_all P cs)"

lemma extends_refl [simp]: "extends P h h"
  by (simp add: extends_def)

lemma extends_add [simp]: "P c \<Longrightarrow> extends P h' h \<Longrightarrow> extends P (c # h') h"
  by (force simp: extends_def intro: exI [of _ "c # _"])

lemma extends_trans: "extends P h2 h1 \<Longrightarrow> extends P h1 h0 \<Longrightarrow> extends P h2 h0"
  by (force simp: extends_def)

lemma extends_frame:
  assumes "extends P h' h" and "\<And>c g. P c \<Longrightarrow> f (c # g) = f g" shows "f h' = f h"
proof -
  obtain cs where "h' = cs @ h" and "list_all P cs" using assms(1) by (auto simp: extends_def)
  then show ?thesis by (induction cs arbitrary: h') (auto simp: assms(2))
qed

lemma rbac_frame:
  assumes "extends (is_rbac_call kd) h' h"
  shows "cm_view h' k = cm_view h k" and "kd' \<noteq> kd \<Longrightarrow> rbac_view h' kd' k' = rbac_view h kd' k'"
proof -
  have "is_rbac_call kd c \<Longrightarrow> cm_view (c # g) k = cm_view g k" for c g by (cases c) auto
  then show "cm_view h' k = cm_view h k"
    using extends_frame [OF assms, of "\<lambda>h. cm_view h k"] by blast
  assume "kd' \<noteq> kd"
  then have "rbac_view (c # g) kd' k' = rbac_view g kd' k'" if "is_rbac_call kd c" for c g
    using that by (cases "(c # g, kd', k')" rule: rbac_view.cases) auto
  then show "rbac_view h' kd' k' = rbac_view h kd' k'"
    using extends_frame [OF assms, of "\<lambda>h. rbac_view h kd' k'"] by blast
qed

lemma ds_frame:
  assumes "extends is_ds_call h' h"
  shows "cm_view h' k = cm_view h k" and "rbac_view h' kd k' = rbac_view h kd k'"
proof -
  have "is_ds_call c \<Longrightarrow> cm_view (c # g) k = cm_view g k \<and> rbac_view (c # g) kd k' = rbac_view g kd k'"
    for c g by (cases c) auto
  then show "cm_view h' k = cm_view h k" and "rbac_view h' kd k' = rbac_view h kd k'"
    using extends_frame [OF assms, of "\<lambda>h. cm_view h k"]
      extends_frame [OF assms, of "\<lambda>h. rbac_view h kd k'"] by blast+
qed

section \<open>What a reconcile achieves\<close>

lemma owned_key [simp]: "om_Name (owned a m) = om_Name m" "om_Namespace (owned a m) = om_Namespace m"
  "ResourceVersion (owned a m) = ResourceVersion m"
  by (auto simp: owned_def SetControllerReference_def Let_def split: option.splits sum.splits)

lemma sync_one_ok:
  assumes "sync_one E kd msg prep owner ns obj h = (r, obj', h')"
    and "\<And>x. ro_Meta (prep x) = ro_Meta x"
  shows "extends (is_rbac_call kd) h' h"
    and "r = None \<Longrightarrow> rbac_view h' kd \<lparr>nn_Namespace = ns, nn_Name = om_Name (ro_Meta obj)\<rparr>"
  using assms
  by (auto simp: sync_one_unfold createOwned_Rbac_def Let_def key_of_def split: sum.splits if_splits)

definition rbac_in_place :: "khist \<Rightarrow> string \<Rightarrow> resources \<Rightarrow> bool" where
  "rbac_in_place h ns rs =
     (rbac_view h ServiceAccount \<lparr>nn_Namespace = ns, nn_Name = om_Name (ro_Meta (r_serviceAccount rs))\<rparr> \<and>
      rbac_view h Role \<lparr>nn_Namespace = ns, nn_Name = om_Name (ro_Meta (r_role rs))\<rparr> \<and>
      rbac_view h RoleBinding \<lparr>nn_Namespace = ns, nn_Name = om_Name (ro_Meta (r_roleBinding rs))\<rparr>)"

lemma syncRbac_ok:
  assumes "syncRbacResources E owner ns rs h = (None, rs', h')"
  shows "cm_view h' k = cm_view h k" and "rbac_in_place h' ns rs"
proof -
  obtain sa h1 ro h2 rb where
    s1: "sync_one E ServiceAccount ''error creating authenticator service account''
      id owner ns (r_serviceAccount rs) h = (None, sa, h1)" and
    s2: "sync_one E Role ''error creating authenticator role''
      id owner ns (r_role rs) h1 = (None, ro, h2)" and
    s3: "sync_one E RoleBinding ''error creating authenticator role binding''
      (subject_in ns) owner ns (r_roleBinding rs) h2 = (None, rb, h')"
    using assms by (auto simp: syncRbac_unfold split: prod.splits option.splits)
  note ok1 = sync_one_ok [OF s1] and ok2 = sync_one_ok [OF s2] and ok3 = sync_one_ok [OF s3]
  have id: "ro_Meta (id x) = ro_Meta x" "ro_Meta (subject_in ns x) = ro_Meta x" for x
    by (simp_all add: subject_in_def)
  show "cm_view h' k = cm_view h k"
    using rbac_frame(1) [OF ok1(1)] rbac_frame(1) [OF ok2(1)] rbac_frame(1) [OF ok3(1)] id by simp
  show "rbac_in_place h' ns rs"
    using ok1 ok2 ok3 id rbac_frame(2) [OF ok2(1)] rbac_frame(2) [OF ok3(1)]
    by (simp add: rbac_in_place_def)
qed

lemma sync_cm_ok:
  assumes "sync_cm E req a newCm h = (None, h')" and "key_of (cm_Meta newCm) = req"
  shows "cm_view h' req = Some (cm_Data newCm)"
  using assms
  by (auto simp: sync_cm_def createOwned_CM_def Let_def key_of_def split: sum.splits if_splits)

lemma sync_ds_ok:
  assumes "sync_ds E req a newDs h = (r, h')" and "key_of (ds_Meta newDs) = req"
    and "\<And>ds. k_GetDS E h req = Inr ds \<Longrightarrow> key_of (ds_Meta ds) = req"
  shows "extends is_ds_call h' h" and "r = None \<Longrightarrow> ds_view h' req = Some (ds_Spec newDs)"
proof -
  have "extends is_ds_call h' h \<and> (r = None \<longrightarrow> ds_view h' req = Some (ds_Spec newDs))"
  proof (cases "k_GetDS E h req")
    case (Inl e)
    then show ?thesis
      using assms(1,2) by (auto simp: sync_ds_def createOwned_DS_def Let_def key_of_def split: if_splits)
  next
    case (Inr ds)
    then show ?thesis
      using assms(1) assms(3) [OF Inr] by (auto simp: sync_ds_def Let_def split: if_splits)
  qed
  then show "extends is_ds_call h' h" and "r = None \<Longrightarrow> ds_view h' req = Some (ds_Spec newDs)"
    by blast+
qed

text \<open>The API server answers a lookup with the object of that name.\<close>

definition server_ok :: "kenv \<Rightarrow> NamespacedName \<Rightarrow> bool" where
  "server_ok E req = ((\<forall>h a. k_GetAuth E h req = Inr a \<longrightarrow> key_of (a_Meta a) = req) \<and>
     (\<forall>h ds. k_GetDS E h req = Inr ds \<longrightarrow> key_of (ds_Meta ds) = req))"

definition gen_of :: "resources \<Rightarrow> Authenticator \<Rightarrow> ConfigGenerator" where
  "gen_of rs a = \<lparr>a11r = a, serviceAccount = om_Name (ro_Meta (r_serviceAccount rs))\<rparr>"

definition gen_cm :: "Authenticator \<Rightarrow> ConfigMap" where
  "gen_cm a = \<lparr>cm_Meta = new_meta (om_Name (a_Meta a)) (om_Namespace (a_Meta a)) Mapping.empty,
      cm_Data = Mapping.update configFile (hostapd_conf (a_Spec a)) Mapping.empty\<rparr>"

lemma Reconcile_unfold:
  "Reconcile E req rs h =
     (case k_GetAuth E h req of
        Inl e \<Rightarrow> (if e = NotFound then None else Some e, rs, KGetAuth req (Inl e) # h)
      | Inr a \<Rightarrow>
          (case sync_cm E req a (gen_cm a) (KGetAuth req (Inr a) # h) of
             (Some e, h2) \<Rightarrow> (Some e, rs, h2)
           | (None, h2) \<Rightarrow>
               (case syncRbacResources E a (nn_Namespace req) rs h2 of
                  (Some e, rs1, h3) \<Rightarrow> (Some e, rs1, h3)
                | (None, rs1, h3) \<Rightarrow>
                    (case sync_ds E req a (fst (Daemonset (gen_of rs a))) h3 of
                       (r, h4) \<Rightarrow> (r, rs1, h4)))))"
  unfolding Reconcile_def Let_def IsNotFound_def g_ConfigMap_def gen_of_def gen_cm_def
  by (simp split: sum.split)

lemma gen_keys:
  "key_of (cm_Meta (gen_cm a)) = key_of (a_Meta a)"
  "key_of (ds_Meta (fst (Daemonset (gen_of rs a)))) = key_of (a_Meta a)"
  by (simp_all add: gen_cm_def key_of_def new_meta_def Daemonset_sel gen_of_def)

text \<open>
  When \<open>Reconcile\<close> returns without error for an existing Authenticator, the newest
  answers of the API server show the cluster as the spec asks for: the ConfigMap holds the
  generated configuration, the service account, the role and the role binding exist in the
  namespace, and the DaemonSet has the generated spec.
\<close>

lemma reconcile_views:
  assumes "Reconcile E req rs h = (None, rs', h')" and "k_GetAuth E h req = Inr a"
    and "server_ok E req"
  shows "cm_view h' req = Some (Mapping.update configFile (hostapd_conf (a_Spec a)) Mapping.empty) \<and>
    rbac_in_place h' (nn_Namespace req) rs \<and>
    ds_view h' req = Some (ds_Spec (fst (Daemonset (gen_of rs a))))"
proof -
  obtain h2 h3 where cm: "sync_cm E req a (gen_cm a) (KGetAuth req (Inr a) # h) = (None, h2)"
    and rb: "syncRbacResources E a (nn_Namespace req) rs h2 = (None, rs', h3)"
    and ds: "sync_ds E req a (fst (Daemonset (gen_of rs a))) h3 = (None, h')"
    using assms(1,2) by (auto simp: Reconcile_unfold split: prod.splits option.splits)
  have key: "key_of (a_Meta a) = req" using assms(2,3) by (auto simp: server_ok_def)
  have keys: "key_of (cm_Meta (gen_cm a)) = req" "key_of (ds_Meta (fst (Daemonset (gen_of rs a)))) = req"
    by (simp_all add: gen_keys key)
  have srv: "k_GetDS E h3 req = Inr d \<Longrightarrow> key_of (ds_Meta d) = req" for d
    using assms(3) by (simp add: server_ok_def)
  note dsok = sync_ds_ok [OF ds keys(2) srv]
  show ?thesis
    using sync_cm_ok [OF cm keys(1)] syncRbac_ok [OF rb] dsok ds_frame [OF dsok(1)]
    by (simp add: rbac_in_place_def gen_cm_def)
qed

section \<open>An example cluster\<close>

text \<open>A server that has the Authenticator \<open>auth1\<close> and nothing else, and accepts every
  write.\<close>

definition empty_server :: kenv where
  "empty_server =
     \<lparr>k_GetAuth = (\<lambda>h k. if k = key_of (a_Meta auth1) then Inr auth1 else Inl NotFound),
      k_GetCM = (\<lambda>h k. Inl NotFound), k_CreateCM = (\<lambda>h cm. None), k_UpdateCM = (\<lambda>h cm. None),
      k_GetRbac = (\<lambda>h kd k. Inl NotFound), k_CreateRbac = (\<lambda>h kd obj. Inr obj),
      k_GetDS = (\<lambda>h k. Inl NotFound), k_CreateDS = (\<lambda>h ds. None), k_UpdateDS = (\<lambda>h ds. None)\<rparr>"

definition rs0 :: resources where
  "rs0 = \<lparr>r_serviceAccount = \<lparr>ro_Meta = new_meta ''authenticator'' [] Mapping.empty, Subject_Namespaces = []\<rparr>,
     r_role = \<lparr>ro_Meta = new_meta ''authenticator-role'' [] Mapping.empty, Subject_Namespaces = []\<rparr>,
     r_roleBinding = \<lparr>ro_Meta = new_meta ''authenticator-rolebinding'' [] Mapping.empty,
       Subject_Namespaces = [[]]\<rparr>\<rparr>"

definition req1 :: NamespacedName where
  "req1 = \<lparr>nn_Namespace = ''ns'', nn_Name = ''auth''\<rparr>"

lemma req1_key: "key_of (a_Meta auth1) = req1"
  by (simp add: key_of_def auth1_def new_meta_def req1_def)

lemma empty_server_ok: "server_ok empty_server req1"
  by (simp add: server_ok_def empty_server_def req1_key)

lemma empty_server_run: "fst (Reconcile empty_server req1 rs0 h) = None"
  by (simp add: Reconcile_unfold empty_server_def req1_key sync_cm_def createOwned_CM_def
      syncRbac_unfold sync_one_unfold createOwned_Rbac_def sync_ds_def createOwned_DS_def
      Let_def IsNotFound_def split_beta)

lemma reconcile_views_example:
  "cm_view (snd (snd (Reconcile empty_server req1 rs0 []))) req1 =
     Some (Mapping.update configFile (hostapd_conf spec1) Mapping.empty)"
proof -
  obtain rs' h' where run: "Reconcile empty_server req1 rs0 [] = (None, rs', h')"
    using empty_server_run [of "[]"] by (metis prod.collapse)
  have "k_GetAuth empty_server [] req1 = Inr auth1" by (simp add: empty_server_def req1_key)
  from reconcile_views [OF run this empty_server_ok] run show ?thesis by (simp add: auth1_def)
qed

section \<open>When nothing is to be done\<close>

fun is_write :: "kcall \<Rightarrow> bool" where
  "is_write (KCreateCM cm r) = True"
| "is_write (KUpdateCM cm r) = True"
| "is_write (KCreateRbac kd obj r) = True"
| "is_write (KCreateDS ds r) = True"
| "is_write (KUpdateDS ds r) = True"
| "is_write c = False"

lemma sync_one_quiet:
  "k_GetRbac E h kd \<lparr>nn_Namespace = ns, nn_Name = om_Name (ro_Meta obj)\<rparr> = Inr x \<Longrightarrow>
   sync_one E kd msg prep owner ns obj h =
     (None, obj, KGetRbac kd \<lparr>nn_Namespace = ns, nn_Name = om_Name (ro_Meta obj)\<rparr> (Inr x) # h)"
  by (simp add: sync_one_unfold Let_def)


definition settled_server :: kenv where
  "settled_server =
     \<lparr>k_GetAuth = (\<lambda>h k. Inr auth1), k_GetCM = (\<lambda>h k. Inr (gen_cm auth1)),
      k_CreateCM = (\<lambda>h cm. None), k_UpdateCM = (\<lambda>h cm. None),
      k_GetRbac = (\<lambda>h kd k. Inr (r_role rs0)), k_CreateRbac = (\<lambda>h kd obj. Inr obj),
      k_GetDS = (\<lambda>h k. Inr (fst (Daemonset (gen_of rs0 auth1)))),
      k_CreateDS = (\<lambda>h ds. None), k_UpdateDS = (\<lambda>h ds. None)\<rparr>"


section \<open>Errors\<close>

text \<open>A call that fails the reconcile: any failed write, and any lookup that fails otherwise
  than by "not found".\<close>

fun failure :: "kcall \<Rightarrow> err option" where
  "failure (KGetAuth k (Inl e)) = (if e = NotFound then None else Some e)"
| "failure (KGetCM k (Inl e)) = (if e = NotFound then None else Some e)"
| "failure (KGetRbac kd k (Inl e)) = (if e = NotFound then None else Some e)"
| "failure (KGetDS k (Inl e)) = (if e = NotFound then None else Some e)"
| "failure (KCreateCM cm r) = r"
| "failure (KUpdateCM cm r) = r"
| "failure (KCreateRbac kd obj (Inl e)) = Some e"
| "failure (KCreateDS ds r) = r"
| "failure (KUpdateDS ds r) = r"
| "failure c = None"

text \<open>A step that reports an error exactly when its last call failed, and made no other failing
  call.\<close>

definition faithful :: "err option \<Rightarrow> khist \<Rightarrow> khist \<Rightarrow> bool" where
  "faithful r h' h =
     (case r of
        None \<Rightarrow> extends (\<lambda>c. failure c = None) h' h
      | Some e \<Rightarrow> (\<exists>c h1 e0. h' = c # h1 \<and> extends (\<lambda>c. failure c = None) h1 h \<and>
                    failure c = Some e0 \<and> (e = e0 \<or> (\<exists>msg. e = WrapErr msg e0))))"

lemma faithful_trans:
  "extends (\<lambda>c. failure c = None) h1 h \<Longrightarrow> faithful r h2 h1 \<Longrightarrow> faithful r h2 h"
  by (fastforce simp: faithful_def split: option.splits intro: extends_trans)

lemma sync_cm_faithful: "sync_cm E req a cm h = (r, h') \<Longrightarrow> faithful r h' h"
  by (auto simp: sync_cm_def createOwned_CM_def faithful_def Let_def IsNotFound_def
      split: sum.splits if_splits option.splits)

lemma sync_ds_faithful: "sync_ds E req a ds h = (r, h') \<Longrightarrow> faithful r h' h"
  by (auto simp: sync_ds_def createOwned_DS_def faithful_def Let_def IsNotFound_def
      split: sum.splits if_splits option.splits)

lemma sync_one_faithful: "sync_one E kd msg prep a ns obj h = (r, obj', h') \<Longrightarrow> faithful r h' h"
  by (auto simp: sync_one_unfold createOwned_Rbac_def faithful_def Let_def IsNotFound_def
      split: sum.splits if_splits option.splits)

lemma syncRbac_faithful:
  assumes "syncRbacResources E a ns rs h = (r, rs', h')" shows "faithful r h' h"
proof -
  obtain r1 sa h1 where s1: "sync_one E ServiceAccount ''error creating authenticator service account''
      id a ns (r_serviceAccount rs) h = (r1, sa, h1)" by (metis prod_cases3)
  obtain r2 ro h2 where s2: "sync_one E Role ''error creating authenticator role''
      id a ns (r_role rs) h1 = (r2, ro, h2)" by (metis prod_cases3)
  obtain r3 rb h3 where s3: "sync_one E RoleBinding ''error creating authenticator role binding''
      (subject_in ns) a ns (r_roleBinding rs) h2 = (r3, rb, h3)" by (metis prod_cases3)
  note f = sync_one_faithful [OF s1] sync_one_faithful [OF s2] sync_one_faithful [OF s3]
  have n: "faithful None g' g \<Longrightarrow> extends (\<lambda>c. failure c = None) g' g" for g g'
    by (simp add: faithful_def)
  show ?thesis
  proof (cases r1)
    case (Some e)
    then show ?thesis using assms s1 f(1) by (auto simp: syncRbac_unfold)
  next
    case None
    note e1 = n [OF f(1) [unfolded None]]
    show ?thesis
    proof (cases r2)
      case (Some e)
      then show ?thesis
        using assms s1 s2 None faithful_trans [OF e1 f(2)] by (auto simp: syncRbac_unfold)
    next
      case r2: None
      have "faithful r3 h3 h"
        using faithful_trans [OF e1] faithful_trans [OF n [OF f(2) [unfolded r2]] f(3)] by blast
      then show ?thesis using assms s1 s2 s3 None r2 by (auto simp: syncRbac_unfold)
    qed
  qed
qed

text \<open>
  C24. A failed call is never swallowed and never followed by another: \<open>Reconcile\<close> returns
  an error if and only if one of its calls failed, that call is the last one it made, and
  the error is that call's own, possibly with a text in front.
\<close>

theorem reconcile_errors:
  "let (r, rs', h') = Reconcile E req rs h in
     (case r of
        None \<Rightarrow> (\<exists>cs. h' = cs @ h \<and> list_all (\<lambda>c. failure c = None) cs)
      | Some e \<Rightarrow> (\<exists>c cs e0. h' = c # cs @ h \<and> list_all (\<lambda>c. failure c = None) cs \<and>
                    failure c = Some e0 \<and> (e = e0 \<or> (\<exists>msg. e = WrapErr msg e0))))"
proof -
  obtain r rs' h' where run: "Reconcile E req rs h = (r, rs', h')" by (metis prod_cases3)
  have n: "faithful None g' g \<Longrightarrow> extends (\<lambda>c. failure c = None) g' g" for g g'
    by (simp add: faithful_def)
  have "faithful r h' h"
  proof (cases "k_GetAuth E h req")
    case (Inl e)
    with run show ?thesis by (auto simp: Reconcile_unfold faithful_def split: if_splits)
  next
    case (Inr a)
    let ?h1 = "KGetAuth req (Inr a) # h"
    obtain r2 h2 where s2: "sync_cm E req a (gen_cm a) ?h1 = (r2, h2)" by fastforce
    obtain r3 rs1 h3 where s3: "syncRbacResources E a (nn_Namespace req) rs h2 = (r3, rs1, h3)"
      by (metis prod_cases3)
    obtain r4 h4 where s4: "sync_ds E req a (fst (Daemonset (gen_of rs a))) h3 = (r4, h4)" by fastforce
    have f2: "faithful r2 h2 h" using faithful_trans [OF _ sync_cm_faithful [OF s2], of h] by simp
    have f3: "r2 = None \<Longrightarrow> faithful r3 h3 h"
      using faithful_trans [OF n syncRbac_faithful [OF s3]] f2 by blast
    have f4: "r2 = None \<Longrightarrow> r3 = None \<Longrightarrow> faithful r4 h4 h"
      using faithful_trans [OF n sync_ds_faithful [OF s4]] f3 by blast
    show ?thesis
      using run Inr s2 s3 s4 f2 f3 f4 by (auto simp: Reconcile_unfold split: option.splits)
  qed
  then show ?thesis
    unfolding run faithful_def extends_def by (fastforce simp: Let_def split: option.splits)
qed

section \<open>Ownership\<close>

lemma group_same [simp]: "group_of ''eapol.eapol.openshift.io/v1'' = Some ''eapol.eapol.openshift.io''"
  by code_simp

lemma owner_same [simp]: "referSameObject (owner_ref a) (owner_ref b) \<longleftrightarrow> om_Name (a_Meta a) = om_Name (a_Meta b)"
  by (simp add: referSameObject_def owner_ref_def)

lemma owned_fresh:
  assumes "OwnerReferences m = []" and "om_Namespace m = om_Namespace (a_Meta a)"
    and "om_Namespace (a_Meta a) \<noteq> []"
  shows "OwnerReferences (owned a m) = [owner_ref a]"
  using assms by (simp add: owned_def SetControllerReference_def validateOwner_def GetControllerOf_def Let_def)

lemma owned_stale:
  assumes "GetControllerOf (OwnerReferences m) = Some c" and "\<not> referSameObject c (owner_ref a)"
  shows "owned a m = m"
  using assms by (simp add: owned_def SetControllerReference_def Let_def split: option.split)

lemma rbac_no_cm_ds:
  "extends (is_rbac_call kd) h' h \<Longrightarrow> c \<in> set h' \<Longrightarrow> \<not> is_rbac_call kd c \<Longrightarrow> c \<in> set h"
  by (auto simp: extends_def list_all_iff)

lemma syncRbac_calls:
  assumes "syncRbacResources E a ns rs h = (r, rs', h')" and "c \<in> set h'"
    and "\<forall>kd. \<not> is_rbac_call kd c"
  shows "c \<in> set h"
proof -
  have m: "\<And>x. ro_Meta (id x) = ro_Meta x" "\<And>x. ro_Meta (subject_in ns x) = ro_Meta x"
    by (simp_all add: subject_in_def)
  have "c \<in> set g" if "sync_one E kd msg prep a ns obj g = (q, obj', g')" "c \<in> set g'"
    "\<And>x. ro_Meta (prep x) = ro_Meta x" for kd msg prep obj g q obj' g'
    using rbac_no_cm_ds [OF sync_one_ok(1) [OF that(1,3)] that(2)] assms(3) by blast
  with assms(1,2) m show ?thesis
    by (fastforce simp: syncRbac_unfold split: prod.splits option.splits)
qed

text \<open>
  C36. What the reconciler writes about ownership, in a namespace: a ConfigMap or DaemonSet
  it creates carries exactly one owner reference, the controller reference to the
  Authenticator; a DaemonSet it updates keeps the metadata it was read with; but a
  ConfigMap it updates is sent without any owner reference and without the resource
  version it was read with.
\<close>

theorem reconcile_ownership:
  assumes "Reconcile E req rs [] = (r, rs', h')" and "k_GetAuth E [] req = Inr a"
    and "om_Namespace (a_Meta a) \<noteq> []"
  shows "(\<forall>cm x. KCreateCM cm x \<in> set h' \<longrightarrow> OwnerReferences (cm_Meta cm) = [owner_ref a]) \<and>
    (\<forall>ds x. KCreateDS ds x \<in> set h' \<longrightarrow> OwnerReferences (ds_Meta ds) = [owner_ref a]) \<and>
    (\<forall>ds x. KUpdateDS ds x \<in> set h' \<longrightarrow>
       (\<exists>g old. k_GetDS E g req = Inr old \<and> ds_Meta ds = ds_Meta old)) \<and>
    (\<forall>cm x. KUpdateCM cm x \<in> set h' \<longrightarrow>
       OwnerReferences (cm_Meta cm) = [] \<and> ResourceVersion (cm_Meta cm) = [])"
proof -
  let ?h1 = "[KGetAuth req (Inr a)]"
  obtain r2 h2 where s2: "sync_cm E req a (gen_cm a) ?h1 = (r2, h2)" by fastforce
  obtain r3 rs1 h3 where s3: "syncRbacResources E a (nn_Namespace req) rs h2 = (r3, rs1, h3)"
    by (metis prod_cases3)
  obtain r4 h4 where s4: "sync_ds E req a (fst (Daemonset (gen_of rs a))) h3 = (r4, h4)" by fastforce
  have new: "OwnerReferences (owned a (cm_Meta (gen_cm a))) = [owner_ref a]"
    "OwnerReferences (owned a (ds_Meta (fst (Daemonset (gen_of rs a))))) = [owner_ref a]"
    using assms(3) by (auto intro!: owned_fresh simp: gen_cm_def new_meta_def Daemonset_sel gen_of_def)
  define ok where "ok = (\<lambda>c. case c of
      KCreateCM cm x \<Rightarrow> OwnerReferences (cm_Meta cm) = [owner_ref a]
    | KCreateDS ds x \<Rightarrow> OwnerReferences (ds_Meta ds) = [owner_ref a]
    | KUpdateDS ds x \<Rightarrow> (\<exists>g old. k_GetDS E g req = Inr old \<and> ds_Meta ds = ds_Meta old)
    | KUpdateCM cm x \<Rightarrow> OwnerReferences (cm_Meta cm) = [] \<and> ResourceVersion (cm_Meta cm) = []
    | _ \<Rightarrow> True)"
  have o2: "\<forall>c\<in>set h2. ok c"
    using s2 new(1) by (auto simp: sync_cm_def createOwned_CM_def Let_def ok_def gen_cm_def new_meta_def
        split: sum.splits if_splits)
  have o3: "\<forall>c\<in>set h3. ok c"
  proof
    fix c assume c: "c \<in> set h3"
    show "ok c"
    proof (cases "\<exists>kd. is_rbac_call kd c")
      case True
      then show ?thesis by (cases c) (auto simp: ok_def)
    next
      case False
      with syncRbac_calls [OF s3 c] o2 show ?thesis by blast
    qed
  qed
  have o4: "\<forall>c\<in>set h4. ok c"
    using s4 o3 new(2) by (auto simp: sync_ds_def createOwned_DS_def Let_def ok_def
        split: sum.splits if_splits) blast
  have "h' \<in> {h2, h3, h4}"
    using assms(1,2) s2 s3 s4 by (auto simp: Reconcile_unfold split: option.splits)
  then have all: "\<forall>c\<in>set h'. ok c" using o2 o3 o4 by blast
  then show ?thesis by (force simp: ok_def)
qed

theorem reconcile_ownership_witness:
  "\<exists>cm ds. KCreateCM cm None \<in> set (snd (snd (Reconcile empty_server req1 rs0 []))) \<and>
     OwnerReferences (cm_Meta cm) = [owner_ref auth1] \<and>
     KCreateDS ds None \<in> set (snd (snd (Reconcile empty_server req1 rs0 []))) \<and>
     OwnerReferences (ds_Meta ds) = [owner_ref auth1]"
proof -
  obtain r rs' h' where run: "Reconcile empty_server req1 rs0 [] = (r, rs', h')" by (metis prod_cases3)
  have get: "k_GetAuth empty_server [] req1 = Inr auth1" by (simp add: empty_server_def req1_key)
  have "om_Namespace (a_Meta auth1) \<noteq> []" by (simp add: auth1_def new_meta_def)
  note T = reconcile_ownership [OF run get this]
  have "(\<exists>cm. KCreateCM cm None \<in> set h') \<and> (\<exists>ds. KCreateDS ds None \<in> set h')"
    using run by (auto simp: Reconcile_unfold empty_server_def req1_key sync_cm_def createOwned_CM_def
        syncRbac_unfold sync_one_unfold createOwned_Rbac_def sync_ds_def createOwned_DS_def
        Let_def IsNotFound_def split_beta)
  with T run show ?thesis by fastforce
qed

text \<open>
  C40. The RBAC templates keep the owner reference of the first Authenticator they were
  created for. When an Authenticator of another name is reconciled in a namespace that
  lacks the service account, the account is created there with the old reference and not
  with one to the new owner, and nothing reports it.
\<close>

theorem rbac_stale_owner:
  assumes "GetControllerOf (OwnerReferences (ro_Meta (r_serviceAccount rs))) = Some (owner_ref first)"
    and "om_Name (a_Meta first) \<noteq> om_Name (a_Meta second)"
    and "k_GetRbac E h ServiceAccount
           \<lparr>nn_Namespace = ns, nn_Name = om_Name (ro_Meta (r_serviceAccount rs))\<rparr> = Inl NotFound"
    and "syncRbacResources E second ns rs h = (r, rs', h')"
  shows "\<exists>obj x. KCreateRbac ServiceAccount obj x \<in> set h' \<and> om_Namespace (ro_Meta obj) = ns \<and>
    OwnerReferences (ro_Meta obj) = OwnerReferences (ro_Meta (r_serviceAccount rs))"
proof -
  let ?sa = "r_serviceAccount rs"
  let ?key = "\<lparr>nn_Namespace = ns, nn_Name = om_Name (ro_Meta ?sa)\<rparr>"
  let ?m = "(ro_Meta ?sa)\<lparr>om_Namespace := ns, ResourceVersion := []\<rparr>"
  let ?obj = "?sa\<lparr>ro_Meta := ?m\<rparr>"
  let ?x = "k_CreateRbac E (KGetRbac ServiceAccount ?key (Inl NotFound) # h) ServiceAccount ?obj"
  let ?h1 = "KCreateRbac ServiceAccount ?obj ?x # KGetRbac ServiceAccount ?key (Inl NotFound) # h"
  have "owned second ?m = ?m" using assms(1,2) by (intro owned_stale [of _ "owner_ref first"]) simp_all
  then obtain q sa where one: "sync_one E ServiceAccount ''error creating authenticator service account''
      id second ns ?sa h = (q, sa, ?h1)"
    using assms(3)
    by (cases ?x) (simp_all add: sync_one_unfold createOwned_Rbac_def IsNotFound_def Let_def)
  have grow: "set g \<subseteq> set g'" if "sync_one E kd msg prep second ns obj g = (q, obj', g')"
    for kd msg prep obj g q obj' g'
    using that by (auto simp: sync_one_unfold createOwned_Rbac_def Let_def split: sum.splits if_splits)
  obtain r2 ro h2 where s2: "sync_one E Role ''error creating authenticator role''
      id second ns (r_role rs) ?h1 = (r2, ro, h2)" by (metis prod_cases3)
  obtain r3 rb h3 where s3: "sync_one E RoleBinding ''error creating authenticator role binding''
      (subject_in ns) second ns (r_roleBinding rs) h2 = (r3, rb, h3)" by (metis prod_cases3)
  have "h' = ?h1 \<or> h' = h2 \<or> h' = h3"
    using assms(4) unfolding syncRbac_unfold one s2 s3
    by (cases q; cases r2) (simp_all add: s2 s3)
  then have "set ?h1 \<subseteq> set h'" using grow [OF s2] grow [OF s3] by blast
  then show ?thesis by (intro exI [of _ ?obj] exI [of _ ?x]) simp
qed

theorem rbac_stale_owner_witness:
  "\<exists>obj x. KCreateRbac ServiceAccount obj x \<in>
      set (snd (snd (syncRbacResources empty_server
        (auth1\<lparr>a_Meta := new_meta ''other'' ''ns2'' Mapping.empty\<rparr>) ''ns2''
        (fst (snd (syncRbacResources empty_server auth1 ''ns'' rs0 []))) []))) \<and>
     om_Namespace (ro_Meta obj) = ''ns2'' \<and> OwnerReferences (ro_Meta obj) = [owner_ref auth1]"
proof -
  let ?b = "auth1\<lparr>a_Meta := new_meta ''other'' ''ns2'' Mapping.empty\<rparr>"
  let ?rs = "fst (snd (syncRbacResources empty_server auth1 ''ns'' rs0 []))"
  obtain r rs' h' where run: "syncRbacResources empty_server ?b ''ns2'' ?rs [] = (r, rs', h')"
    by (metis prod_cases3)
  have refs: "OwnerReferences (ro_Meta (r_serviceAccount ?rs)) = [owner_ref auth1]"
    by (simp add: syncRbac_unfold sync_one_unfold createOwned_Rbac_def empty_server_def
        IsNotFound_def Let_def rs0_def new_meta_def split_beta owned_fresh auth1_def)
  then have "GetControllerOf (OwnerReferences (ro_Meta (r_serviceAccount ?rs))) = Some (owner_ref auth1)"
    by (simp add: GetControllerOf_def owner_ref_def)
  moreover have "om_Name (a_Meta auth1) \<noteq> om_Name (a_Meta ?b)" by (simp add: auth1_def new_meta_def)
  moreover have "k_GetRbac empty_server [] ServiceAccount k = Inl NotFound" for k
    by (simp add: empty_server_def)
  ultimately show ?thesis using rbac_stale_owner [OF _ _ _ run] refs run by simp
qed

section \<open>Defaulted DaemonSets\<close>

text \<open>The generated DaemonSet as it comes back with the default file mode filled in.\<close>

definition defaulted :: "DaemonSet \<Rightarrow> DaemonSet" where
  "defaulted ds = ds\<lparr>ds_Spec := (ds_Spec ds)\<lparr>template_Spec := (template_Spec (ds_Spec ds))\<lparr>Volumes :=
     map (\<lambda>v. case Source v of DownwardAPI items None \<Rightarrow> v\<lparr>Source := DownwardAPI items (Some 420)\<rparr> | _ \<Rightarrow> v)
       (Volumes (template_Spec (ds_Spec ds)))\<rparr>\<rparr>\<rparr>"

text \<open>
  The API server fills in the documented default of a field the generator leaves
  unset, the file mode of the label volume. Against a DaemonSet read back with that default
  every \<open>Reconcile\<close> that gets that far sends an update, although nothing changed.
\<close>

lemma defaulted_daemonset_updated:
  assumes "k_GetDS E h req = Inr ds"
    and "\<lparr>vol_Name = authenticatorVolumeName, Source = DownwardAPI items (Some mode)\<rparr>
           \<in> set (Volumes (template_Spec (ds_Spec ds)))"
    and "sync_ds E req a (fst (Daemonset g)) h = (r, h')"
  shows "\<exists>ds'. hd h' = KUpdateDS ds' r \<and> ds_Spec ds' = ds_Spec (fst (Daemonset g)) \<and>
    ds_Meta ds' = ds_Meta ds"
proof -
  have "ds_Spec ds \<noteq> ds_Spec (fst (Daemonset g))"
  proof
    assume "ds_Spec ds = ds_Spec (fst (Daemonset g))"
    with assms(2) have "\<lparr>vol_Name = authenticatorVolumeName, Source = DownwardAPI items (Some mode)\<rparr>
        \<in> set (Volumes (template_Spec (ds_Spec (fst (Daemonset g)))))" by simp
    then show False by (simp add: Daemonset_sel)
  qed
  with assms(1,3) show ?thesis by (auto simp: sync_ds_def Let_def)
qed

lemma defaulted_daemonset_updated_witness:
  "\<exists>ds' r. hd (snd (sync_ds (empty_server\<lparr>k_GetDS := (\<lambda>h k. Inr (defaulted (fst (Daemonset g1))))\<rparr>)
      req1 auth1 (fst (Daemonset g1)) [])) = KUpdateDS ds' r"
proof -
  let ?E = "empty_server\<lparr>k_GetDS := (\<lambda>h k. Inr (defaulted (fst (Daemonset g1))))\<rparr>"
  obtain r h' where run: "sync_ds ?E req1 auth1 (fst (Daemonset g1)) [] = (r, h')" by fastforce
  have "\<lparr>vol_Name = authenticatorVolumeName, Source = DownwardAPI
      [(''labels'', \<lparr>fr_APIVersion = [], FieldPath = ''metadata.labels''\<rparr>)] (Some 420)\<rparr>
      \<in> set (Volumes (template_Spec (ds_Spec (defaulted (fst (Daemonset g1))))))"
    by (simp add: defaulted_def Daemonset_sel)
  from defaulted_daemonset_updated [OF _ this run] run show ?thesis by auto
qed

end
