(* ===== verification/Resources.thy ===== *)
theory Resources
  imports Controller Labels Regexp
begin

text \<open>
  \<open>controllers/authenticator_resources.go\<close>, \<open>SetupWithManager\<close> and \<open>main.go\<close>: how the
  operator starts. The templates of the RBAC objects are read from the manifest files
  below a directory; the directory tree, the files and the YAML decoder are parameters.
\<close>

section \<open>The manifest files\<close>

text \<open>\<open>filepath.Walk\<close> visits paths in order, each with its file information or, when that
  could not be had, with a nil \<open>info\<close>; \<open>Some True\<close> is a directory. The callback returns no
  error, so \<open>Walk\<close> returns none, but it calls \<open>info.IsDir()\<close> even on nil.\<close>

fun filePathWalkDir :: "(string \<times> bool option) list \<Rightarrow> string list go" where
  "filePathWalkDir [] = Ret []"
| "filePathWalkDir ((path, info) # rest) =
     (case info of
        None \<Rightarrow> Panic
      | Some isDir \<Rightarrow>
          (case filePathWalkDir rest of
             Panic \<Rightarrow> Panic
           | Ret files \<Rightarrow> Ret (if \<not> isDir then path # files else files)))"

fun read_files :: "(string \<Rightarrow> string res) \<Rightarrow> string list \<Rightarrow> string list go" where
  "read_files ReadFile [] = Ret []"
| "read_files ReadFile (file # rest) =
     (case ReadFile file of
        Inl e \<Rightarrow> Panic
      | Inr buffer \<Rightarrow>
          (case read_files ReadFile rest of Panic \<Rightarrow> Panic | Ret ms \<Rightarrow> Ret (buffer # ms)))"

definition getAssetsFrom ::
  "(string \<Rightarrow> (string \<times> bool option) list) \<Rightarrow> (string \<Rightarrow> string res) \<Rightarrow> string \<Rightarrow> string list go" where
  "getAssetsFrom Walk ReadFile path =
     (case filePathWalkDir (Walk path) of Panic \<Rightarrow> Panic | Ret files \<Rightarrow> read_files ReadFile files)"

section \<open>The kind of a manifest\<close>

text \<open>\<open>\b(\w*kind:\w*)\B.*\b\<close>\<close>

definition kind_re :: "atom list" where
  "kind_re = [Bound True, Many 0 is_word] @ lit ''kind:'' @
     [Many 0 is_word, Bound False, Many 0 dot, Bound True]"

text \<open>\<open>slce[1]\<close> panics when nothing was found.\<close>

definition manifest_kind :: "string \<Rightarrow> string go" where
  "manifest_kind m = (case Split (FindString kind_re m) (CHR '':'') of
     _ # kind # _ \<Rightarrow> Ret (TrimSpace kind) | _ \<Rightarrow> Panic)"

lemma kind_re_needs_kind:
  assumes "rmatch kind_re prev s = Some ps"
  shows "\<exists>w rest. (\<forall>c\<in>set w. is_word c) \<and> s = w @ ''kind:'' @ rest"
proof -
  from assms obtain qs where "rmatch (Many 0 is_word # lit ''kind:'' @
      [Many 0 is_word, Bound False, Many 0 dot, Bound True]) prev s = Some qs"
    by (auto simp: kind_re_def split: if_splits)
  then obtain x t ps where "s = x @ t" and "\<forall>c\<in>set x. is_word c"
    and "rmatch (lit ''kind:'' @ [Many 0 is_word, Bound False, Many 0 dot, Bound True])
      (prev_char prev x) t = Some ps"
    by (auto elim: rmatch_Many_Some)
  then show ?thesis using rmatch_lit_Some by blast
qed

lemma kind_re_empty: "rmatch kind_re prev [] = None"
  using kind_re_needs_kind [of prev "[]"] by (cases "rmatch kind_re prev []") auto

lemma kind_chars [simp]:
  "is_word (CHR ''k'')" "is_word (CHR ''i'')" "is_word (CHR ''n'')" "is_word (CHR ''d'')"
  "\<not> is_word (CHR '':'')" "\<not> is_word (CHR '' '')" "\<not> is_word (CHR 0x0A)"
  by code_simp+

lemma word_not_space: "is_word c \<Longrightarrow> \<not> isSpace c"
  by (auto simp: isSpace_def is_word_def)

lemma word_no_newline: "\<forall>c\<in>set K. is_word c \<Longrightarrow> \<forall>c\<in>set (CHR '' '' # K). dot c"
  by (auto simp: dot_def)

text \<open>A match that begins at \<open>kind:\<close> in a line of its own takes the rest of the line.\<close>

lemma kind_re_match:
  assumes "\<not> at_word prev" and "K \<noteq> []" and "\<forall>c\<in>set K. is_word c"
    and "rest = [] \<or> hd rest = CHR 0x0A"
  shows "\<exists>ps. rmatch kind_re prev (''kind: '' @ K @ rest) = Some ps \<and> concat ps = ''kind: '' @ K"
proof -
  have end_re: "rmatch [Bound True] (prev_char (Some (CHR '':'')) (CHR '' '' # K)) rest = Some [[]]"
    using assms(2-4) by (cases rest) (auto simp: prev_char_def next_char_def)
  have "rmatch (Many 0 dot # [Bound True]) (Some (CHR '':'')) ((CHR '' '' # K) @ rest) =
      Some [CHR '' '' # K, []]"
    using assms(4) by (intro rmatch_Many_longest word_no_newline assms(3) end_re)
      (auto simp: dot_def)
  then have "rmatch (Bound False # Many 0 dot # [Bound True]) (Some (CHR '':'')) ('' '' @ K @ rest) =
      Some [[], CHR '' '' # K, []]"
    by (simp add: next_char_def)
  then have "rmatch (Many 0 is_word # Bound False # Many 0 dot # [Bound True]) (Some (CHR '':''))
      ([] @ '' '' @ K @ rest) = Some [[], [], CHR '' '' # K, []]"
    by (intro rmatch_Many_longest) (simp_all add: prev_char_def)
  then have body: "rmatch (lit ''kind:'' @ Many 0 is_word # Bound False # Many 0 dot # [Bound True]) p
      (''kind:'' @ '' '' @ K @ rest) =
      Some [''k'', ''i'', ''n'', ''d'', '':'', [], [], CHR '' '' # K, []]" for p
    unfolding rmatch_lit by (simp add: prev_char_def)
  have len: "length (takeWhile is_word (''kind: '' @ K @ rest)) = 4" by simp
  have upt: "rev [0..<Suc 4] = [4, 3, 2, 1, 0 :: nat]" by code_simp
  have "rmatch (Many 0 is_word # lit ''kind:'' @ Many 0 is_word # Bound False # Many 0 dot # [Bound True])
      prev (''kind: '' @ K @ rest) =
      Some [[], ''k'', ''i'', ''n'', ''d'', '':'', [], [], CHR '' '' # K, []]"
    unfolding rmatch.simps(3) len upt using body by (simp add: lit_def numeral_eq_Suc)
  then show ?thesis
    using assms(1) by (simp add: kind_re_def next_char_def)
qed

text \<open>
  The kind of a manifest is what follows the first \<open>kind:\<close>, if that stands at the
  beginning of a line with a single word after it: the nested \<open>kind:\<close> lines of a role
  binding, which come later in the file, do not matter. In a file without any \<open>kind:\<close> the
  search finds nothing and the operator panics.
\<close>

lemma manifest_kind_found:
  assumes "pre = [] \<or> last pre = CHR 0x0A" and "\<not> Contains pre ''kind:''"
    and "K \<noteq> []" and "\<forall>c\<in>set K. is_word c" and "rest = [] \<or> hd rest = CHR 0x0A"
  shows "manifest_kind (pre @ ''kind: '' @ K @ rest) = Ret K \<and> manifest_kind pre = Panic"
proof -
  have none: "rmatch kind_re p (b @ t) = None" if "pre = a @ b" and "b \<noteq> []" for a b p t
  proof (rule ccontr)
    assume "rmatch kind_re p (b @ t) \<noteq> None"
    then obtain w u where w: "\<forall>c\<in>set w. is_word c" and bt: "b @ t = w @ ''kind:'' @ u"
      using kind_re_needs_kind by blast
    have "last b = CHR 0x0A" using that assms(1) by auto
    then have "CHR 0x0A \<in> set b" using that(2) by (metis last_in_set)
    moreover have "CHR 0x0A \<notin> set (w @ ''kind:'')" using w by auto
    moreover from bt have "b @ t = (w @ ''kind:'') @ u" by simp
    then obtain b' where "b = (w @ ''kind:'') @ b' \<or> b @ b' = w @ ''kind:''"
      by (metis append_eq_append_conv2)
    ultimately have "b = w @ ''kind:'' @ b'"
      by (metis Un_iff append_assoc set_append)
    then have "Contains pre ''kind:''" using that(1) Contains_self by (metis append_assoc)
    with assms(2) show False by simp
  qed
  have "\<not> at_word (prev_char None pre)" using assms(1) by (auto simp: prev_char_def)
  from kind_re_match [OF this assms(3-5)] obtain ps
    where "rmatch kind_re (prev_char None pre) (''kind: '' @ K @ rest) = Some ps"
      and ps: "concat ps = ''kind: '' @ K" by blast
  then have "rfind kind_re None (pre @ ''kind: '' @ K @ rest) = Some ps"
    by (subst rfind_skip) (auto intro: none rfind_here)
  then have found: "FindString kind_re (pre @ ''kind: '' @ K @ rest) = ''kind: '' @ K"
    by (simp add: FindString_def ps)
  have "rfind kind_re None (pre @ []) = rfind kind_re (prev_char None pre) []"
    by (rule rfind_skip) (rule none)
  then have "rfind kind_re None pre = None" by (simp add: kind_re_empty)
  then have absent: "FindString kind_re pre = []" by (simp add: FindString_def)
  have "CHR '':'' \<notin> set K" using assms(4) by auto
  then have "Split (''kind: '' @ K) (CHR '':'') = [''kind'', '' '' @ K]"
    by (simp add: Split_no_sep)
  moreover have "TrimSpace ('' '' @ K) = K"
    using TrimSpace_no_space [of K] word_not_space assms(4) by (simp add: TrimSpace_def isSpace_def)
  ultimately show ?thesis unfolding manifest_kind_def found absent by simp
qed

lemma manifest_kind_found_example:
  "manifest_kind (''apiVersion: v1'' @ nl @ ''kind: RoleBinding'' @ nl @ ''roleRef:'' @ nl @
     ''  kind: Role'') = Ret ''RoleBinding''"
proof -
  have "\<not> Contains (''apiVersion: v1'' @ nl) ''kind:''" by code_simp
  moreover have "\<forall>c\<in>set ''RoleBinding''. is_word c" by code_simp
  ultimately show ?thesis
    using manifest_kind_found [of "''apiVersion: v1'' @ nl" "''RoleBinding''"
        "nl @ ''roleRef:'' @ nl @ ''  kind: Role''"] by (simp add: nl_def)
qed

section \<open>The templates\<close>

text \<open>The decoder of \<open>runtime/serializer/json\<close> for the three types.\<close>

record decoder =
  dec_ServiceAccount :: "string \<Rightarrow> RbacObject res"
  dec_Role :: "string \<Rightarrow> RbacObject res"
  dec_RoleBinding :: "string \<Rightarrow> RbacObject res"

record found =
  f_serviceAccount :: "RbacObject option"
  f_role :: "RbacObject option"
  f_roleBinding :: "RbacObject option"

text \<open>\<open>panicIfError(err)\<close> after a decode.\<close>

definition must :: "'a res \<Rightarrow> 'a go" where
  "must r = (case r of Inl e \<Rightarrow> Panic | Inr x \<Rightarrow> Ret x)"

definition retrieve_one :: "decoder \<Rightarrow> string \<Rightarrow> found \<Rightarrow> found res go" where
  "retrieve_one D m res =
     (case manifest_kind m of
        Panic \<Rightarrow> Panic
      | Ret kind \<Rightarrow>
          (if kind = ''ServiceAccount'' then
             (case must (dec_ServiceAccount D m) of Panic \<Rightarrow> Panic
              | Ret sa \<Rightarrow> Ret (Inr (res\<lparr>f_serviceAccount := Some sa\<rparr>)))
           else if kind = ''Role'' then
             (case must (dec_Role D m) of Panic \<Rightarrow> Panic
              | Ret r \<Rightarrow> Ret (Inr (res\<lparr>f_role := Some r\<rparr>)))
           else if kind = ''RoleBinding'' then
             (case must (dec_RoleBinding D m) of Panic \<Rightarrow> Panic
              | Ret rb \<Rightarrow>
                  Ret (if length (Subject_Namespaces rb) \<noteq> 1
                       then Inl (NewErr ''invalid subject length on authenticator rbac binding'')
                       else Inr (res\<lparr>f_roleBinding := Some rb\<rparr>)))
           else Ret (Inl (NewErr (''unknown resource: kind '' @ kind)))))"

fun retrieve_loop :: "decoder \<Rightarrow> string list \<Rightarrow> found \<Rightarrow> found res go" where
  "retrieve_loop D [] res = Ret (Inr res)"
| "retrieve_loop D (m # ms) res =
     (case retrieve_one D m res of
        Panic \<Rightarrow> Panic
      | Ret (Inl e) \<Rightarrow> Ret (Inl e)
      | Ret (Inr res') \<Rightarrow> retrieve_loop D ms res')"

definition retrieveResources ::
  "(string \<Rightarrow> (string \<times> bool option) list) \<Rightarrow> (string \<Rightarrow> string res) \<Rightarrow> decoder \<Rightarrow> string \<Rightarrow> resources res go" where
  "retrieveResources Walk ReadFile D path =
     (case getAssetsFrom Walk ReadFile path of
        Panic \<Rightarrow> Panic
      | Ret manifests \<Rightarrow>
          (case retrieve_loop D manifests \<lparr>f_serviceAccount = None, f_role = None, f_roleBinding = None\<rparr> of
             Panic \<Rightarrow> Panic
           | Ret (Inl e) \<Rightarrow> Ret (Inl e)
           | Ret (Inr res) \<Rightarrow>
               Ret (case f_serviceAccount res of
                      None \<Rightarrow> Inl (NewErr ''authenticator service account object not found'')
                    | Some sa \<Rightarrow>
                        (case f_role res of
                           None \<Rightarrow> Inl (NewErr ''authenticator role object not found'')
                         | Some r \<Rightarrow>
                             (case f_roleBinding res of
                                None \<Rightarrow> Inl (NewErr ''authenticator role binding object not found'')
                              | Some rb \<Rightarrow>
                                  Inr \<lparr>r_serviceAccount = sa, r_role = r, r_roleBinding = rb\<rparr>)))))"

text \<open>What a usable manifest holds: its kind and its object.\<close>

definition decoder_for :: "decoder \<Rightarrow> string \<Rightarrow> (string \<Rightarrow> RbacObject res) option" where
  "decoder_for D = map_of [(''ServiceAccount'', dec_ServiceAccount D), (''Role'', dec_Role D),
     (''RoleBinding'', dec_RoleBinding D)]"

definition usable :: "decoder \<Rightarrow> string \<Rightarrow> (string \<times> RbacObject) option" where
  "usable D m = (case manifest_kind m of
     Panic \<Rightarrow> None
   | Ret kind \<Rightarrow>
       (case decoder_for D kind of
          None \<Rightarrow> None
        | Some dec \<Rightarrow>
            (case dec m of
               Inl e \<Rightarrow> None
             | Inr obj \<Rightarrow>
                 (if kind = ''RoleBinding'' \<and> length (Subject_Namespaces obj) \<noteq> 1 then None
                  else Some (kind, obj)))))"

definition keep :: "string \<times> RbacObject \<Rightarrow> found \<Rightarrow> found" where
  "keep ko res = (case ko of (kind, obj) \<Rightarrow>
     if kind = ''ServiceAccount'' then res\<lparr>f_serviceAccount := Some obj\<rparr>
     else if kind = ''Role'' then res\<lparr>f_role := Some obj\<rparr>
     else res\<lparr>f_roleBinding := Some obj\<rparr>)"

lemma retrieve_one_iff:
  "retrieve_one D m res = Ret (Inr res') \<longleftrightarrow> (\<exists>ko. usable D m = Some ko \<and> res' = keep ko res)"
proof (cases "manifest_kind m")
  case (Ret kind)
  consider "kind = ''ServiceAccount''" | "kind = ''Role''" | "kind = ''RoleBinding''"
    | "decoder_for D kind = None" "kind \<notin> {''ServiceAccount'', ''Role'', ''RoleBinding''}"
    by (auto simp: decoder_for_def)
  then show ?thesis
  proof cases
    case 1
    then show ?thesis using Ret
      by (cases "dec_ServiceAccount D m") (auto simp: retrieve_one_def usable_def decoder_for_def keep_def must_def)
  next
    case 2
    then show ?thesis using Ret
      by (cases "dec_Role D m") (auto simp: retrieve_one_def usable_def decoder_for_def keep_def must_def)
  next
    case 3
    then show ?thesis using Ret
      by (cases "dec_RoleBinding D m") (auto simp: retrieve_one_def usable_def decoder_for_def keep_def must_def)
  next
    case 4
    then show ?thesis using Ret by (simp add: retrieve_one_def usable_def)
  qed
qed (simp add: retrieve_one_def usable_def)

lemma retrieve_loop_iff:
  "retrieve_loop D ms res = Ret (Inr res') \<longleftrightarrow>
   (\<exists>kos. map (usable D) ms = map Some kos \<and> res' = fold keep kos res)"
proof (induction ms arbitrary: res)
  case (Cons m ms)
  have "retrieve_loop D (m # ms) res = Ret (Inr res') \<longleftrightarrow>
      (\<exists>res1. retrieve_one D m res = Ret (Inr res1) \<and> retrieve_loop D ms res1 = Ret (Inr res'))"
    by (auto split: go.splits sum.splits)
  also have "\<dots> \<longleftrightarrow> (\<exists>ko kos. usable D m = Some ko \<and> map (usable D) ms = map Some kos \<and>
      res' = fold keep kos (keep ko res))"
    by (auto simp: retrieve_one_iff Cons.IH)
  also have "\<dots> \<longleftrightarrow> (\<exists>kos. map (usable D) (m # ms) = map Some kos \<and> res' = fold keep kos res)"
    by (auto simp: Cons_eq_map_conv)
  finally show ?case .
qed auto

lemma usable_kind: "usable D m = Some (k, obj) \<Longrightarrow> k \<in> {''ServiceAccount'', ''Role'', ''RoleBinding''}"
  by (auto simp: usable_def decoder_for_def split: go.splits sum.splits if_splits)

lemma fold_keep:
  "fst ` set kos \<subseteq> {''ServiceAccount'', ''Role'', ''RoleBinding''} \<Longrightarrow>
   f_serviceAccount (fold keep kos res) =
     (case map_of (rev kos) ''ServiceAccount'' of None \<Rightarrow> f_serviceAccount res | s \<Rightarrow> s) \<and>
   f_role (fold keep kos res) = (case map_of (rev kos) ''Role'' of None \<Rightarrow> f_role res | s \<Rightarrow> s) \<and>
   f_roleBinding (fold keep kos res) =
     (case map_of (rev kos) ''RoleBinding'' of None \<Rightarrow> f_roleBinding res | s \<Rightarrow> s)"
  by (induction kos arbitrary: res)
    (auto simp: keep_def map_add_def split: option.splits prod.splits if_splits)

text \<open>
  C17. Loading the templates succeeds exactly when every file below the path is a manifest
  that decodes, of one of the three kinds, a role binding with exactly one subject, and
  each kind occurs; each template is then the object of the last manifest of its kind.
\<close>

theorem templates_loaded:
  "retrieveResources Walk ReadFile D path = Ret (Inr rs) \<longleftrightarrow>
   (\<exists>ms kos. getAssetsFrom Walk ReadFile path = Ret ms \<and> map (usable D) ms = map Some kos \<and>
      map_of (rev kos) ''ServiceAccount'' = Some (r_serviceAccount rs) \<and>
      map_of (rev kos) ''Role'' = Some (r_role rs) \<and>
      map_of (rev kos) ''RoleBinding'' = Some (r_roleBinding rs))"
proof -
  let ?r0 = "\<lparr>f_serviceAccount = None, f_role = None, f_roleBinding = None\<rparr>"
  have "retrieveResources Walk ReadFile D path = Ret (Inr rs) \<longleftrightarrow>
    (\<exists>ms res. getAssetsFrom Walk ReadFile path = Ret ms \<and> retrieve_loop D ms ?r0 = Ret (Inr res) \<and>
       f_serviceAccount res = Some (r_serviceAccount rs) \<and> f_role res = Some (r_role rs) \<and>
       f_roleBinding res = Some (r_roleBinding rs))"
    by (cases rs) (auto simp: retrieveResources_def split: go.splits sum.splits option.splits)
  also have "\<dots> \<longleftrightarrow> (\<exists>ms kos. getAssetsFrom Walk ReadFile path = Ret ms \<and>
      map (usable D) ms = map Some kos \<and>
      f_serviceAccount (fold keep kos ?r0) = Some (r_serviceAccount rs) \<and>
      f_role (fold keep kos ?r0) = Some (r_role rs) \<and>
      f_roleBinding (fold keep kos ?r0) = Some (r_roleBinding rs))"
    by (auto simp: retrieve_loop_iff)
  also have "\<dots> \<longleftrightarrow> (\<exists>ms kos. getAssetsFrom Walk ReadFile path = Ret ms \<and>
      map (usable D) ms = map Some kos \<and>
      map_of (rev kos) ''ServiceAccount'' = Some (r_serviceAccount rs) \<and>
      map_of (rev kos) ''Role'' = Some (r_role rs) \<and>
      map_of (rev kos) ''RoleBinding'' = Some (r_roleBinding rs))"
  proof -
    have kinds: "fst ` set kos \<subseteq> {''ServiceAccount'', ''Role'', ''RoleBinding''}"
      if "map (usable D) ms = map Some kos" for ms kos
    proof
      fix k assume "k \<in> fst ` set kos"
      then obtain obj where "(k, obj) \<in> set kos" by auto
      then have "Some (k, obj) \<in> set (map (usable D) ms)" unfolding that by simp
      then obtain m where "usable D m = Some (k, obj)" by (metis imageE list.set_map)
      then show "k \<in> {''ServiceAccount'', ''Role'', ''RoleBinding''}" by (rule usable_kind)
    qed
    have "f_serviceAccount (fold keep kos ?r0) = map_of (rev kos) ''ServiceAccount'' \<and>
        f_role (fold keep kos ?r0) = map_of (rev kos) ''Role'' \<and>
        f_roleBinding (fold keep kos ?r0) = map_of (rev kos) ''RoleBinding''"
      if "map (usable D) ms = map Some kos" for ms kos
      using fold_keep [OF kinds [OF that], of ?r0] by (simp split: option.splits)
    then show ?thesis by (metis (no_types, lifting))
  qed
  finally show ?thesis .
qed

section \<open>The start of the operator\<close>

definition AuthenticatorRbacPath :: string where
  "AuthenticatorRbacPath = ''./bindata/deployment/authenticator-rbac''"

text \<open>What the operator gets from outside: the files, the decoder, and whether building the
  manager, the controller and the two probes fails.\<close>

record operator_env =
  op_Walk :: "string \<Rightarrow> (string \<times> bool option) list"
  op_ReadFile :: "string \<Rightarrow> string res"
  op_decoder :: decoder
  op_NewManager :: "err option"
  op_Complete :: "err option"
  op_AddHealthzCheck :: "err option"
  op_AddReadyzCheck :: "err option"

definition SetupWithManager :: "operator_env \<Rightarrow> resources res go" where
  "SetupWithManager ops =
     (case retrieveResources (op_Walk ops) (op_ReadFile ops) (op_decoder ops) AuthenticatorRbacPath of
        Panic \<Rightarrow> Panic
      | Ret (Inl e) \<Rightarrow> Ret (Inl e)
      | Ret (Inr rbacResources) \<Rightarrow>
          Ret (case op_Complete ops of Some e \<Rightarrow> Inl e | None \<Rightarrow> Inr rbacResources))"

text \<open>The operator is at \<open>mgr.Start\<close>, or has left before.\<close>

datatype operator_start =
    OpPanicked
  | OpExit1 string
  | OpStarting resources

definition operator_main :: "operator_env \<Rightarrow> operator_start" where
  "operator_main ops =
     (if op_NewManager ops \<noteq> None then OpExit1 ''unable to start manager''
      else case SetupWithManager ops of
             Panic \<Rightarrow> OpPanicked
           | Ret (Inl e) \<Rightarrow> OpExit1 ''unable to create controller''
           | Ret (Inr rs) \<Rightarrow>
               (if op_AddHealthzCheck ops \<noteq> None then OpExit1 ''unable to set up health check''
                else if op_AddReadyzCheck ops \<noteq> None then OpExit1 ''unable to set up ready check''
                else OpStarting rs))"

lemma operator_main_starting:
  "operator_main ops = OpStarting rs \<Longrightarrow>
   retrieveResources (op_Walk ops) (op_ReadFile ops) (op_decoder ops) AuthenticatorRbacPath = Ret (Inr rs)"
  by (auto simp: operator_main_def SetupWithManager_def
      split: if_splits go.splits sum.splits option.splits)

section \<open>The role binding of the operator\<close>

text \<open>
  The operator loads its templates once and then reconciles one request after the other,
  against an API server that may answer differently every time. Of the server it is asked
  that the object it returns from a create has as many subjects as the one it was given.
\<close>

definition keeps_subjects :: "kenv \<Rightarrow> bool" where
  "keeps_subjects E = (\<forall>h obj stored. k_CreateRbac E h RoleBinding obj = Inr stored \<longrightarrow>
     length (Subject_Namespaces stored) = length (Subject_Namespaces obj))"

definition operator_init :: "operator_env \<Rightarrow> resources \<times> khist \<Rightarrow> bool" where
  "operator_init ops s = (operator_main ops = OpStarting (fst s) \<and> snd s = [])"

inductive operator_step :: "NamespacedName \<Rightarrow> resources \<times> khist \<Rightarrow> resources \<times> khist \<Rightarrow> bool" where
  reconciled: "keeps_subjects E \<Longrightarrow> Reconcile E req rs h = (r, rs', h') \<Longrightarrow>
     operator_step req (rs, h) (rs', h')"

fun binds_here :: "kcall \<Rightarrow> bool" where
  "binds_here (KCreateRbac RoleBinding obj r) = (Subject_Namespaces obj = [om_Namespace (ro_Meta obj)])"
| "binds_here c = True"

definition operator_inv :: "resources \<times> khist \<Rightarrow> bool" where
  "operator_inv s = (length (Subject_Namespaces (r_roleBinding (fst s))) = 1 \<and> list_all binds_here (snd s))"

lemma sync_binding:
  assumes "sync_one E RoleBinding msg (subject_in ns) owner ns rb h = (r, rb', h')"
    and "keeps_subjects E" and "length (Subject_Namespaces rb) = 1" and "list_all binds_here h"
  shows "length (Subject_Namespaces rb') = 1 \<and> list_all binds_here h'"
proof -
  obtain n where n: "Subject_Namespaces rb = [n]" using assms(3) by (auto simp: length_Suc_conv)
  show ?thesis
    using assms(1,2,4) n unfolding keeps_subjects_def
    by (auto simp: sync_one_unfold createOwned_Rbac_def subject_in_def Let_def
        split: sum.splits if_splits)
qed

lemma sync_other:
  assumes "sync_one E kd msg id owner ns obj h = (r, obj', h')" and "kd \<noteq> RoleBinding"
    and "list_all binds_here h"
  shows "list_all binds_here h'"
  using assms by (cases kd)
    (auto simp: sync_one_unfold createOwned_Rbac_def Let_def split: sum.splits if_splits)

lemma syncRbac_binding:
  assumes "syncRbacResources E owner ns rs h = (r, rs', h')" and "keeps_subjects E"
    and "operator_inv (rs, h)"
  shows "operator_inv (rs', h')"
proof -
  obtain r1 sa h1 where s1: "sync_one E ServiceAccount ''error creating authenticator service account''
      id owner ns (r_serviceAccount rs) h = (r1, sa, h1)" by (metis prod_cases3)
  obtain r2 ro h2 where s2: "sync_one E Role ''error creating authenticator role''
      id owner ns (r_role rs) h1 = (r2, ro, h2)" by (metis prod_cases3)
  obtain r3 rb h3 where s3: "sync_one E RoleBinding ''error creating authenticator role binding''
      (subject_in ns) owner ns (r_roleBinding rs) h2 = (r3, rb, h3)" by (metis prod_cases3)
  have one: "length (Subject_Namespaces (r_roleBinding rs)) = 1" and h: "list_all binds_here h"
    using assms(3) by (simp_all add: operator_inv_def)
  have h1: "list_all binds_here h1" using sync_other [OF s1 _ h] by simp
  have h2: "list_all binds_here h2" using sync_other [OF s2 _ h1] by simp
  note h3 = sync_binding [OF s3 assms(2) one h2]
  from assms(1) s1 s2 s3 one h1 h2 h3 show ?thesis
    by (auto simp: syncRbac_unfold operator_inv_def split: option.splits)
qed

lemma other_calls_bind: "list_all binds_here h \<Longrightarrow> sync_cm E req a cm h = (r, h') \<Longrightarrow> list_all binds_here h'"
  "list_all binds_here h \<Longrightarrow> sync_ds E req a ds h = (r, h') \<Longrightarrow> list_all binds_here h'"
  by (auto simp: sync_cm_def sync_ds_def createOwned_CM_def createOwned_DS_def Let_def
      split: sum.splits if_splits)

lemma Reconcile_binding:
  assumes "Reconcile E req rs h = (r, rs', h')" and "keeps_subjects E" and "operator_inv (rs, h)"
  shows "operator_inv (rs', h')"
proof -
  have same: "operator_inv (rs, h1)" if "list_all binds_here h1" for h1
    using assms(3) that by (simp add: operator_inv_def)
  have h: "list_all binds_here h" using assms(3) by (simp add: operator_inv_def)
  show ?thesis
  proof (cases "k_GetAuth E h req")
    case (Inl e)
    with assms(1) h same [of "KGetAuth req (Inl e) # h"] show ?thesis by (auto simp: Reconcile_unfold)
  next
    case (Inr a)
    let ?h1 = "KGetAuth req (Inr a) # h"
    obtain r2 h2 where s2: "sync_cm E req a (gen_cm a) ?h1 = (r2, h2)" by fastforce
    obtain r3 rs1 h3 where s3: "syncRbacResources E a (nn_Namespace req) rs h2 = (r3, rs1, h3)"
      by (metis prod_cases3)
    obtain r4 h4 where s4: "sync_ds E req a (fst (Daemonset (gen_of rs a))) h3 = (r4, h4)" by fastforce
    have i2: "operator_inv (rs, h2)" using other_calls_bind(1) [OF _ s2] h by (intro same) simp
    have i3: "operator_inv (rs1, h3)" by (rule syncRbac_binding [OF s3 assms(2) i2])
    then have "operator_inv (rs1, h4)"
      using other_calls_bind(2) [OF _ s4] by (simp add: operator_inv_def)
    with assms(1) Inr s2 s3 s4 i2 i3 show ?thesis by (auto simp: Reconcile_unfold split: option.splits)
  qed
qed

text \<open>A loaded role binding has one subject, since every usable one has.\<close>

lemma usable_binding:
  assumes "usable D m = Some (''RoleBinding'', obj)" shows "length (Subject_Namespaces obj) = 1"
proof -
  obtain kind where k: "manifest_kind m = Ret kind" using assms by (cases "manifest_kind m") (simp_all add: usable_def)
  obtain dec where d: "decoder_for D kind = Some dec" using assms k by (cases "decoder_for D kind") (simp_all add: usable_def)
  show ?thesis
    using assms k d by (cases "dec m") (simp_all add: usable_def split: if_splits)
qed

lemma retrieve_loop_subject:
  assumes "retrieve_loop D ms res = Ret (Inr res')"
    and "\<forall>rb. f_roleBinding res = Some rb \<longrightarrow> length (Subject_Namespaces rb) = 1"
  shows "\<forall>rb. f_roleBinding res' = Some rb \<longrightarrow> length (Subject_Namespaces rb) = 1"
  using assms
proof (induction ms arbitrary: res)
  case (Cons m ms)
  from Cons.prems(1) obtain res1 where one: "retrieve_one D m res = Ret (Inr res1)"
    and rest: "retrieve_loop D ms res1 = Ret (Inr res')"
    by (auto split: go.splits sum.splits)
  from one obtain ko where u: "usable D m = Some ko" and "res1 = keep ko res"
    by (auto simp: retrieve_one_iff)
  moreover have "fst ko = ''RoleBinding'' \<Longrightarrow> length (Subject_Namespaces (snd ko)) = 1"
    using usable_binding [of D m "snd ko"] u by (cases ko) simp
  moreover have "fst ko \<in> {''ServiceAccount'', ''Role'', ''RoleBinding''}"
    using usable_kind [of D m "fst ko" "snd ko"] u by simp
  ultimately show ?case
    using Cons.prems(2) by (intro Cons.IH [OF rest]) (auto simp: keep_def split_beta split: if_splits)
qed simp

lemma loaded_one_subject:
  assumes "retrieveResources Walk ReadFile D path = Ret (Inr rs)"
  shows "length (Subject_Namespaces (r_roleBinding rs)) = 1"
  using assms retrieve_loop_subject
  by (fastforce simp: retrieveResources_def split: go.splits sum.splits option.splits)

interpretation operator: invariant_system "operator_init ops" operator_step operator_inv
proof unfold_locales
  fix s assume "operator_init ops s"
  then show "operator_inv s"
    using loaded_one_subject [OF operator_main_starting, of ops "fst s"]
    by (simp add: operator_init_def operator_inv_def)
next
  fix s l t assume "operator_inv s" and "operator_step l s t"
  then show "operator_inv t"
    by (auto elim!: operator_step.cases intro: Reconcile_binding)
qed


text \<open>An operator with three manifest files.\<close>

definition operator0 :: operator_env where
  "operator0 = \<lparr>op_Walk = (\<lambda>path. [(path, Some True), (''sa'', Some False), (''role'', Some False),
       (''rb'', Some False)]),
     op_ReadFile = (\<lambda>f. if f = ''sa'' then Inr ''kind: ServiceAccount''
       else if f = ''role'' then Inr ''kind: Role'' else Inr ''kind: RoleBinding''),
     op_decoder = \<lparr>dec_ServiceAccount = (\<lambda>m. Inr (r_serviceAccount rs0)),
       dec_Role = (\<lambda>m. Inr (r_role rs0)), dec_RoleBinding = (\<lambda>m. Inr (r_roleBinding rs0))\<rparr>,
     op_NewManager = None, op_Complete = None, op_AddHealthzCheck = None, op_AddReadyzCheck = None\<rparr>"

lemma kinds0:
  "manifest_kind ''kind: ServiceAccount'' = Ret ''ServiceAccount''"
  "manifest_kind ''kind: Role'' = Ret ''Role''" "manifest_kind ''kind: RoleBinding'' = Ret ''RoleBinding''"
  by code_simp+

lemma operator0_starts: "operator_main operator0 = OpStarting rs0"
  by (simp add: operator_main_def SetupWithManager_def retrieveResources_def getAssetsFrom_def
      operator0_def retrieve_one_def kinds0 must_def rs0_def)


end
