(* ===== verification/Cluster.thy ===== *)
theory Cluster
  imports Controller
begin

text \<open>
  The reconciler against a cluster that remembers. Theory \<open>Controller\<close> lets the API server
  answer arbitrarily; here it stores what it accepts and answers lookups from its store, and
  \<open>Reconcile\<close> is shown to implement an abstract operation on that store: bring the objects of
  one Authenticator to what its spec asks for and leave everything else alone. The server may
  still refuse or fail any call. What is assumed of it is the predicate \<open>api_ok\<close>.
\<close>

section \<open>The store of the API server\<close>

record cluster =
  c_cm :: "NamespacedName \<Rightarrow> ConfigMap option"
  c_rbac :: "rbac_kind \<Rightarrow> NamespacedName \<Rightarrow> RbacObject option"
  c_ds :: "NamespacedName \<Rightarrow> DaemonSet option"

text \<open>What the server does to an object it stores: it stamps the metadata (resource version,
  UID and the like) and fills the unset fields of a DaemonSet with defaults.\<close>

record api_server =
  stamped :: "khist \<Rightarrow> ObjectMeta \<Rightarrow> ObjectMeta"
  dflt :: "DaemonSetSpec \<Rightarrow> DaemonSetSpec"

definition put_CM :: "api_server \<Rightarrow> khist \<Rightarrow> ConfigMap \<Rightarrow> cluster \<Rightarrow> cluster" where
  "put_CM S h cm cl = cl\<lparr>c_cm := (c_cm cl)(key_of (cm_Meta cm) \<mapsto> cm\<lparr>cm_Meta := stamped S h (cm_Meta cm)\<rparr>)\<rparr>"

definition put_DS :: "api_server \<Rightarrow> khist \<Rightarrow> DaemonSet \<Rightarrow> cluster \<Rightarrow> cluster" where
  "put_DS S h ds cl = cl\<lparr>c_ds := (c_ds cl)(key_of (ds_Meta ds) \<mapsto>
     ds\<lparr>ds_Meta := stamped S h (ds_Meta ds), ds_Spec := dflt S (ds_Spec ds)\<rparr>)\<rparr>"

fun effect :: "api_server \<Rightarrow> khist \<Rightarrow> kcall \<Rightarrow> cluster \<Rightarrow> cluster" where
  "effect S h (KCreateCM cm None) cl = put_CM S h cm cl"
| "effect S h (KUpdateCM cm None) cl = put_CM S h cm cl"
| "effect S h (KCreateRbac kd obj (Inr st)) cl =
     cl\<lparr>c_rbac := (c_rbac cl)(kd := (c_rbac cl kd)(key_of (ro_Meta obj) \<mapsto> st))\<rparr>"
| "effect S h (KCreateDS ds None) cl = put_DS S h ds cl"
| "effect S h (KUpdateDS ds None) cl = put_DS S h ds cl"
| "effect S h c cl = cl"

fun cluster_at :: "api_server \<Rightarrow> cluster \<Rightarrow> khist \<Rightarrow> cluster" where
  "cluster_at S cl [] = cl"
| "cluster_at S cl (c # h) = effect S h c (cluster_at S cl h)"

text \<open>
  The server keeps the key and the owner references of the metadata it is sent; a lookup that
  succeeds returns the stored object, and one that is answered "not found" has none to
  return; a failed write changes nothing, and nobody else writes to these objects; the
  object returned by a create is the one asked for.
\<close>

definition api_ok :: "api_server \<Rightarrow> cluster \<Rightarrow> kenv \<Rightarrow> bool" where
  "api_ok S cl E =
     ((\<forall>h m. key_of (stamped S h m) = key_of m \<and> OwnerReferences (stamped S h m) = OwnerReferences m) \<and>
      (\<forall>h k cm. k_GetCM E h k = Inr cm \<longrightarrow> c_cm (cluster_at S cl h) k = Some cm) \<and>
      (\<forall>h k. k_GetCM E h k = Inl NotFound \<longrightarrow> c_cm (cluster_at S cl h) k = None) \<and>
      (\<forall>h kd k obj. k_GetRbac E h kd k = Inr obj \<longrightarrow> c_rbac (cluster_at S cl h) kd k = Some obj) \<and>
      (\<forall>h kd k. k_GetRbac E h kd k = Inl NotFound \<longrightarrow> c_rbac (cluster_at S cl h) kd k = None) \<and>
      (\<forall>h k ds. k_GetDS E h k = Inr ds \<longrightarrow> c_ds (cluster_at S cl h) k = Some ds) \<and>
      (\<forall>h k. k_GetDS E h k = Inl NotFound \<longrightarrow> c_ds (cluster_at S cl h) k = None) \<and>
      (\<forall>h kd obj st. k_CreateRbac E h kd obj = Inr st \<longrightarrow> key_of (ro_Meta st) = key_of (ro_Meta obj)))"

section \<open>The abstract operation\<close>

text \<open>What matters of the store: the data of a ConfigMap, the spec of a DaemonSet, the owner
  references of both, and which RBAC objects there are.\<close>

record content =
  v_cm :: "NamespacedName \<Rightarrow> ((string, string) mapping \<times> OwnerReference list) option"
  v_rbac :: "rbac_kind \<Rightarrow> NamespacedName \<Rightarrow> bool"
  v_ds :: "NamespacedName \<Rightarrow> (DaemonSetSpec \<times> OwnerReference list) option"

definition content_of :: "cluster \<Rightarrow> content" where
  "content_of cl =
     \<lparr>v_cm = (\<lambda>k. map_option (\<lambda>cm. (cm_Data cm, OwnerReferences (cm_Meta cm))) (c_cm cl k)),
      v_rbac = (\<lambda>kd k. c_rbac cl kd k \<noteq> None),
      v_ds = (\<lambda>k. map_option (\<lambda>ds. (ds_Spec ds, OwnerReferences (ds_Meta ds))) (c_ds cl k))\<rparr>"

text \<open>The ConfigMap and the DaemonSet are created with the Authenticator as their owner; where one
  differs from what is generated it is replaced, the ConfigMap losing its owner references
  and the DaemonSet keeping them; what is as generated is left alone.\<close>

definition want_cm :: "Authenticator \<Rightarrow> content \<Rightarrow> content" where
  "want_cm a v =
     (let k = key_of (a_Meta a); new = cm_Data (gen_cm a)
      in case v_cm v k of
           None \<Rightarrow> v\<lparr>v_cm := (v_cm v)(k \<mapsto> (new, [owner_ref a]))\<rparr>
         | Some (old, refs) \<Rightarrow> (if old = new then v else v\<lparr>v_cm := (v_cm v)(k \<mapsto> (new, []))\<rparr>))"

definition want_rbac :: "rbac_kind \<Rightarrow> string \<Rightarrow> RbacObject \<Rightarrow> content \<Rightarrow> content" where
  "want_rbac kd ns obj v = v\<lparr>v_rbac := (v_rbac v)(kd := (v_rbac v kd)
     (\<lparr>nn_Namespace = ns, nn_Name = om_Name (ro_Meta obj)\<rparr> := True))\<rparr>"

definition want_ds :: "api_server \<Rightarrow> resources \<Rightarrow> Authenticator \<Rightarrow> content \<Rightarrow> content" where
  "want_ds S rs a v =
     (let k = key_of (a_Meta a); new = ds_Spec (fst (Daemonset (gen_of rs a)))
      in case v_ds v k of
           None \<Rightarrow> v\<lparr>v_ds := (v_ds v)(k \<mapsto> (dflt S new, [owner_ref a]))\<rparr>
         | Some (old, refs) \<Rightarrow> (if old = new then v else v\<lparr>v_ds := (v_ds v)(k \<mapsto> (dflt S new, refs))\<rparr>))"

definition want_rbacs :: "string \<Rightarrow> resources \<Rightarrow> (content \<Rightarrow> content) list" where
  "want_rbacs ns rs = [want_rbac ServiceAccount ns (r_serviceAccount rs), want_rbac Role ns (r_role rs),
     want_rbac RoleBinding ns (r_roleBinding rs)]"

definition converge :: "api_server \<Rightarrow> resources \<Rightarrow> Authenticator \<Rightarrow> (content \<Rightarrow> content) list" where
  "converge S rs a = want_cm a # want_rbacs (om_Namespace (a_Meta a)) rs @ [want_ds S rs a]"

text \<open>A sequence of operations is carried out up to some point, and to the end if there is no
  error.\<close>

definition carried_out :: "('c \<Rightarrow> 'c) list \<Rightarrow> err option \<Rightarrow> 'c \<Rightarrow> 'c \<Rightarrow> bool" where
  "carried_out fs r v v' = (\<exists>n\<le>length fs. v' = fold id (take n fs) v \<and> (r = None \<longrightarrow> n = length fs))"

lemma carried_out_single: "v' = (if r = None then f else id) v \<Longrightarrow> carried_out [f] r v v'"
  by (auto simp: carried_out_def intro: exI [of _ 0] exI [of _ 1])

lemma carried_out_append:
  "carried_out fs None v v1 \<Longrightarrow> carried_out gs r v1 v2 \<Longrightarrow> carried_out (fs @ gs) r v v2"
  by (fastforce simp: carried_out_def intro: exI [of _ "length fs + _"])

lemma carried_out_stop:
  assumes "carried_out fs (Some e) v v1" shows "carried_out (fs @ gs) (Some e) v v1"
proof -
  obtain n where "n \<le> length fs" "v1 = fold id (take n fs) v" using assms by (auto simp: carried_out_def)
  then show ?thesis by (auto simp: carried_out_def intro: exI [of _ n])
qed

text \<open>Go's early return: the second part runs only if the first had no error.\<close>

lemma carried_out_then:
  assumes "carried_out fs r v v1" and "carried_out gs r' v1 v2"
  shows "carried_out (fs @ gs) (case r of None \<Rightarrow> r' | Some e \<Rightarrow> Some e) v (case r of None \<Rightarrow> v2 | Some e \<Rightarrow> v1)"
  using assms carried_out_append carried_out_stop by (cases r) auto

section \<open>Each step on the store\<close>

lemma owned_refs:
  "OwnerReferences m = [] \<Longrightarrow> om_Namespace m = om_Namespace (a_Meta a) \<Longrightarrow>
   OwnerReferences (owned a m) = [owner_ref a]"
  by (simp add: owned_def SetControllerReference_def validateOwner_def GetControllerOf_def Let_def)

lemma owned_key_of [simp]: "key_of (owned a m) = key_of m"
  by (simp add: key_of_def)

lemma gen_fresh:
  "OwnerReferences (cm_Meta (gen_cm a)) = []" "om_Namespace (cm_Meta (gen_cm a)) = om_Namespace (a_Meta a)"
  "OwnerReferences (ds_Meta (fst (Daemonset (gen_of rs a)))) = []"
  "om_Namespace (ds_Meta (fst (Daemonset (gen_of rs a)))) = om_Namespace (a_Meta a)"
  by (simp_all add: gen_cm_def new_meta_def Daemonset_sel gen_of_def)

lemma api_ok_stamped:
  "api_ok S cl E \<Longrightarrow> OwnerReferences (stamped S h m) = OwnerReferences m"
  by (simp add: api_ok_def)

lemma api_ok_found:
  assumes "api_ok S cl E"
  shows "k_GetCM E h k = Inr cm \<Longrightarrow> c_cm (cluster_at S cl h) k = Some cm"
    and "k_GetRbac E h kd k = Inr obj \<Longrightarrow> c_rbac (cluster_at S cl h) kd k = Some obj"
    and "k_GetDS E h k = Inr ds \<Longrightarrow> c_ds (cluster_at S cl h) k = Some ds"
  using assms by (simp_all add: api_ok_def)

lemma api_ok_missing:
  assumes "api_ok S cl E"
  shows "k_GetCM E h k = Inl NotFound \<Longrightarrow> c_cm (cluster_at S cl h) k = None"
    and "k_GetRbac E h kd k = Inl NotFound \<Longrightarrow> c_rbac (cluster_at S cl h) kd k = None"
    and "k_GetDS E h k = Inl NotFound \<Longrightarrow> c_ds (cluster_at S cl h) k = None"
  using assms by (simp_all add: api_ok_def)

text \<open>An answer to a lookup is "not found", another error or the stored object.\<close>

lemma res_cases [case_names missing failed found]:
  fixes x :: "'a res"
  obtains "x = Inl NotFound" | e where "x = Inl e" "e \<noteq> NotFound" | y where "x = Inr y"
  by (cases x) auto

lemma sync_cm_content:
  assumes "sync_cm E req a (gen_cm a) h = (r, h')" and ok: "api_ok S cl E" and "key_of (a_Meta a) = req"
  shows "content_of (cluster_at S cl h') =
    (if r = None then want_cm a else id) (content_of (cluster_at S cl h))"
proof -
  have key: "key_of (cm_Meta (gen_cm a)) = req" using assms(3) by (simp add: gen_keys)
  show ?thesis
  proof (cases "k_GetCM E h req" rule: res_cases)
    case missing
    with assms(1,3) key api_ok_missing(1) [OF ok missing] show ?thesis
      by (cases r) (auto simp: sync_cm_def createOwned_CM_def IsNotFound_def Let_def content_of_def
          want_cm_def put_CM_def owned_refs gen_fresh api_ok_stamped [OF ok])
  next
    case (failed e)
    with assms(1) show ?thesis by (auto simp: sync_cm_def IsNotFound_def Let_def)
  next
    case (found cm)
    with assms(1,3) key api_ok_found(1) [OF ok found] show ?thesis
      by (cases r) (auto simp: sync_cm_def Let_def content_of_def want_cm_def put_CM_def gen_fresh
          api_ok_stamped [OF ok] split: if_splits)
  qed
qed

lemma sync_one_content:
  assumes "sync_one E kd msg prep a ns obj h = (r, obj', h')" and ok: "api_ok S cl E"
    and prep: "\<And>x. ro_Meta (prep x) = ro_Meta x"
  shows "content_of (cluster_at S cl h') =
    (if r = None then want_rbac kd ns obj else id) (content_of (cluster_at S cl h))"
    and "om_Name (ro_Meta obj') = om_Name (ro_Meta obj)"
proof -
  let ?k = "\<lparr>nn_Namespace = ns, nn_Name = om_Name (ro_Meta obj)\<rparr>"
  have name: "k_CreateRbac E g kd x = Inr st \<Longrightarrow> om_Name (ro_Meta st) = om_Name (ro_Meta x)" for g x st
    using ok unfolding api_ok_def by (metis NamespacedName.ext_inject key_of_def)
  have "content_of (cluster_at S cl h') =
      (if r = None then want_rbac kd ns obj else id) (content_of (cluster_at S cl h)) \<and>
    om_Name (ro_Meta obj') = om_Name (ro_Meta obj)"
  proof (cases "k_GetRbac E h kd ?k" rule: res_cases)
    case missing
    with assms(1) prep show ?thesis
      by (auto simp: sync_one_unfold createOwned_Rbac_def IsNotFound_def Let_def content_of_def
          want_rbac_def key_of_def fun_eq_iff dest: name split: sum.splits)
  next
    case (failed e)
    with assms(1) show ?thesis by (auto simp: sync_one_unfold IsNotFound_def Let_def)
  next
    case (found x)
    with assms(1) api_ok_found(2) [OF ok found] show ?thesis
      by (auto simp: sync_one_unfold Let_def content_of_def want_rbac_def fun_eq_iff)
  qed
  then show "content_of (cluster_at S cl h') =
      (if r = None then want_rbac kd ns obj else id) (content_of (cluster_at S cl h))"
    and "om_Name (ro_Meta obj') = om_Name (ro_Meta obj)" by blast+
qed

lemma sync_ds_content:
  assumes "sync_ds E req a (fst (Daemonset (gen_of rs a))) h = (r, h')" and ok: "api_ok S cl E"
    and "key_of (a_Meta a) = req" and key: "\<And>ds. k_GetDS E h req = Inr ds \<Longrightarrow> key_of (ds_Meta ds) = req"
  shows "content_of (cluster_at S cl h') =
    (if r = None then want_ds S rs a else id) (content_of (cluster_at S cl h))"
proof -
  let ?ds = "fst (Daemonset (gen_of rs a))"
  have k: "key_of (ds_Meta ?ds) = req" using assms(3) by (simp add: gen_keys)
  show ?thesis
  proof (cases "k_GetDS E h req" rule: res_cases)
    case missing
    with assms(1,3) k api_ok_missing(3) [OF ok missing] show ?thesis
      by (cases r) (auto simp: sync_ds_def createOwned_DS_def IsNotFound_def Let_def content_of_def
          want_ds_def put_DS_def owned_refs gen_fresh api_ok_stamped [OF ok])
  next
    case (failed e)
    with assms(1) show ?thesis by (auto simp: sync_ds_def IsNotFound_def Let_def)
  next
    case (found ds)
    with assms(1,3) key [OF found] api_ok_found(3) [OF ok found] show ?thesis
      by (cases r) (auto simp: sync_ds_def Let_def content_of_def want_ds_def put_DS_def
          api_ok_stamped [OF ok] split: if_splits)
  qed
qed

lemma syncRbac_content:
  assumes "syncRbacResources E a ns rs h = (r, rs', h')" and ok: "api_ok S cl E"
  shows "carried_out (want_rbacs ns rs) r (content_of (cluster_at S cl h)) (content_of (cluster_at S cl h'))"
    and "om_Name (ro_Meta (r_serviceAccount rs')) = om_Name (ro_Meta (r_serviceAccount rs)) \<and>
      om_Name (ro_Meta (r_role rs')) = om_Name (ro_Meta (r_role rs)) \<and>
      om_Name (ro_Meta (r_roleBinding rs')) = om_Name (ro_Meta (r_roleBinding rs))"
proof -
  let ?c = "\<lambda>h. content_of (cluster_at S cl h)"
  obtain r1 sa h1 where s1: "sync_one E ServiceAccount ''error creating authenticator service account''
      id a ns (r_serviceAccount rs) h = (r1, sa, h1)" by (metis prod_cases3)
  obtain r2 ro h2 where s2: "sync_one E Role ''error creating authenticator role''
      id a ns (r_role rs) h1 = (r2, ro, h2)" by (metis prod_cases3)
  obtain r3 rb h3 where s3: "sync_one E RoleBinding ''error creating authenticator role binding''
      (subject_in ns) a ns (r_roleBinding rs) h2 = (r3, rb, h3)" by (metis prod_cases3)
  have m: "ro_Meta (id x) = ro_Meta x" "ro_Meta (subject_in ns x) = ro_Meta x" for x
    by (simp_all add: subject_in_def)
  note n = sync_one_content [OF s1 ok m(1)] sync_one_content [OF s2 ok m(1)] sync_one_content [OF s3 ok m(2)]
  note c1 = carried_out_single [OF n(1)] and c2 = carried_out_single [OF n(3)]
    and c3 = carried_out_single [OF n(5)]
  show "carried_out (want_rbacs ns rs) r (?c h) (?c h')"
    using assms(1) s1 s2 s3 carried_out_then [OF c1 carried_out_then [OF c2 c3]]
    by (cases r1; cases r2) (auto simp: syncRbac_unfold want_rbacs_def)
  show "om_Name (ro_Meta (r_serviceAccount rs')) = om_Name (ro_Meta (r_serviceAccount rs)) \<and>
      om_Name (ro_Meta (r_role rs')) = om_Name (ro_Meta (r_role rs)) \<and>
      om_Name (ro_Meta (r_roleBinding rs')) = om_Name (ro_Meta (r_roleBinding rs))"
    using assms(1) s1 s2 s3 n by (cases r1; cases r2) (auto simp: syncRbac_unfold)
qed

section \<open>Reconcile implements the abstract operation\<close>

lemma reconcile_content:
  assumes "Reconcile E req rs h = (r, rs', h')" and "k_GetAuth E h req = Inr a"
    and "api_ok S cl E" and "server_ok E req"
  shows "carried_out (converge S rs a) r (content_of (cluster_at S cl h)) (content_of (cluster_at S cl h')) \<and>
    om_Name (ro_Meta (r_serviceAccount rs')) = om_Name (ro_Meta (r_serviceAccount rs)) \<and>
    om_Name (ro_Meta (r_role rs')) = om_Name (ro_Meta (r_role rs)) \<and>
    om_Name (ro_Meta (r_roleBinding rs')) = om_Name (ro_Meta (r_roleBinding rs))"
proof -
  let ?c = "\<lambda>h. content_of (cluster_at S cl h)" and ?ns = "om_Namespace (a_Meta a)"
  have key: "key_of (a_Meta a) = req" using assms(2,4) by (auto simp: server_ok_def)
  then have ns: "nn_Namespace req = ?ns" by (auto simp: key_of_def)
  obtain r2 h2 where s2: "sync_cm E req a (gen_cm a) (KGetAuth req (Inr a) # h) = (r2, h2)" by fastforce
  obtain r3 rs1 h3 where s3: "syncRbacResources E a ?ns rs h2 = (r3, rs1, h3)" by (metis prod_cases3)
  obtain r4 h4 where s4: "sync_ds E req a (fst (Daemonset (gen_of rs a))) h3 = (r4, h4)" by fastforce
  have srv: "k_GetDS E h3 req = Inr d \<Longrightarrow> key_of (ds_Meta d) = req" for d
    using assms(4) by (simp add: server_ok_def)
  have c2: "carried_out [want_cm a] r2 (?c h) (?c h2)"
    using carried_out_single [OF sync_cm_content [OF s2 assms(3) key]] by simp
  note c3 = syncRbac_content [OF s3 assms(3)]
  note c4 = carried_out_single [OF sync_ds_content [OF s4 assms(3) key srv]]
  have "carried_out (converge S rs a) r (?c h) (?c h')"
    using assms(1,2) s2 s3 s4 ns carried_out_then [OF c2 carried_out_then [OF c3(1) c4]]
    by (cases r2; cases r3) (auto simp: Reconcile_unfold converge_def)
  moreover have "rs' \<in> {rs, rs1}"
    using assms(1,2) s2 s3 s4 ns by (auto simp: Reconcile_unfold split: option.splits)
  ultimately show ?thesis using c3(2) by auto
qed

text \<open>
  C8. On a server that stores what it accepts, \<open>Reconcile\<close> of an existing Authenticator
  refines the abstract operation \<open>converge\<close>: without error the store holds the generated
  configuration in the ConfigMap of the Authenticator's key, the three RBAC objects in its
  namespace and the generated spec, with the server's defaults, in its DaemonSet, created
  ones owned by it; with an error the store is where the operation got to when it stopped;
  and no other object of the cluster changes in either case. The names the reconciler uses
  for the RBAC objects stay what they were.
\<close>

theorem reconcile_refines:
  assumes "Reconcile E req rs h = (r, rs', h')" and "k_GetAuth E h req = Inr a"
    and "api_ok S cl E" and "server_ok E req"
  shows "carried_out (converge S rs a) r (content_of (cluster_at S cl h)) (content_of (cluster_at S cl h')) \<and>
    om_Name (ro_Meta (r_serviceAccount rs')) = om_Name (ro_Meta (r_serviceAccount rs)) \<and>
    om_Name (ro_Meta (r_role rs')) = om_Name (ro_Meta (r_role rs)) \<and>
    om_Name (ro_Meta (r_roleBinding rs')) = om_Name (ro_Meta (r_roleBinding rs))"
  by (rule reconcile_content [OF assms])

section \<open>Reconciling again\<close>

definition settled :: "api_server \<Rightarrow> resources \<Rightarrow> Authenticator \<Rightarrow> content \<Rightarrow> bool" where
  "settled S rs a v =
     (let k = key_of (a_Meta a); new = ds_Spec (fst (Daemonset (gen_of rs a)));
          name = (\<lambda>obj. \<lparr>nn_Namespace = om_Namespace (a_Meta a), nn_Name = om_Name (ro_Meta obj)\<rparr>)
      in (\<exists>refs. v_cm v k = Some (cm_Data (gen_cm a), refs)) \<and>
         v_rbac v ServiceAccount (name (r_serviceAccount rs)) \<and> v_rbac v Role (name (r_role rs)) \<and>
         v_rbac v RoleBinding (name (r_roleBinding rs)) \<and>
         (\<exists>spec refs. v_ds v k = Some (spec, refs) \<and> (spec = new \<or> spec = dflt S new)))"

lemma want_frame [simp]:
  "v_rbac (want_cm a v) = v_rbac v" "v_ds (want_cm a v) = v_ds v"
  "v_cm (want_rbac kd ns obj v) = v_cm v" "v_ds (want_rbac kd ns obj v) = v_ds v"
  "v_cm (want_ds S rs a v) = v_cm v" "v_rbac (want_ds S rs a v) = v_rbac v"
  by (simp_all add: want_cm_def want_rbac_def want_ds_def Let_def split: option.split prod.split)

lemma converge_settled: "settled S rs a (fold id (converge S rs a) v)"
proof -
  let ?k = "key_of (a_Meta a)" and ?new = "ds_Spec (fst (Daemonset (gen_of rs a)))"
  have "\<exists>refs. v_cm (want_cm a w) ?k = Some (cm_Data (gen_cm a), refs)" for w
    by (cases "v_cm w ?k") (auto simp: want_cm_def Let_def)
  moreover have "\<exists>spec refs. v_ds (want_ds S rs a w) ?k = Some (spec, refs) \<and>
      (spec = ?new \<or> spec = dflt S ?new)" for w
    by (cases "v_ds w ?k") (auto simp: want_ds_def Let_def)
  ultimately show ?thesis
    by (simp add: settled_def converge_def want_rbacs_def Let_def) (simp add: want_rbac_def)
qed

lemma settled_fixed: "settled S rs a v \<Longrightarrow> f \<in> set (converge S rs a) \<Longrightarrow> f v = v"
  by (auto simp: settled_def converge_def want_rbacs_def want_cm_def want_rbac_def want_ds_def Let_def
      fun_upd_idem fun_upd_triv)

lemma fold_fixed: "\<forall>f\<in>set fs. f v = v \<Longrightarrow> fold id fs v = v"
  by (induction fs) simp_all

lemma settled_carried_out:
  "settled S rs a v \<Longrightarrow> carried_out (converge S rs a) r v v' \<Longrightarrow> v' = v"
  using fold_fixed [of "take _ (converge S rs a)" v] settled_fixed
  by (metis carried_out_def in_set_takeD)

text \<open>On a settled store the lookups find what they look for or fail; no step but the last one
  writes.\<close>

lemma sync_cm_settled:
  assumes "v_cm (content_of (cluster_at S cl h)) req = Some (cm_Data new, refs)" and "api_ok S cl E"
    and "sync_cm E req a new h = (r, h')"
  shows "\<exists>x. h' = KGetCM req x # h"
proof (cases "k_GetCM E h req" rule: res_cases)
  case missing
  with assms(1) api_ok_missing(1) [OF assms(2)] show ?thesis by (auto simp: content_of_def)
next
  case (found cm)
  with assms(1,3) api_ok_found(1) [OF assms(2) found] show ?thesis
    by (auto simp: sync_cm_def Let_def content_of_def)
qed (use assms(3) in \<open>auto simp: sync_cm_def IsNotFound_def Let_def\<close>)

lemma sync_one_settled:
  assumes "v_rbac (content_of (cluster_at S cl h)) kd \<lparr>nn_Namespace = ns, nn_Name = om_Name (ro_Meta obj)\<rparr>"
    and "api_ok S cl E" and "sync_one E kd msg prep a ns obj h = (r, obj', h')"
  shows "obj' = obj \<and> (\<exists>k x. h' = KGetRbac kd k x # h)"
proof (cases "k_GetRbac E h kd \<lparr>nn_Namespace = ns, nn_Name = om_Name (ro_Meta obj)\<rparr>" rule: res_cases)
  case missing
  with assms(1) api_ok_missing(2) [OF assms(2)] show ?thesis by (auto simp: content_of_def)
qed (use assms(3) in \<open>auto simp: sync_one_unfold IsNotFound_def Let_def\<close>)

lemma sync_ds_settled:
  assumes "v_ds (content_of (cluster_at S cl h)) req = Some (spec, refs)" and "api_ok S cl E"
    and "sync_ds E req a new h = (r, h')"
  shows "(\<exists>x. h' = KGetDS req x # h) \<or> (spec \<noteq> ds_Spec new \<and> (\<exists>x ds y. h' = KUpdateDS ds y # KGetDS req x # h))"
proof (cases "k_GetDS E h req" rule: res_cases)
  case missing
  with assms(1) api_ok_missing(3) [OF assms(2)] show ?thesis by (auto simp: content_of_def)
next
  case (found ds)
  with assms(1,3) api_ok_found(3) [OF assms(2) found] show ?thesis
    by (auto simp: sync_ds_def Let_def content_of_def split: if_splits)
qed (use assms(3) in \<open>auto simp: sync_ds_def IsNotFound_def Let_def\<close>)

text \<open>A call other than a write, or, if \<open>upd\<close>, an update of a DaemonSet.\<close>

fun harmless :: "bool \<Rightarrow> kcall \<Rightarrow> bool" where
  "harmless upd (KUpdateDS ds x) = upd"
| "harmless upd c = (\<not> is_write c)"

lemma syncRbac_settled:
  assumes "settled S rs a (content_of (cluster_at S cl h))" and "api_ok S cl E"
    and "syncRbacResources E a (om_Namespace (a_Meta a)) rs h = (r, rs', h')"
  shows "rs' = rs \<and> cluster_at S cl h' = cluster_at S cl h \<and> extends (harmless upd) h' h"
proof -
  let ?ns = "om_Namespace (a_Meta a)"
  obtain r1 sa h1 where s1: "sync_one E ServiceAccount ''error creating authenticator service account''
      id a ?ns (r_serviceAccount rs) h = (r1, sa, h1)" by (metis prod_cases3)
  obtain r2 ro h2 where s2: "sync_one E Role ''error creating authenticator role''
      id a ?ns (r_role rs) h1 = (r2, ro, h2)" by (metis prod_cases3)
  obtain r3 rb h3 where s3: "sync_one E RoleBinding ''error creating authenticator role binding''
      (subject_in ?ns) a ?ns (r_roleBinding rs) h2 = (r3, rb, h3)" by (metis prod_cases3)
  have v: "v_rbac (content_of (cluster_at S cl h)) ServiceAccount \<lparr>nn_Namespace = ?ns, nn_Name = om_Name (ro_Meta (r_serviceAccount rs))\<rparr>"
    "v_rbac (content_of (cluster_at S cl h)) Role \<lparr>nn_Namespace = ?ns, nn_Name = om_Name (ro_Meta (r_role rs))\<rparr>"
    "v_rbac (content_of (cluster_at S cl h)) RoleBinding \<lparr>nn_Namespace = ?ns, nn_Name = om_Name (ro_Meta (r_roleBinding rs))\<rparr>"
    using assms(1) by (simp_all add: settled_def Let_def)
  obtain k1 x1 where h1: "sa = r_serviceAccount rs" "h1 = KGetRbac ServiceAccount k1 x1 # h"
    using sync_one_settled [OF v(1) assms(2) s1] by blast
  then have v2: "v_rbac (content_of (cluster_at S cl h1)) Role \<lparr>nn_Namespace = ?ns, nn_Name = om_Name (ro_Meta (r_role rs))\<rparr>"
    using v(2) by simp
  then obtain k2 x2 where h2: "ro = r_role rs" "h2 = KGetRbac Role k2 x2 # h1"
    using sync_one_settled [OF v2 assms(2) s2] by blast
  then have v3: "v_rbac (content_of (cluster_at S cl h2)) RoleBinding \<lparr>nn_Namespace = ?ns, nn_Name = om_Name (ro_Meta (r_roleBinding rs))\<rparr>"
    using v(3) h1 by simp
  then obtain k3 x3 where h3: "rb = r_roleBinding rs" "h3 = KGetRbac RoleBinding k3 x3 # h2"
    using sync_one_settled [OF v3 assms(2) s3] by blast
  show ?thesis
    using assms(3) s1 s2 s3 h1 h2 h3 by (cases r1; cases r2) (auto simp: syncRbac_unfold)
qed

text \<open>What the reconciler does on a settled store.\<close>

lemma settled_reconcile:
  assumes run: "Reconcile E req rs h = (r, rs', h')" and a: "k_GetAuth E h req = Inr a"
    and ok: "api_ok S cl E" and key: "key_of (a_Meta a) = req"
    and v: "settled S rs a (content_of (cluster_at S cl h))"
    and upd: "dflt S (ds_Spec (fst (Daemonset (gen_of rs a)))) \<noteq> ds_Spec (fst (Daemonset (gen_of rs a))) \<longrightarrow> upd"
  shows "rs' = rs \<and> extends (harmless upd) h' h"
proof -
  let ?new = "fst (Daemonset (gen_of rs a))" and ?ns = "om_Namespace (a_Meta a)"
  have ns: "nn_Namespace req = ?ns" using key by (auto simp: key_of_def)
  obtain refs where vcm: "v_cm (content_of (cluster_at S cl (KGetAuth req (Inr a) # h))) req =
      Some (cm_Data (gen_cm a), refs)" using v key by (auto simp: settled_def Let_def)
  obtain spec refs' where vds: "v_ds (content_of (cluster_at S cl h)) req = Some (spec, refs')"
    and spec: "spec = ds_Spec ?new \<or> spec = dflt S (ds_Spec ?new)" using v key by (auto simp: settled_def Let_def)
  obtain r2 h2 where s2: "sync_cm E req a (gen_cm a) (KGetAuth req (Inr a) # h) = (r2, h2)" by fastforce
  obtain r3 rs1 h3 where s3: "syncRbacResources E a ?ns rs h2 = (r3, rs1, h3)" by (metis prod_cases3)
  obtain r4 h4 where s4: "sync_ds E req a ?new h3 = (r4, h4)" by fastforce
  obtain x where h2: "h2 = KGetCM req x # KGetAuth req (Inr a) # h"
    using sync_cm_settled [OF vcm ok s2] by blast
  then have c2: "cluster_at S cl h2 = cluster_at S cl h" by simp
  note h3 = syncRbac_settled [of S rs a cl h2, unfolded c2, OF v ok s3]
  have e2: "extends (harmless upd) h2 h" by (simp add: h2)
  have e3: "extends (harmless upd) h3 h" using extends_trans [OF _ e2] h3 by blast
  have "v_ds (content_of (cluster_at S cl h3)) req = Some (spec, refs')" using vds h3 c2 by simp
  from sync_ds_settled [OF this ok s4] spec upd e3 have e4: "extends (harmless upd) h4 h" by auto
  show ?thesis
    using run a s2 s3 s4 ns e2 e3 e4 h3 by (cases r2; cases r3) (auto simp: Reconcile_unfold)
qed

text \<open>
  C15. Reconciling is idempotent. Once \<open>Reconcile\<close> has returned without error, reconciling the
  same Authenticator again, even if some call fails, changes nothing of what the store
  holds, and the reconciler's templates stay as they are. The only write of the second run
  can be an update of the DaemonSet, and there is none if the server adds no defaults to
  the generated spec.
\<close>

theorem reconcile_idempotent:
  assumes "Reconcile E req rs h = (None, rs1, h1)" and "k_GetAuth E h req = Inr a"
    and "Reconcile E req rs1 h1 = (r, rs2, h2)" and "k_GetAuth E h1 req = Inr a"
    and "api_ok S cl E" and "server_ok E req"
  shows "content_of (cluster_at S cl h2) = content_of (cluster_at S cl h1) \<and> rs2 = rs1 \<and>
    (\<exists>cs. h2 = cs @ h1 \<and> (\<forall>c\<in>set cs. is_write c \<longrightarrow> (\<exists>ds x. c = KUpdateDS ds x)) \<and>
      (dflt S (ds_Spec (fst (Daemonset (gen_of rs a)))) = ds_Spec (fst (Daemonset (gen_of rs a))) \<longrightarrow>
        \<not> list_ex is_write cs))"
proof -
  let ?new = "ds_Spec (fst (Daemonset (gen_of rs a)))" and ?v = "content_of (cluster_at S cl h1)"
  have key: "key_of (a_Meta a) = req" using assms(2,6) by (auto simp: server_ok_def)
  note first = reconcile_content [OF assms(1,2,5,6)]
  then have gen: "gen_of rs1 a = gen_of rs a" by (simp add: gen_of_def)
  have same: "settled S rs1 a = settled S rs a" using first gen by (simp add: settled_def fun_eq_iff)
  have "settled S rs a ?v" using first converge_settled [of S rs a] by (auto simp: carried_out_def)
  then have v: "settled S rs1 a ?v" using same by simp
  have "content_of (cluster_at S cl h2) = ?v"
    using settled_carried_out [OF v] reconcile_content [OF assms(3,4,5,6)] by blast
  moreover have sr: "rs2 = rs1 \<and> extends (harmless (dflt S ?new \<noteq> ?new)) h2 h1"
    by (rule settled_reconcile [OF assms(3,4,5) key v]) (simp add: gen)
  then obtain cs where cs: "h2 = cs @ h1" "list_all (harmless (dflt S ?new \<noteq> ?new)) cs"
    by (auto simp: extends_def)
  have "harmless u c \<Longrightarrow> is_write c \<Longrightarrow> u \<and> (\<exists>ds x. c = KUpdateDS ds x)" for u c by (cases c) auto
  with cs(2) have "\<forall>c\<in>set cs. is_write c \<longrightarrow> dflt S ?new \<noteq> ?new \<and> (\<exists>ds x. c = KUpdateDS ds x)"
    by (auto simp: list_all_iff)
  ultimately show ?thesis using cs(1) sr by (auto simp: list_ex_iff)
qed

section \<open>A server with a store\<close>

text \<open>A server that accepts every write and fills in the default of the file mode, on a cluster
  that holds the Authenticator \<open>auth1\<close> only.\<close>

definition answer :: "'a option \<Rightarrow> 'a res" where
  "answer x = (case x of None \<Rightarrow> Inl NotFound | Some y \<Rightarrow> Inr y)"

definition S1 :: api_server where
  "S1 = \<lparr>stamped = (\<lambda>h m. m\<lparr>ResourceVersion := ''1''\<rparr>),
     dflt = (\<lambda>spec. ds_Spec (defaulted \<lparr>ds_Meta = new_meta [] [] Mapping.empty, ds_Spec = spec\<rparr>))\<rparr>"

definition cl1 :: cluster where
  "cl1 = \<lparr>c_cm = (\<lambda>k. None), c_rbac = (\<lambda>kd k. None), c_ds = (\<lambda>k. None)\<rparr>"

definition store_server :: kenv where
  "store_server =
     \<lparr>k_GetAuth = (\<lambda>h k. if k = key_of (a_Meta auth1) then Inr auth1 else Inl NotFound),
      k_GetCM = (\<lambda>h k. answer (c_cm (cluster_at S1 cl1 h) k)),
      k_CreateCM = (\<lambda>h cm. None), k_UpdateCM = (\<lambda>h cm. None),
      k_GetRbac = (\<lambda>h kd k. answer (c_rbac (cluster_at S1 cl1 h) kd k)), k_CreateRbac = (\<lambda>h kd obj. Inr obj),
      k_GetDS = (\<lambda>h k. answer (c_ds (cluster_at S1 cl1 h) k)),
      k_CreateDS = (\<lambda>h ds. None), k_UpdateDS = (\<lambda>h ds. None)\<rparr>"

lemma answer_iff [simp]:
  "answer x = Inr y \<longleftrightarrow> x = Some y" "answer x = Inl e \<longleftrightarrow> x = None \<and> e = NotFound"
  by (auto simp: answer_def split: option.splits)

lemma store_api_ok: "api_ok S1 cl1 store_server"
  by (simp add: api_ok_def store_server_def S1_def key_of_def)

lemma store_keys: "c_ds (cluster_at S1 cl1 h) k = Some ds \<Longrightarrow> key_of (ds_Meta ds) = k"
proof (induction h)
  case (Cons c h)
  then show ?case
    by (cases "(S1, h, c, cluster_at S1 cl1 h)" rule: effect.cases)
      (auto simp: put_CM_def put_DS_def S1_def key_of_def split: if_splits)
qed (simp add: cl1_def)

lemma store_server_ok: "server_ok store_server req1"
  using store_keys by (auto simp: server_ok_def store_server_def req1_key)

lemma store_auth: "k_GetAuth store_server h req1 = Inr auth1"
  by (simp add: store_server_def req1_key)

lemmas store_simps = store_server_def answer_def IsNotFound_def Let_def

lemma store_cm: "fst (sync_cm store_server req1 auth1 cm g) = None"
  by (cases "c_cm (cluster_at S1 cl1 g) req1") (simp_all add: sync_cm_def createOwned_CM_def store_simps)

lemma store_ds: "fst (sync_ds store_server req1 auth1 ds g) = None"
  by (cases "c_ds (cluster_at S1 cl1 g) req1") (simp_all add: sync_ds_def createOwned_DS_def store_simps)

lemma store_one: "fst (sync_one store_server kd msg prep auth1 ns obj g) = None"
  by (cases "c_rbac (cluster_at S1 cl1 g) kd \<lparr>nn_Namespace = ns, nn_Name = om_Name (ro_Meta obj)\<rparr>")
    (simp_all add: sync_one_unfold createOwned_Rbac_def store_simps)

lemma fst_None: "fst x = None \<Longrightarrow> x = (r, y) \<Longrightarrow> r = None"
  by simp

lemma store_rbac: "fst (syncRbacResources store_server auth1 ns rs g) = None"
  by (auto simp: syncRbac_unfold split: prod.splits option.splits dest: fst_None [OF store_one])

lemma store_run: "\<exists>rs' h'. Reconcile store_server req1 rs h = (None, rs', h')"
  by (auto simp: Reconcile_unfold store_auth split: prod.splits option.splits
      dest: fst_None [OF store_rbac] fst_None [OF store_cm] fst_None [OF store_ds])

text \<open>Two reconciliations in a row.\<close>

definition rs_first :: resources where
  "rs_first = fst (snd (Reconcile store_server req1 rs0 []))"

definition h_first :: khist where
  "h_first = snd (snd (Reconcile store_server req1 rs0 []))"

definition h_second :: khist where
  "h_second = snd (snd (Reconcile store_server req1 rs_first h_first))"

lemma store_first: "Reconcile store_server req1 rs0 [] = (None, rs_first, h_first)"
  using store_run [of rs0 "[]"] by (auto simp: rs_first_def h_first_def)

lemma store_second: "Reconcile store_server req1 rs_first h_first = (None, fst (snd (Reconcile store_server req1 rs_first h_first)), h_second)"
  using store_run [of rs_first h_first] by (auto simp: h_second_def)

theorem reconcile_refines_witness:
  "content_of (cluster_at S1 cl1 h_first) = fold id (converge S1 rs0 auth1) (content_of cl1) \<and>
   v_cm (content_of (cluster_at S1 cl1 h_first)) req1 = Some (cm_Data (gen_cm auth1), [owner_ref auth1])"
proof -
  have c: "content_of (cluster_at S1 cl1 h_first) = fold id (converge S1 rs0 auth1) (content_of cl1)"
    using reconcile_refines [OF store_first store_auth store_api_ok store_server_ok]
    by (auto simp: carried_out_def)
  then have "v_cm (content_of (cluster_at S1 cl1 h_first)) req1 = v_cm (want_cm auth1 (content_of cl1)) req1"
    by (simp add: converge_def want_rbacs_def)
  also have "\<dots> = Some (cm_Data (gen_cm auth1), [owner_ref auth1])"
    by (simp add: want_cm_def content_of_def cl1_def req1_key)
  finally show ?thesis using c by simp
qed

theorem reconcile_idempotent_witness:
  "content_of (cluster_at S1 cl1 h_second) = content_of (cluster_at S1 cl1 h_first) \<and>
   (\<exists>cs. h_second = cs @ h_first) \<and> c_cm (cluster_at S1 cl1 h_first) req1 \<noteq> None"
proof -
  have T: "content_of (cluster_at S1 cl1 h_second) = content_of (cluster_at S1 cl1 h_first) \<and> (\<exists>cs. h_second = cs @ h_first)"
    using reconcile_idempotent [OF store_first store_auth store_second store_auth store_api_ok store_server_ok]
    by blast
  have "settled S1 rs0 auth1 (content_of (cluster_at S1 cl1 h_first))"
    using reconcile_content [OF store_first store_auth store_api_ok store_server_ok] converge_settled [of S1 rs0 auth1]
    by (auto simp: carried_out_def)
  then have "c_cm (cluster_at S1 cl1 h_first) req1 \<noteq> None"
    by (auto simp: settled_def Let_def content_of_def req1_key)
  with T show ?thesis by simp
qed

end
