(* ===== verification/TestUtils.thy ===== *)
theory TestUtils
  imports ConfigGen
begin

text \<open>
  \<open>internal/testutils/authenticator_utils.go\<close>: the fixtures and matchers of the unit tests of
  the generator and the reconciler. With them the expectations of those tests become
  statements about every \<open>Authenticator\<close>, not only the fixture.
\<close>

section \<open>Fixtures\<close>

text \<open>The type meta data of the fixture is not part of the model's \<open>Authenticator\<close>.\<close>

definition zero_Radius :: Radius where
  "zero_Radius = \<lparr>AuthServer = [], radius_AuthPort = 0, AuthSecret = []\<rparr>"

definition NewA11r :: Authenticator where
  "NewA11r =
     \<lparr>a_Meta = new_meta ''authenticator'' ''default'' Mapping.empty,
      a_Spec = \<lparr>Enabled = True, spec_Interfaces = [''eth0''],
        Authentication = \<lparr>auth_Local = None, auth_Radius = Some zero_Radius\<rparr>, Configuration = None,
        Image = [], NodeSelector = None, spec_TrafficControl = None\<rparr>,
      a_Status = \<lparr>status_Interfaces = []\<rparr>\<rparr>"

definition set_auth :: "Auth \<Rightarrow> Authenticator \<Rightarrow> Authenticator" where
  "set_auth au a = a\<lparr>a_Spec := (a_Spec a)\<lparr>Authentication := au\<rparr>\<rparr>"

definition SetupUserFileAuth :: "Authenticator \<Rightarrow> string \<Rightarrow> string \<Rightarrow> Authenticator" where
  "SetupUserFileAuth a secretName key = set_auth
     \<lparr>auth_Local = Some \<lparr>UserFileSecret = Some \<lparr>skr_Name = secretName, skr_Key = key\<rparr>, CaCertSecret = None,
        ServerCertSecret = None, PrivateKeySecret = None, PrivateKeyPassphrase = [],
        RadiusClientSecret = None, local_AuthPort = 0\<rparr>,
      auth_Radius = None\<rparr> a"

definition SetupRadiusAuth :: "Authenticator \<Rightarrow> Authenticator" where
  "SetupRadiusAuth a = set_auth \<lparr>auth_Local = None, auth_Radius = Some zero_Radius\<rparr> a"

section \<open>Matchers\<close>

definition ContainLocaluserVolumeMount :: "VolumeMount list \<Rightarrow> bool" where
  "ContainLocaluserVolumeMount mounts =
     list_ex (\<lambda>m. vm_Name m = ''local-users'' \<and> MountPath m = ''/etc/local-users'') mounts"

definition ContainLocaluserProjection :: "string \<Rightarrow> VolumeProjection list \<Rightarrow> bool" where
  "ContainLocaluserProjection secretName ps =
     list_ex (\<lambda>p. case p of ProjSecret name items \<Rightarrow> name = secretName | _ \<Rightarrow> False) ps"

section \<open>What the tests expect\<close>

text \<open>The projected sources of the first volume.\<close>

definition first_sources :: "DaemonSet \<Rightarrow> VolumeProjection list" where
  "first_sources ds = (case Volumes (template_Spec (ds_Spec ds)) of
     v # _ \<Rightarrow> (case Source v of Projected srcs mode \<Rightarrow> srcs | _ \<Rightarrow> []) | [] \<Rightarrow> [])"

lemma first_sources_generated: "first_sources (fst (Daemonset g)) = config_sources g"
  by (simp add: first_sources_def Daemonset_sel)

text \<open>Whatever the Authenticator was before, with a user file from a secret the first volume
  projects exactly this secret, and with RADIUS authentication none.\<close>

lemma user_file_projected:
  "ContainLocaluserProjection n (first_sources (fst (Daemonset \<lparr>a11r = SetupUserFileAuth a s k, serviceAccount = sa\<rparr>)))
     \<longleftrightarrow> n = s"
  by (auto simp: first_sources_generated ContainLocaluserProjection_def config_sources_def set_auth_def
      SetupUserFileAuth_def appendCertVolume_def appendRadiusClientVolume_def local_projection_def
      secret_projection_def)

lemma radius_not_projected:
  "\<not> ContainLocaluserProjection n (first_sources (fst (Daemonset \<lparr>a11r = SetupRadiusAuth a, serviceAccount = sa\<rparr>)))"
  by (simp add: first_sources_generated ContainLocaluserProjection_def config_sources_def set_auth_def
      SetupRadiusAuth_def appendCertVolume_def appendRadiusClientVolume_def local_projection_def)

text \<open>The fixtures override each other: the last one decides.\<close>

lemma setup_overrides:
  "SetupRadiusAuth (SetupUserFileAuth a s k) = SetupRadiusAuth a"
  "SetupUserFileAuth (SetupRadiusAuth a) s k = SetupUserFileAuth a s k"
  "SetupRadiusAuth NewA11r = NewA11r"
  by (simp_all add: SetupRadiusAuth_def SetupUserFileAuth_def set_auth_def NewA11r_def)

text \<open>No container that the generator makes has the mount the other matcher looks for, whatever
  the spec: an expectation that it is absent cannot fail.\<close>

lemma no_local_users_mount:
  "c \<in> set (Containers (template_Spec (ds_Spec (fst (Daemonset g))))) \<Longrightarrow>
   \<not> ContainLocaluserVolumeMount (VolumeMounts c)"
  by (auto simp: Daemonset_sel mk_container_def ContainLocaluserVolumeMount_def configVolumeName_def
      socketsVolumeName_def authenticatorVolumeName_def)

end
