(* ===== verification/DeepCopy.thy ===== *)
theory DeepCopy
  imports ConfigGen "HOL-Library.DAList"
begin

text \<open>
  \<open>api/v1/zz_generated.deepcopy.go\<close>: the deep copies of the API types. Aliasing is the
  point here, so the objects live in an explicit store. A heap has one store per type of
  cell and a limit \<open>lim\<close> above all addresses in use; a struct is a record whose pointers,
  slices and maps are optional addresses, \<open>None\<close> for nil. A slice is the address of its
  own array and a map is a list of entries, in the order an iteration takes, without
  duplicate keys. What an object means is the value of theory \<open>Api\<close> that is read off
  its cells.
\<close>

section \<open>The heap\<close>

type_synonym ptr = "nat option"

record gLocal =
  g_UserFileSecret :: ptr
  g_CaCertSecret :: ptr
  g_ServerCertSecret :: ptr
  g_PrivateKeySecret :: ptr
  g_PrivateKeyPassphrase :: string
  g_RadiusClientSecret :: ptr
  g_AuthPort :: int

record gAuth =
  g_Local :: ptr
  g_Radius :: ptr

record gPorts =
  g_Tcp :: ptr
  g_Udp :: ptr

record gTrafficControl =
  g_UnprotectedPorts :: ptr

record gSpec =
  g_Enabled :: bool
  g_Interfaces :: ptr
  g_Authentication :: gAuth
  g_Configuration :: ptr
  g_Image :: string
  g_NodeSelector :: ptr
  g_TrafficControl :: ptr

record gInterface =
  gi_Name :: string
  gi_State :: IfState
  g_AuthenticatedClients :: ptr

record gStatus =
  g_StatusInterfaces :: ptr

text \<open>Of the object metadata, the fields of \<^typ>\<open>ObjectMeta\<close>.\<close>

record gMeta =
  gm_Name :: string
  gm_Namespace :: string
  gm_UID :: string
  gm_ResourceVersion :: string
  g_Labels :: ptr
  g_OwnerReferences :: ptr

record gAuthenticator =
  g_Meta :: gMeta
  g_Spec :: gSpec
  g_Status :: gStatus

record gAuthenticatorList =
  gl_ResourceVersion :: string
  g_Items :: ptr

record gheap =
  lim :: nat
  st_strs :: "nat \<Rightarrow> string list"
  st_ints :: "nat \<Rightarrow> int list"
  st_map :: "nat \<Rightarrow> (string, string) alist"
  st_owners :: "nat \<Rightarrow> OwnerReference list"
  st_ptrs :: "nat \<Rightarrow> ptr list"
  st_items :: "nat \<Rightarrow> gAuthenticator list"
  st_secret :: "nat \<Rightarrow> SecretKeyRef"
  st_local :: "nat \<Rightarrow> gLocal"
  st_radius :: "nat \<Rightarrow> Radius"
  st_auth :: "nat \<Rightarrow> gAuth"
  st_config :: "nat \<Rightarrow> Config"
  st_ports :: "nat \<Rightarrow> gPorts"
  st_tc :: "nat \<Rightarrow> gTrafficControl"
  st_interface :: "nat \<Rightarrow> gInterface"
  st_spec :: "nat \<Rightarrow> gSpec"
  st_status :: "nat \<Rightarrow> gStatus"
  st_a11r :: "nat \<Rightarrow> gAuthenticator"
  st_list :: "nat \<Rightarrow> gAuthenticatorList"

text \<open>Two heaps agree at an address; a heap extends another without touching what is there.\<close>

definition same_at :: "nat \<Rightarrow> gheap \<Rightarrow> gheap \<Rightarrow> bool" where
  "same_at a h h' = (st_strs h a = st_strs h' a \<and> st_ints h a = st_ints h' a \<and>
     st_map h a = st_map h' a \<and> st_owners h a = st_owners h' a \<and> st_ptrs h a = st_ptrs h' a \<and>
     st_items h a = st_items h' a \<and> st_secret h a = st_secret h' a \<and>
     st_local h a = st_local h' a \<and> st_radius h a = st_radius h' a \<and>
     st_auth h a = st_auth h' a \<and> st_config h a = st_config h' a \<and>
     st_ports h a = st_ports h' a \<and> st_tc h a = st_tc h' a \<and>
     st_interface h a = st_interface h' a \<and> st_spec h a = st_spec h' a \<and>
     st_status h a = st_status h' a \<and> st_a11r h a = st_a11r h' a \<and>
     st_list h a = st_list h' a)"

definition extends_heap :: "gheap \<Rightarrow> gheap \<Rightarrow> bool" where
  "extends_heap h h' = (lim h \<le> lim h' \<and> (\<forall>a<lim h. same_at a h h'))"

lemma same_at_refl [simp]: "same_at a h h"
  by (simp add: same_at_def)

lemma same_at_trans: "same_at a h h' \<Longrightarrow> same_at a h' h'' \<Longrightarrow> same_at a h h''"
  by (simp add: same_at_def)

lemma same_at_lim [simp]: "same_at a h (h'\<lparr>lim := n\<rparr>) = same_at a h h'"
  by (simp add: same_at_def)

lemma extends_heap_refl [simp]: "extends_heap h h"
  by (simp add: extends_heap_def)

lemma extends_heap_trans: "extends_heap h h' \<Longrightarrow> extends_heap h' h'' \<Longrightarrow> extends_heap h h''"
  unfolding extends_heap_def by (meson less_le_trans order_trans same_at_trans)

section \<open>The contract of a deep copy\<close>

text \<open>
  A type of values in the heap comes with its meaning \<open>val\<close>, the addresses \<open>addrs\<close> it is
  read from, and an operation \<open>copy\<close>. The meaning depends on these addresses only. A deep
  copy of an object without dangling pointers leaves every cell in use alone, means the
  same, and is made of new cells only, each of which it owns once.
\<close>

locale copier =
  fixes val :: "gheap \<Rightarrow> 'g \<Rightarrow> 'v"
    and addrs :: "gheap \<Rightarrow> 'g \<Rightarrow> nat list"
    and copy :: "'g \<Rightarrow> gheap \<Rightarrow> 'g \<times> gheap"
  assumes val_local: "(\<And>a. a \<in> set (addrs h x) \<Longrightarrow> same_at a h h') \<Longrightarrow> val h' x = val h x"
    and addrs_local: "(\<And>a. a \<in> set (addrs h x) \<Longrightarrow> same_at a h h') \<Longrightarrow> addrs h' x = addrs h x"
    and copy_ok: "copy x h = (y, h') \<Longrightarrow> set (addrs h x) \<subseteq> {..<lim h} \<Longrightarrow>
      extends_heap h h' \<and> val h' y = val h x \<and>
      set (addrs h' y) \<subseteq> {lim h..<lim h'} \<and> distinct (addrs h' y)"
begin

lemma kept:
  assumes "extends_heap h h'" and "set (addrs h x) \<subseteq> {..<lim h}"
  shows "val h' x = val h x" and "addrs h' x = addrs h x"
  using assms by (auto simp: extends_heap_def intro!: val_local addrs_local)

text \<open>So the copy stands alone: its cells are distinct and none of them was in use, and
  whatever happens to them later, the original means what it meant.\<close>

lemma isolated:
  assumes "copy x h = (y, h')" and "set (addrs h x) \<subseteq> {..<lim h}"
  shows "val h' y = val h x" and "distinct (addrs h' y)"
    and "set (addrs h' y) \<subseteq> {lim h..<lim h'}"
    and "(\<And>a. a \<notin> set (addrs h' y) \<Longrightarrow> same_at a h' h2) \<Longrightarrow> val h2 x = val h x"
proof -
  note k = copy_ok [OF assms]
  then show "val h' y = val h x" "distinct (addrs h' y)"
    "set (addrs h' y) \<subseteq> {lim h..<lim h'}" by simp_all
  assume other: "\<And>a. a \<notin> set (addrs h' y) \<Longrightarrow> same_at a h' h2"
  have "same_at a h h2" if "a \<in> set (addrs h x)" for a
  proof (rule same_at_trans)
    from that assms(2) k show "same_at a h h'" by (auto simp: extends_heap_def)
    from that assms(2) k show "same_at a h' h2" by (force intro: other)
  qed
  then show "val h2 x = val h x" by (rule val_local)
qed

end

lemma copier_plain: "copier (\<lambda>h x. x) (\<lambda>h x. []) (\<lambda>x h. (x, h))"
  by unfold_locales auto

lemma copier_pair:
  assumes "copier v1 a1 c1" and "copier v2 a2 c2"
  shows "copier (\<lambda>h (x, y). (v1 h x, v2 h y)) (\<lambda>h (x, y). a1 h x @ a2 h y)
    (\<lambda>(x, y) h. let (x', h1) = c1 x h; (y', h2) = c2 y h1 in ((x', y'), h2))"
proof (unfold_locales, goal_cases)
  case (1 h p h')
  then show ?case
    by (cases p) (auto intro: copier.val_local [OF assms(1)] copier.val_local [OF assms(2)])
next
  case (2 h p h')
  then show ?case
    by (cases p) (auto intro!: arg_cong2 [of _ _ _ _ "(@)"]
        copier.addrs_local [OF assms(1)] copier.addrs_local [OF assms(2)])
next
  case (3 p h q h')
  obtain x y where p: "p = (x, y)" by (cases p)
  obtain x' h1 where c1: "c1 x h = (x', h1)" by (cases "c1 x h")
  obtain y' where c2: "c2 y h1 = (y', h')" and q: "q = (x', y')"
    using 3(1) by (auto simp: p c1 split: prod.splits)
  from 3(2) have ax: "set (a1 h x) \<subseteq> {..<lim h}" and ay: "set (a2 h y) \<subseteq> {..<lim h}"
    by (auto simp: p)
  note k1 = copier.copy_ok [OF assms(1) c1 ax]
  then have e1: "extends_heap h h1" by simp
  have ay': "a2 h1 y = a2 h y" "v2 h1 y = v2 h y"
    using copier.kept [OF assms(2) e1 ay] by simp_all
  have "set (a2 h1 y) \<subseteq> {..<lim h1}"
    using ay e1 by (auto simp: ay' extends_heap_def)
  note k2 = copier.copy_ok [OF assms(2) c2 this]
  then have e2: "extends_heap h1 h'" by simp
  have "set (a1 h1 x') \<subseteq> {..<lim h1}" using k1 by auto
  note k = copier.kept [OF assms(1) e2 this]
  have l: "lim h \<le> lim h1" "lim h1 \<le> lim h'" using e1 e2 by (simp_all add: extends_heap_def)
  show ?case
    using extends_heap_trans [OF e1 e2] k1 k2 k ay' l by (auto simp: p q) (fastforce+)
qed

fun copy_list :: "('g \<Rightarrow> gheap \<Rightarrow> 'g \<times> gheap) \<Rightarrow> 'g list \<Rightarrow> gheap \<Rightarrow> 'g list \<times> gheap" where
  "copy_list c [] h = ([], h)"
| "copy_list c (x # xs) h =
     (let (x', h1) = c x h; (xs', h2) = copy_list c xs h1 in (x' # xs', h2))"

lemma copier_list:
  assumes "copier v a c"
  shows "copier (\<lambda>h xs. map (v h) xs) (\<lambda>h xs. concat (map (a h) xs)) (copy_list c)"
proof (unfold_locales, goal_cases)
  case (1 h xs h')
  then show ?case by (induction xs) (auto intro: copier.val_local [OF assms])
next
  case (2 h xs h')
  then show ?case
    by (induction xs) (auto intro!: arg_cong2 [of _ _ _ _ "(@)"] copier.addrs_local [OF assms])
next
  case (3 xs h ys h')
  then show ?case
  proof (induction xs arbitrary: h ys)
    case (Cons x xs)
    obtain x' h1 where c: "c x h = (x', h1)" by (cases "c x h")
    obtain xs' where cs: "copy_list c xs h1 = (xs', h')" and ys: "ys = x' # xs'"
      using Cons.prems(1) by (auto simp: c split: prod.splits)
    have ax: "set (a h x) \<subseteq> {..<lim h}" and axs: "\<And>y. y \<in> set xs \<Longrightarrow> set (a h y) \<subseteq> {..<lim h}"
      using Cons.prems(2) by auto
    note k1 = copier.copy_ok [OF assms c ax]
    then have e1: "extends_heap h h1" by simp
    have same: "a h1 y = a h y" "v h1 y = v h y" if "y \<in> set xs" for y
      using copier.kept [OF assms e1 axs [OF that]] by simp_all
    have "set (concat (map (a h1) xs)) \<subseteq> {..<lim h1}"
      using axs e1 by (fastforce simp: same extends_heap_def)
    note k2 = Cons.IH [OF cs this]
    then have e2: "extends_heap h1 h'" by simp
    have "set (a h1 x') \<subseteq> {..<lim h1}" using k1 by auto
    note k = copier.kept [OF assms e2 this]
    have l: "lim h \<le> lim h1" "lim h1 \<le> lim h'" using e1 e2 by (simp_all add: extends_heap_def)
    have "map (v h1) xs = map (v h) xs" by (simp add: same)
    with extends_heap_trans [OF e1 e2] k1 k2 k l show ?case by (auto simp: ys) (fastforce+)
  qed simp
qed

text \<open>One more cell: the pointer to a value that has a deep copy. Nobody reads the new cell
  before it has its content, so it is allocated with it. The last lemma moves a contract
  from the tuple of a struct's pointers to the struct.\<close>

locale cells =
  fixes get :: "gheap \<Rightarrow> nat \<Rightarrow> 'c" and put :: "nat \<Rightarrow> 'c \<Rightarrow> gheap \<Rightarrow> gheap"
  assumes get_put: "get (put a x h) a = x"
    and lim_put: "lim (put a x h) = lim h"
    and put_same: "b \<noteq> a \<Longrightarrow> same_at b h (put a x h)"
    and get_same: "same_at a h h' \<Longrightarrow> get h' a = get h a"

definition val_ptr :: "(gheap \<Rightarrow> nat \<Rightarrow> 'c) \<Rightarrow> (gheap \<Rightarrow> 'c \<Rightarrow> 'v) \<Rightarrow> gheap \<Rightarrow> ptr \<Rightarrow> 'v option" where
  "val_ptr get v h p = map_option (\<lambda>a. v h (get h a)) p"

definition addrs_ptr :: "(gheap \<Rightarrow> nat \<Rightarrow> 'c) \<Rightarrow> (gheap \<Rightarrow> 'c \<Rightarrow> nat list) \<Rightarrow> gheap \<Rightarrow> ptr \<Rightarrow> nat list" where
  "addrs_ptr get ad h p = (case p of None \<Rightarrow> [] | Some a \<Rightarrow> a # ad h (get h a))"

definition new :: "(nat \<Rightarrow> 'c \<Rightarrow> gheap \<Rightarrow> gheap) \<Rightarrow> 'c \<Rightarrow> gheap \<Rightarrow> ptr \<times> gheap" where
  "new put x h = (Some (lim h), put (lim h) x (h\<lparr>lim := lim h + 1\<rparr>))"

definition copy_ptr ::
  "(gheap \<Rightarrow> nat \<Rightarrow> 'c) \<Rightarrow> (nat \<Rightarrow> 'c \<Rightarrow> gheap \<Rightarrow> gheap) \<Rightarrow> ('c \<Rightarrow> gheap \<Rightarrow> 'c \<times> gheap) \<Rightarrow>
     ptr \<Rightarrow> gheap \<Rightarrow> ptr \<times> gheap" where
  "copy_ptr get put c p h =
     (case p of None \<Rightarrow> (None, h)
      | Some a \<Rightarrow> let (x, h1) = c (get h a) h in new put x h1)"

lemma copier_ptr:
  assumes "cells get put" and "copier v ad c"
  shows "copier (val_ptr get v) (addrs_ptr get ad) (copy_ptr get put c)"
proof (unfold_locales, goal_cases)
  case (1 h p h')
  then have "p = Some a \<Longrightarrow> get h' a = get h a" for a
    using cells.get_same [OF assms(1), of a h h'] by (simp add: addrs_ptr_def)
  with 1 show ?case
    by (cases p) (auto simp: val_ptr_def addrs_ptr_def intro!: copier.val_local [OF assms(2)])
next
  case (2 h p h')
  then have "p = Some a \<Longrightarrow> get h' a = get h a" for a
    using cells.get_same [OF assms(1), of a h h'] by (simp add: addrs_ptr_def)
  with 2 show ?case
    by (cases p) (auto simp: addrs_ptr_def intro!: copier.addrs_local [OF assms(2)])
next
  case (3 p h q h')
  show ?case
  proof (cases p)
    case (Some a)
    obtain x h1 where c: "c (get h a) h = (x, h1)" by (cases "c (get h a) h")
    have q: "q = Some (lim h1)" and h': "h' = put (lim h1) x (h1\<lparr>lim := lim h1 + 1\<rparr>)"
      using 3(1) by (auto simp: copy_ptr_def new_def Some c)
    have "set (ad h (get h a)) \<subseteq> {..<lim h}" using 3(2) by (simp add: addrs_ptr_def Some)
    note k = copier.copy_ok [OF assms(2) c this]
    have l: "lim h' = lim h1 + 1" by (simp add: h' cells.lim_put [OF assms(1)])
    have same: "same_at b h1 h'" if "b \<noteq> lim h1" for b
      using cells.put_same [OF assms(1) that] by (simp add: h' same_at_def)
    have "extends_heap h1 h'" using same by (auto simp: extends_heap_def l)
    moreover from k have "set (ad h1 x) \<subseteq> {..<lim h1}" by auto
    ultimately have "v h' x = v h1 x" "ad h' x = ad h1 x"
      using copier.kept [OF assms(2)] by auto
    moreover have "extends_heap h h'"
      using k \<open>extends_heap h1 h'\<close> extends_heap_trans by blast
    ultimately show ?thesis
      using k l by (auto simp: q Some val_ptr_def addrs_ptr_def h' cells.get_put [OF assms(1)]
          extends_heap_def)
  qed (use 3 in \<open>auto simp: copy_ptr_def val_ptr_def addrs_ptr_def\<close>)
qed

lemma copier_struct:
  assumes "copier v ad c" and fg: "\<And>r x. f (g r x) = x" and ug: "\<And>r x. u (g r x) = u r"
    and "\<And>h r. v' h r = u r (v h (f r))" and "\<And>h r. ad' h r = ad h (f r)"
    and "\<And>h r. c' r h = (case c (f r) h of (x, h') \<Rightarrow> (g r x, h'))"
  shows "copier v' ad' c'"
proof (unfold_locales, goal_cases)
  case (1 h r h')
  then show ?case
    by (simp add: assms(4,5)) (rule arg_cong [of _ _ "u r"], rule copier.val_local [OF assms(1)], simp)
next
  case (2 h r h')
  then show ?case by (simp add: assms(5)) (rule copier.addrs_local [OF assms(1)], simp)
next
  case (3 r h s h')
  then obtain x where "c (f r) h = (x, h')" and "s = g r x"
    by (auto simp: assms(6) split: prod.splits)
  with 3(2) show ?case
    using copier.copy_ok [OF assms(1), of "f r" h x h'] by (simp add: assms(4,5) fg ug)
qed

section \<open>The cells\<close>

abbreviation put_strs where "put_strs a x h \<equiv> h\<lparr>st_strs := (st_strs h)(a := x)\<rparr>"
abbreviation put_ints where "put_ints a x h \<equiv> h\<lparr>st_ints := (st_ints h)(a := x)\<rparr>"
abbreviation put_map where "put_map a x h \<equiv> h\<lparr>st_map := (st_map h)(a := x)\<rparr>"
abbreviation put_owners where "put_owners a x h \<equiv> h\<lparr>st_owners := (st_owners h)(a := x)\<rparr>"
abbreviation put_ptrs where "put_ptrs a x h \<equiv> h\<lparr>st_ptrs := (st_ptrs h)(a := x)\<rparr>"
abbreviation put_items where "put_items a x h \<equiv> h\<lparr>st_items := (st_items h)(a := x)\<rparr>"
abbreviation put_secret where "put_secret a x h \<equiv> h\<lparr>st_secret := (st_secret h)(a := x)\<rparr>"
abbreviation put_local where "put_local a x h \<equiv> h\<lparr>st_local := (st_local h)(a := x)\<rparr>"
abbreviation put_radius where "put_radius a x h \<equiv> h\<lparr>st_radius := (st_radius h)(a := x)\<rparr>"
abbreviation put_auth where "put_auth a x h \<equiv> h\<lparr>st_auth := (st_auth h)(a := x)\<rparr>"
abbreviation put_config where "put_config a x h \<equiv> h\<lparr>st_config := (st_config h)(a := x)\<rparr>"
abbreviation put_ports where "put_ports a x h \<equiv> h\<lparr>st_ports := (st_ports h)(a := x)\<rparr>"
abbreviation put_tc where "put_tc a x h \<equiv> h\<lparr>st_tc := (st_tc h)(a := x)\<rparr>"
abbreviation put_interface where "put_interface a x h \<equiv> h\<lparr>st_interface := (st_interface h)(a := x)\<rparr>"
abbreviation put_spec where "put_spec a x h \<equiv> h\<lparr>st_spec := (st_spec h)(a := x)\<rparr>"
abbreviation put_status where "put_status a x h \<equiv> h\<lparr>st_status := (st_status h)(a := x)\<rparr>"
abbreviation put_a11r where "put_a11r a x h \<equiv> h\<lparr>st_a11r := (st_a11r h)(a := x)\<rparr>"
abbreviation put_list where "put_list a x h \<equiv> h\<lparr>st_list := (st_list h)(a := x)\<rparr>"

interpretation strs: cells st_strs put_strs by unfold_locales (simp_all add: same_at_def)
interpretation ints: cells st_ints put_ints by unfold_locales (simp_all add: same_at_def)
interpretation maps: cells st_map put_map by unfold_locales (simp_all add: same_at_def)
interpretation owners: cells st_owners put_owners by unfold_locales (simp_all add: same_at_def)
interpretation ptrs: cells st_ptrs put_ptrs by unfold_locales (simp_all add: same_at_def)
interpretation items: cells st_items put_items by unfold_locales (simp_all add: same_at_def)
interpretation secrets: cells st_secret put_secret by unfold_locales (simp_all add: same_at_def)
interpretation locals: cells st_local put_local by unfold_locales (simp_all add: same_at_def)
interpretation radii: cells st_radius put_radius by unfold_locales (simp_all add: same_at_def)
interpretation auths: cells st_auth put_auth by unfold_locales (simp_all add: same_at_def)
interpretation configs: cells st_config put_config by unfold_locales (simp_all add: same_at_def)
interpretation ports: cells st_ports put_ports by unfold_locales (simp_all add: same_at_def)
interpretation tcs: cells st_tc put_tc by unfold_locales (simp_all add: same_at_def)
interpretation interfaces: cells st_interface put_interface by unfold_locales (simp_all add: same_at_def)
interpretation specs: cells st_spec put_spec by unfold_locales (simp_all add: same_at_def)
interpretation statuses: cells st_status put_status by unfold_locales (simp_all add: same_at_def)
interpretation a11rs: cells st_a11r put_a11r by unfold_locales (simp_all add: same_at_def)
interpretation lists: cells st_list put_list by unfold_locales (simp_all add: same_at_def)

section \<open>The types\<close>

text \<open>Slices of plain elements and maps of strings. A nil slice means the empty list. The loop
  over a map writes entry after entry into the new one.\<close>

abbreviation "plain \<equiv> (\<lambda>(h :: gheap) x. x)"
abbreviation "no_addrs \<equiv> (\<lambda>(h :: gheap) x. [] :: nat list)"
abbreviation "assign \<equiv> (\<lambda>x (h :: gheap). (x, h))"

definition copy_map :: "(string, string) alist \<Rightarrow> gheap \<Rightarrow> (string, string) alist \<times> gheap" where
  "copy_map m h = (fold (\<lambda>(key, val) out. DAList.update key val out) (DAList.impl_of m) DAList.empty, h)"

definition map_value :: "(string, string) alist \<Rightarrow> (string, string) mapping" where
  "map_value m = Mapping.of_alist (DAList.impl_of m)"

abbreviation "val_map \<equiv> (\<lambda>h :: gheap. map_value)"

lemma map_value_empty [simp]: "map_value DAList.empty = Mapping.empty"
  by (rule mapping_eqI) (simp add: map_value_def DAList.empty.rep_eq lookup_of_alist)

lemma map_value_update [simp]:
  "map_value (DAList.update k v m) = Mapping.update k v (map_value m)"
  by (rule mapping_eqI)
    (simp add: map_value_def lookup_of_alist lookup_update' DAList.update.rep_eq update_conv)

lemma lookup_fold_update:
  "distinct (map fst kvs) \<Longrightarrow>
   DAList.lookup (fold (\<lambda>(k, v) out. DAList.update k v out) kvs m) k =
     (case map_of kvs k of None \<Rightarrow> DAList.lookup m k | Some v \<Rightarrow> Some v)"
proof (induction kvs arbitrary: m)
  case (Cons kv kvs)
  then show ?case
    by (cases kv) (auto simp: lookup_update map_of_eq_None_iff [symmetric] split: option.splits)
qed simp

interpretation strmap: copier val_map no_addrs copy_map
proof (unfold_locales, goal_cases)
  case (3 m h m' h')
  have "map_of (DAList.impl_of m') k = map_of (DAList.impl_of m) k" for k
    using lookup_fold_update [of "DAList.impl_of m" DAList.empty k] 3(1)
    by (auto simp: copy_map_def DAList.lookup_def DAList.empty.rep_eq split: option.splits)
  with 3 show ?case
    by (auto simp: map_value_def copy_map_def lookup_of_alist intro!: mapping_eqI)
qed simp_all

lemmas strs_ptr = copier_ptr [OF strs.cells_axioms copier_plain]
lemmas ints_ptr = copier_ptr [OF ints.cells_axioms copier_plain]
lemmas map_ptr = copier_ptr [OF maps.cells_axioms strmap.copier_axioms]
lemmas owners_ptr = copier_ptr [OF owners.cells_axioms copier_plain]

definition elems :: "'a list option \<Rightarrow> 'a list" where
  "elems xs = (case xs of None \<Rightarrow> [] | Some ys \<Rightarrow> ys)"

subsection \<open>Structs without pointers\<close>

definition DeepCopyInto_SecretKeyRef :: "SecretKeyRef \<Rightarrow> gheap \<Rightarrow> SecretKeyRef \<times> gheap" where
  "DeepCopyInto_SecretKeyRef x h = (x, h)"

definition DeepCopyInto_Radius :: "Radius \<Rightarrow> gheap \<Rightarrow> Radius \<times> gheap" where
  "DeepCopyInto_Radius x h = (x, h)"

definition DeepCopyInto_Config :: "Config \<Rightarrow> gheap \<Rightarrow> Config \<times> gheap" where
  "DeepCopyInto_Config x h = (x, h)"

definition DeepCopy_SecretKeyRef :: "ptr \<Rightarrow> gheap \<Rightarrow> ptr \<times> gheap" where
  "DeepCopy_SecretKeyRef = copy_ptr st_secret put_secret DeepCopyInto_SecretKeyRef"

definition DeepCopy_Radius :: "ptr \<Rightarrow> gheap \<Rightarrow> ptr \<times> gheap" where
  "DeepCopy_Radius = copy_ptr st_radius put_radius DeepCopyInto_Radius"

definition DeepCopy_Config :: "ptr \<Rightarrow> gheap \<Rightarrow> ptr \<times> gheap" where
  "DeepCopy_Config = copy_ptr st_config put_config DeepCopyInto_Config"

interpretation skr: copier plain no_addrs DeepCopyInto_SecretKeyRef
  by unfold_locales (simp_all add: DeepCopyInto_SecretKeyRef_def)

interpretation rad: copier plain no_addrs DeepCopyInto_Radius
  by unfold_locales (simp_all add: DeepCopyInto_Radius_def)

interpretation conf: copier plain no_addrs DeepCopyInto_Config
  by unfold_locales (simp_all add: DeepCopyInto_Config_def)

abbreviation "val_secret \<equiv> val_ptr st_secret plain"
abbreviation "addrs_secret \<equiv> addrs_ptr st_secret no_addrs"

lemma secret_ptr: "copier val_secret addrs_secret DeepCopy_SecretKeyRef"
  unfolding DeepCopy_SecretKeyRef_def by (rule copier_ptr [OF secrets.cells_axioms skr.copier_axioms])

lemma radius_ptr: "copier (val_ptr st_radius plain) (addrs_ptr st_radius no_addrs) DeepCopy_Radius"
  unfolding DeepCopy_Radius_def by (rule copier_ptr [OF radii.cells_axioms rad.copier_axioms])

lemma config_ptr: "copier (val_ptr st_config plain) (addrs_ptr st_config no_addrs) DeepCopy_Config"
  unfolding DeepCopy_Config_def by (rule copier_ptr [OF configs.cells_axioms conf.copier_axioms])

subsection \<open>Local and Auth\<close>

definition val_Local :: "gheap \<Rightarrow> gLocal \<Rightarrow> Local" where
  "val_Local h l = \<lparr>UserFileSecret = val_secret h (g_UserFileSecret l),
     CaCertSecret = val_secret h (g_CaCertSecret l),
     ServerCertSecret = val_secret h (g_ServerCertSecret l),
     PrivateKeySecret = val_secret h (g_PrivateKeySecret l),
     PrivateKeyPassphrase = g_PrivateKeyPassphrase l,
     RadiusClientSecret = val_secret h (g_RadiusClientSecret l), local_AuthPort = g_AuthPort l\<rparr>"

definition addrs_Local :: "gheap \<Rightarrow> gLocal \<Rightarrow> nat list" where
  "addrs_Local h l = addrs_secret h (g_UserFileSecret l) @ addrs_secret h (g_CaCertSecret l) @
     addrs_secret h (g_ServerCertSecret l) @ addrs_secret h (g_PrivateKeySecret l) @
     addrs_secret h (g_RadiusClientSecret l)"

definition DeepCopyInto_Local :: "gLocal \<Rightarrow> gheap \<Rightarrow> gLocal \<times> gheap" where
  "DeepCopyInto_Local l h =
     (let (user, h1) = copy_ptr st_secret put_secret assign (g_UserFileSecret l) h;
          (ca, h2) = copy_ptr st_secret put_secret assign (g_CaCertSecret l) h1;
          (cert, h3) = copy_ptr st_secret put_secret assign (g_ServerCertSecret l) h2;
          (key, h4) = copy_ptr st_secret put_secret assign (g_PrivateKeySecret l) h3;
          (rcl, h5) = copy_ptr st_secret put_secret assign (g_RadiusClientSecret l) h4
      in (l\<lparr>g_UserFileSecret := user, g_CaCertSecret := ca, g_ServerCertSecret := cert,
            g_PrivateKeySecret := key, g_RadiusClientSecret := rcl\<rparr>, h5))"

lemmas secret_field = copier_ptr [OF secrets.cells_axioms copier_plain]

interpretation loc: copier val_Local addrs_Local DeepCopyInto_Local
  by (rule copier_struct [where f = "\<lambda>l. (g_UserFileSecret l, g_CaCertSecret l,
         g_ServerCertSecret l, g_PrivateKeySecret l, g_RadiusClientSecret l)"
       and g = "\<lambda>l (user, ca, cert, key, rcl). l\<lparr>g_UserFileSecret := user, g_CaCertSecret := ca,
         g_ServerCertSecret := cert, g_PrivateKeySecret := key, g_RadiusClientSecret := rcl\<rparr>"
       and u = "\<lambda>l (user, ca, cert, key, rcl). \<lparr>UserFileSecret = user, CaCertSecret = ca,
         ServerCertSecret = cert, PrivateKeySecret = key,
         PrivateKeyPassphrase = g_PrivateKeyPassphrase l, RadiusClientSecret = rcl,
         local_AuthPort = g_AuthPort l\<rparr>",
       OF copier_pair [OF secret_field copier_pair [OF secret_field copier_pair [OF secret_field
         copier_pair [OF secret_field secret_field]]]]])
    (simp_all add: val_Local_def addrs_Local_def DeepCopyInto_Local_def Let_def split_beta)

definition DeepCopy_Local :: "ptr \<Rightarrow> gheap \<Rightarrow> ptr \<times> gheap" where
  "DeepCopy_Local = copy_ptr st_local put_local DeepCopyInto_Local"

lemmas local_field = copier_ptr [OF locals.cells_axioms loc.copier_axioms]
lemmas radius_field = copier_ptr [OF radii.cells_axioms copier_plain]

definition val_Auth :: "gheap \<Rightarrow> gAuth \<Rightarrow> Auth" where
  "val_Auth h a = \<lparr>auth_Local = val_ptr st_local val_Local h (g_Local a),
     auth_Radius = val_ptr st_radius plain h (g_Radius a)\<rparr>"

definition addrs_Auth :: "gheap \<Rightarrow> gAuth \<Rightarrow> nat list" where
  "addrs_Auth h a = addrs_ptr st_local addrs_Local h (g_Local a) @
     addrs_ptr st_radius no_addrs h (g_Radius a)"

definition DeepCopyInto_Auth :: "gAuth \<Rightarrow> gheap \<Rightarrow> gAuth \<times> gheap" where
  "DeepCopyInto_Auth a h =
     (let (l, h1) = copy_ptr st_local put_local DeepCopyInto_Local (g_Local a) h;
          (r, h2) = copy_ptr st_radius put_radius assign (g_Radius a) h1
      in (a\<lparr>g_Local := l, g_Radius := r\<rparr>, h2))"

definition DeepCopy_Auth :: "ptr \<Rightarrow> gheap \<Rightarrow> ptr \<times> gheap" where
  "DeepCopy_Auth = copy_ptr st_auth put_auth DeepCopyInto_Auth"

interpretation auth: copier val_Auth addrs_Auth DeepCopyInto_Auth
  by (rule copier_struct [where f = "\<lambda>a. (g_Local a, g_Radius a)"
       and g = "\<lambda>a (l, r). a\<lparr>g_Local := l, g_Radius := r\<rparr>"
       and u = "\<lambda>a (l, r). \<lparr>auth_Local = l, auth_Radius = r\<rparr>",
       OF copier_pair [OF local_field radius_field]])
    (simp_all add: val_Auth_def addrs_Auth_def DeepCopyInto_Auth_def Let_def split_beta)

subsection \<open>Ports and TrafficControl\<close>

definition val_Ports :: "gheap \<Rightarrow> gPorts \<Rightarrow> Ports" where
  "val_Ports h p = \<lparr>Tcp = elems (val_ptr st_ints plain h (g_Tcp p)),
     Udp = elems (val_ptr st_ints plain h (g_Udp p))\<rparr>"

definition addrs_Ports :: "gheap \<Rightarrow> gPorts \<Rightarrow> nat list" where
  "addrs_Ports h p = addrs_ptr st_ints no_addrs h (g_Tcp p) @ addrs_ptr st_ints no_addrs h (g_Udp p)"

definition DeepCopyInto_Ports :: "gPorts \<Rightarrow> gheap \<Rightarrow> gPorts \<times> gheap" where
  "DeepCopyInto_Ports p h =
     (let (t, h1) = copy_ptr st_ints put_ints assign (g_Tcp p) h;
          (u, h2) = copy_ptr st_ints put_ints assign (g_Udp p) h1
      in (p\<lparr>g_Tcp := t, g_Udp := u\<rparr>, h2))"

definition DeepCopy_Ports :: "ptr \<Rightarrow> gheap \<Rightarrow> ptr \<times> gheap" where
  "DeepCopy_Ports = copy_ptr st_ports put_ports DeepCopyInto_Ports"

interpretation prt: copier val_Ports addrs_Ports DeepCopyInto_Ports
  by (rule copier_struct [where f = "\<lambda>p. (g_Tcp p, g_Udp p)"
       and g = "\<lambda>p (t, u). p\<lparr>g_Tcp := t, g_Udp := u\<rparr>"
       and u = "\<lambda>p (t, u). \<lparr>Tcp = elems t, Udp = elems u\<rparr>",
       OF copier_pair [OF ints_ptr ints_ptr]])
    (simp_all add: val_Ports_def addrs_Ports_def DeepCopyInto_Ports_def Let_def split_beta)

definition val_TrafficControl :: "gheap \<Rightarrow> gTrafficControl \<Rightarrow> TrafficControl" where
  "val_TrafficControl h t = \<lparr>UnprotectedPorts = val_ptr st_ports val_Ports h (g_UnprotectedPorts t)\<rparr>"

definition addrs_TrafficControl :: "gheap \<Rightarrow> gTrafficControl \<Rightarrow> nat list" where
  "addrs_TrafficControl h t = addrs_ptr st_ports addrs_Ports h (g_UnprotectedPorts t)"

definition DeepCopyInto_TrafficControl :: "gTrafficControl \<Rightarrow> gheap \<Rightarrow> gTrafficControl \<times> gheap" where
  "DeepCopyInto_TrafficControl t h =
     (let (p, h1) = copy_ptr st_ports put_ports DeepCopyInto_Ports (g_UnprotectedPorts t) h
      in (t\<lparr>g_UnprotectedPorts := p\<rparr>, h1))"

definition DeepCopy_TrafficControl :: "ptr \<Rightarrow> gheap \<Rightarrow> ptr \<times> gheap" where
  "DeepCopy_TrafficControl = copy_ptr st_tc put_tc DeepCopyInto_TrafficControl"

lemmas ports_field = copier_ptr [OF ports.cells_axioms prt.copier_axioms]

interpretation tct: copier val_TrafficControl addrs_TrafficControl DeepCopyInto_TrafficControl
  by (rule copier_struct [where f = g_UnprotectedPorts
       and g = "\<lambda>t p. t\<lparr>g_UnprotectedPorts := p\<rparr>" and u = "\<lambda>t p. \<lparr>UnprotectedPorts = p\<rparr>",
       OF ports_field])
    (simp_all add: val_TrafficControl_def addrs_TrafficControl_def DeepCopyInto_TrafficControl_def
      Let_def split_beta)

subsection \<open>AuthenticatorSpec\<close>

lemmas config_field = copier_ptr [OF configs.cells_axioms copier_plain]
lemmas tc_field = copier_ptr [OF tcs.cells_axioms tct.copier_axioms]

definition val_Spec :: "gheap \<Rightarrow> gSpec \<Rightarrow> AuthenticatorSpec" where
  "val_Spec h s = \<lparr>Enabled = g_Enabled s,
     spec_Interfaces = elems (val_ptr st_strs plain h (g_Interfaces s)),
     Authentication = val_Auth h (g_Authentication s),
     Configuration = val_ptr st_config plain h (g_Configuration s), Image = g_Image s,
     NodeSelector = val_ptr st_map val_map h (g_NodeSelector s),
     spec_TrafficControl = val_ptr st_tc val_TrafficControl h (g_TrafficControl s)\<rparr>"

definition addrs_Spec :: "gheap \<Rightarrow> gSpec \<Rightarrow> nat list" where
  "addrs_Spec h s = addrs_ptr st_strs no_addrs h (g_Interfaces s) @
     addrs_Auth h (g_Authentication s) @ addrs_ptr st_config no_addrs h (g_Configuration s) @
     addrs_ptr st_map no_addrs h (g_NodeSelector s) @
     addrs_ptr st_tc addrs_TrafficControl h (g_TrafficControl s)"

definition DeepCopyInto_AuthenticatorSpec :: "gSpec \<Rightarrow> gheap \<Rightarrow> gSpec \<times> gheap" where
  "DeepCopyInto_AuthenticatorSpec s h =
     (let (i, h1) = copy_ptr st_strs put_strs assign (g_Interfaces s) h;
          (a, h2) = DeepCopyInto_Auth (g_Authentication s) h1;
          (c, h3) = copy_ptr st_config put_config assign (g_Configuration s) h2;
          (n, h4) = copy_ptr st_map put_map copy_map (g_NodeSelector s) h3;
          (t, h5) = copy_ptr st_tc put_tc DeepCopyInto_TrafficControl (g_TrafficControl s) h4
      in (s\<lparr>g_Interfaces := i, g_Authentication := a, g_Configuration := c,
            g_NodeSelector := n, g_TrafficControl := t\<rparr>, h5))"

definition DeepCopy_AuthenticatorSpec :: "ptr \<Rightarrow> gheap \<Rightarrow> ptr \<times> gheap" where
  "DeepCopy_AuthenticatorSpec = copy_ptr st_spec put_spec DeepCopyInto_AuthenticatorSpec"

interpretation spec: copier val_Spec addrs_Spec DeepCopyInto_AuthenticatorSpec
  by (rule copier_struct [where f = "\<lambda>s. (g_Interfaces s, g_Authentication s, g_Configuration s,
         g_NodeSelector s, g_TrafficControl s)"
       and g = "\<lambda>s (i, a, c, n, t). s\<lparr>g_Interfaces := i, g_Authentication := a,
         g_Configuration := c, g_NodeSelector := n, g_TrafficControl := t\<rparr>"
       and u = "\<lambda>s (i, a, c, n, t). \<lparr>Enabled = g_Enabled s, spec_Interfaces = elems i,
         Authentication = a, Configuration = c, Image = g_Image s, NodeSelector = n,
         spec_TrafficControl = t\<rparr>",
       OF copier_pair [OF strs_ptr copier_pair [OF auth.copier_axioms
         copier_pair [OF config_field copier_pair [OF map_ptr tc_field]]]]])
    (simp_all add: val_Spec_def addrs_Spec_def DeepCopyInto_AuthenticatorSpec_def Let_def split_beta)

subsection \<open>Interface and AuthenticatorStatus\<close>

text \<open>The status holds pointers to interfaces; a nil pointer means no interface.\<close>

definition val_Interface :: "gheap \<Rightarrow> gInterface \<Rightarrow> Interface" where
  "val_Interface h i = \<lparr>if_Name = gi_Name i, if_State = gi_State i,
     AuthenticatedClients = elems (val_ptr st_strs plain h (g_AuthenticatedClients i))\<rparr>"

definition addrs_Interface :: "gheap \<Rightarrow> gInterface \<Rightarrow> nat list" where
  "addrs_Interface h i = addrs_ptr st_strs no_addrs h (g_AuthenticatedClients i)"

definition DeepCopyInto_Interface :: "gInterface \<Rightarrow> gheap \<Rightarrow> gInterface \<times> gheap" where
  "DeepCopyInto_Interface i h =
     (let (c, h1) = copy_ptr st_strs put_strs assign (g_AuthenticatedClients i) h
      in (i\<lparr>g_AuthenticatedClients := c\<rparr>, h1))"

definition DeepCopy_Interface :: "ptr \<Rightarrow> gheap \<Rightarrow> ptr \<times> gheap" where
  "DeepCopy_Interface = copy_ptr st_interface put_interface DeepCopyInto_Interface"

interpretation itf: copier val_Interface addrs_Interface DeepCopyInto_Interface
  by (rule copier_struct [where f = g_AuthenticatedClients
       and g = "\<lambda>i c. i\<lparr>g_AuthenticatedClients := c\<rparr>"
       and u = "\<lambda>i c. \<lparr>if_Name = gi_Name i, if_State = gi_State i, AuthenticatedClients = elems c\<rparr>",
       OF strs_ptr])
    (simp_all add: val_Interface_def addrs_Interface_def DeepCopyInto_Interface_def Let_def split_beta)

lemmas interfaces_field = copier_ptr [OF ptrs.cells_axioms
    copier_list [OF copier_ptr [OF interfaces.cells_axioms itf.copier_axioms]]]

definition val_Status :: "gheap \<Rightarrow> gStatus \<Rightarrow> AuthenticatorStatus" where
  "val_Status h s = \<lparr>status_Interfaces = List.map_filter id (elems
     (val_ptr st_ptrs (\<lambda>h. map (val_ptr st_interface val_Interface h)) h (g_StatusInterfaces s)))\<rparr>"

definition addrs_Status :: "gheap \<Rightarrow> gStatus \<Rightarrow> nat list" where
  "addrs_Status h s = addrs_ptr st_ptrs
     (\<lambda>h ps. concat (map (addrs_ptr st_interface addrs_Interface h) ps)) h (g_StatusInterfaces s)"

definition DeepCopyInto_AuthenticatorStatus :: "gStatus \<Rightarrow> gheap \<Rightarrow> gStatus \<times> gheap" where
  "DeepCopyInto_AuthenticatorStatus s h =
     (let (is, h1) = copy_ptr st_ptrs put_ptrs
            (copy_list (copy_ptr st_interface put_interface DeepCopyInto_Interface))
            (g_StatusInterfaces s) h
      in (s\<lparr>g_StatusInterfaces := is\<rparr>, h1))"

definition DeepCopy_AuthenticatorStatus :: "ptr \<Rightarrow> gheap \<Rightarrow> ptr \<times> gheap" where
  "DeepCopy_AuthenticatorStatus = copy_ptr st_status put_status DeepCopyInto_AuthenticatorStatus"

interpretation stat: copier val_Status addrs_Status DeepCopyInto_AuthenticatorStatus
  by (rule copier_struct [where f = g_StatusInterfaces
       and g = "\<lambda>s is. s\<lparr>g_StatusInterfaces := is\<rparr>"
       and u = "\<lambda>s is. \<lparr>status_Interfaces = List.map_filter id (elems is)\<rparr>", OF interfaces_field])
    (simp_all add: val_Status_def addrs_Status_def DeepCopyInto_AuthenticatorStatus_def
      Let_def split_beta)

subsection \<open>Authenticator and AuthenticatorList\<close>

definition val_Meta :: "gheap \<Rightarrow> gMeta \<Rightarrow> ObjectMeta" where
  "val_Meta h m = \<lparr>om_Name = gm_Name m, om_Namespace = gm_Namespace m, om_UID = gm_UID m,
     ResourceVersion = gm_ResourceVersion m,
     om_Labels = (case val_ptr st_map val_map h (g_Labels m) of None \<Rightarrow> Mapping.empty | Some l \<Rightarrow> l),
     OwnerReferences = elems (val_ptr st_owners plain h (g_OwnerReferences m))\<rparr>"

definition addrs_Meta :: "gheap \<Rightarrow> gMeta \<Rightarrow> nat list" where
  "addrs_Meta h m = addrs_ptr st_map no_addrs h (g_Labels m) @
     addrs_ptr st_owners no_addrs h (g_OwnerReferences m)"

definition DeepCopyInto_ObjectMeta :: "gMeta \<Rightarrow> gheap \<Rightarrow> gMeta \<times> gheap" where
  "DeepCopyInto_ObjectMeta m h =
     (let (l, h1) = copy_ptr st_map put_map copy_map (g_Labels m) h;
          (os, h2) = copy_ptr st_owners put_owners assign (g_OwnerReferences m) h1
      in (m\<lparr>g_Labels := l, g_OwnerReferences := os\<rparr>, h2))"

interpretation meta: copier val_Meta addrs_Meta DeepCopyInto_ObjectMeta
  by (rule copier_struct [where f = "\<lambda>m. (g_Labels m, g_OwnerReferences m)"
       and g = "\<lambda>m (l, os). m\<lparr>g_Labels := l, g_OwnerReferences := os\<rparr>"
       and u = "\<lambda>m (l, os). \<lparr>om_Name = gm_Name m, om_Namespace = gm_Namespace m,
         om_UID = gm_UID m, ResourceVersion = gm_ResourceVersion m,
         om_Labels = (case l of None \<Rightarrow> Mapping.empty | Some l \<Rightarrow> l), OwnerReferences = elems os\<rparr>",
       OF copier_pair [OF map_ptr owners_ptr]])
    (simp_all add: val_Meta_def addrs_Meta_def DeepCopyInto_ObjectMeta_def Let_def split_beta)

definition val_Authenticator :: "gheap \<Rightarrow> gAuthenticator \<Rightarrow> Authenticator" where
  "val_Authenticator h a = \<lparr>a_Meta = val_Meta h (g_Meta a), a_Spec = val_Spec h (g_Spec a),
     a_Status = val_Status h (g_Status a)\<rparr>"

definition addrs_Authenticator :: "gheap \<Rightarrow> gAuthenticator \<Rightarrow> nat list" where
  "addrs_Authenticator h a = addrs_Meta h (g_Meta a) @ addrs_Spec h (g_Spec a) @
     addrs_Status h (g_Status a)"

definition DeepCopyInto_Authenticator :: "gAuthenticator \<Rightarrow> gheap \<Rightarrow> gAuthenticator \<times> gheap" where
  "DeepCopyInto_Authenticator a h =
     (let (m, h1) = DeepCopyInto_ObjectMeta (g_Meta a) h;
          (sp, h2) = DeepCopyInto_AuthenticatorSpec (g_Spec a) h1;
          (st, h3) = DeepCopyInto_AuthenticatorStatus (g_Status a) h2
      in (a\<lparr>g_Meta := m, g_Spec := sp, g_Status := st\<rparr>, h3))"

definition DeepCopy_Authenticator :: "ptr \<Rightarrow> gheap \<Rightarrow> ptr \<times> gheap" where
  "DeepCopy_Authenticator = copy_ptr st_a11r put_a11r DeepCopyInto_Authenticator"

text \<open>The interface value is nil exactly when the pointer is.\<close>

definition DeepCopyObject_Authenticator :: "ptr \<Rightarrow> gheap \<Rightarrow> ptr \<times> gheap" where
  "DeepCopyObject_Authenticator p h =
     (case DeepCopy_Authenticator p h of (Some c, h1) \<Rightarrow> (Some c, h1) | (None, h1) \<Rightarrow> (None, h1))"

interpretation a11: copier val_Authenticator addrs_Authenticator DeepCopyInto_Authenticator
  by (rule copier_struct [where f = "\<lambda>a. (g_Meta a, g_Spec a, g_Status a)"
       and g = "\<lambda>a (m, sp, st). a\<lparr>g_Meta := m, g_Spec := sp, g_Status := st\<rparr>"
       and u = "\<lambda>a (m, sp, st). \<lparr>a_Meta = m, a_Spec = sp, a_Status = st\<rparr>",
       OF copier_pair [OF meta.copier_axioms copier_pair [OF spec.copier_axioms stat.copier_axioms]]])
    (simp_all add: val_Authenticator_def addrs_Authenticator_def DeepCopyInto_Authenticator_def
      Let_def split_beta)

definition val_List :: "gheap \<Rightarrow> gAuthenticatorList \<Rightarrow> string \<times> Authenticator list" where
  "val_List h l = (gl_ResourceVersion l,
     elems (val_ptr st_items (\<lambda>h. map (val_Authenticator h)) h (g_Items l)))"

definition addrs_List :: "gheap \<Rightarrow> gAuthenticatorList \<Rightarrow> nat list" where
  "addrs_List h l = addrs_ptr st_items (\<lambda>h as. concat (map (addrs_Authenticator h) as)) h (g_Items l)"

definition DeepCopyInto_AuthenticatorList ::
  "gAuthenticatorList \<Rightarrow> gheap \<Rightarrow> gAuthenticatorList \<times> gheap" where
  "DeepCopyInto_AuthenticatorList l h =
     (let (is, h1) = copy_ptr st_items put_items (copy_list DeepCopyInto_Authenticator) (g_Items l) h
      in (l\<lparr>g_Items := is\<rparr>, h1))"

definition DeepCopy_AuthenticatorList :: "ptr \<Rightarrow> gheap \<Rightarrow> ptr \<times> gheap" where
  "DeepCopy_AuthenticatorList = copy_ptr st_list put_list DeepCopyInto_AuthenticatorList"

definition DeepCopyObject_AuthenticatorList :: "ptr \<Rightarrow> gheap \<Rightarrow> ptr \<times> gheap" where
  "DeepCopyObject_AuthenticatorList p h =
     (case DeepCopy_AuthenticatorList p h of (Some c, h1) \<Rightarrow> (Some c, h1) | (None, h1) \<Rightarrow> (None, h1))"

interpretation alist: copier val_List addrs_List DeepCopyInto_AuthenticatorList
  by (rule copier_struct [where f = g_Items and g = "\<lambda>l is. l\<lparr>g_Items := is\<rparr>"
       and u = "\<lambda>l is. (gl_ResourceVersion l, elems is)",
       OF copier_ptr [OF items.cells_axioms copier_list [OF a11.copier_axioms]]])
    (simp_all add: val_List_def addrs_List_def DeepCopyInto_AuthenticatorList_def Let_def split_beta)

section \<open>Copies of objects\<close>

interpretation a11p: copier "val_ptr st_a11r val_Authenticator"
  "addrs_ptr st_a11r addrs_Authenticator" DeepCopyObject_Authenticator
proof -
  have "DeepCopyObject_Authenticator = DeepCopy_Authenticator"
    by (auto simp: DeepCopyObject_Authenticator_def fun_eq_iff split: prod.splits option.splits)
  then show "copier (val_ptr st_a11r val_Authenticator)
      (addrs_ptr st_a11r addrs_Authenticator) DeepCopyObject_Authenticator"
    unfolding DeepCopy_Authenticator_def
    using copier_ptr [OF a11rs.cells_axioms a11.copier_axioms] by simp
qed

interpretation alistp: copier "val_ptr st_list val_List"
  "addrs_ptr st_list addrs_List" DeepCopyObject_AuthenticatorList
proof -
  have "DeepCopyObject_AuthenticatorList = DeepCopy_AuthenticatorList"
    by (auto simp: DeepCopyObject_AuthenticatorList_def fun_eq_iff split: prod.splits option.splits)
  then show "copier (val_ptr st_list val_List) (addrs_ptr st_list addrs_List)
      DeepCopyObject_AuthenticatorList"
    unfolding DeepCopy_AuthenticatorList_def
    using copier_ptr [OF lists.cells_axioms alist.copier_axioms] by simp
qed

text \<open>
  C11. The deep copy of a list of Authenticators without dangling pointers (what a client's
  cache hands out) means the same list; it consists of new cells only, none of them used
  twice and none of them past the heap's limit; and whatever is written to these cells
  afterwards, the list it was copied from keeps its meaning.
\<close>

theorem deep_copy_isolated:
  assumes "DeepCopyObject_AuthenticatorList p h = (q, h')"
    and "set (addrs_ptr st_list addrs_List h p) \<subseteq> {..<lim h}"
  shows "val_ptr st_list val_List h' q = val_ptr st_list val_List h p \<and>
    set (addrs_ptr st_list addrs_List h' q) \<subseteq> {lim h..<lim h'} \<and>
    distinct (addrs_ptr st_list addrs_List h' q) \<and>
    (\<forall>h2. (\<forall>a. a \<notin> set (addrs_ptr st_list addrs_List h' q) \<longrightarrow> same_at a h' h2) \<longrightarrow>
       val_ptr st_list val_List h2 p = val_ptr st_list val_List h p)"
  using alistp.isolated [OF assms] by blast

text \<open>A cache with one disabled Authenticator that has an interface and a node selector, alone
  (at 2) and in a list (at 4).\<close>

definition ga1 :: gAuthenticator where
  "ga1 = \<lparr>g_Meta = \<lparr>gm_Name = ''auth'', gm_Namespace = ''ns'', gm_UID = ''u1'',
       gm_ResourceVersion = ''7'', g_Labels = None, g_OwnerReferences = None\<rparr>,
     g_Spec = \<lparr>g_Enabled = False, g_Interfaces = Some 0,
       g_Authentication = \<lparr>g_Local = None, g_Radius = None\<rparr>, g_Configuration = None,
       g_Image = [], g_NodeSelector = Some 1, g_TrafficControl = None\<rparr>,
     g_Status = \<lparr>g_StatusInterfaces = None\<rparr>\<rparr>"

definition cache1 :: gheap where
  "cache1 = \<lparr>lim = 5, st_strs = (\<lambda>_. [''eth0'']), st_ints = (\<lambda>_. []),
     st_map = (\<lambda>_. DAList.update ''zone'' ''a'' DAList.empty), st_owners = (\<lambda>_. []),
     st_ptrs = (\<lambda>_. []), st_items = (\<lambda>_. [ga1]),
     st_secret = (\<lambda>_. \<lparr>skr_Name = [], skr_Key = []\<rparr>),
     st_local = (\<lambda>_. \<lparr>g_UserFileSecret = None, g_CaCertSecret = None, g_ServerCertSecret = None,
       g_PrivateKeySecret = None, g_PrivateKeyPassphrase = [], g_RadiusClientSecret = None,
       g_AuthPort = 0\<rparr>),
     st_radius = (\<lambda>_. \<lparr>AuthServer = [], radius_AuthPort = 0, AuthSecret = []\<rparr>),
     st_auth = (\<lambda>_. \<lparr>g_Local = None, g_Radius = None\<rparr>),
     st_config = (\<lambda>_. \<lparr>EapReauthPeriod = 0\<rparr>), st_ports = (\<lambda>_. \<lparr>g_Tcp = None, g_Udp = None\<rparr>),
     st_tc = (\<lambda>_. \<lparr>g_UnprotectedPorts = None\<rparr>),
     st_interface = (\<lambda>_. \<lparr>gi_Name = [], gi_State = [], g_AuthenticatedClients = None\<rparr>),
     st_spec = (\<lambda>_. g_Spec ga1), st_status = (\<lambda>_. g_Status ga1), st_a11r = (\<lambda>_. ga1),
     st_list = (\<lambda>_. \<lparr>gl_ResourceVersion = ''9'', g_Items = Some 3\<rparr>)\<rparr>"

lemmas addrs_defs = addrs_ptr_def addrs_List_def addrs_Authenticator_def addrs_Meta_def
  addrs_Spec_def addrs_Auth_def addrs_Status_def

theorem deep_copy_isolated_witness:
  "let (q, h') = DeepCopyObject_AuthenticatorList (Some 4) cache1 in
     val_ptr st_list val_List h' q = val_ptr st_list val_List cache1 (Some 4) \<and>
     set (addrs_ptr st_list addrs_List h' q) \<subseteq> {5..<lim h'} \<and>
     distinct (addrs_ptr st_list addrs_List h' q)"
proof -
  have "set (addrs_ptr st_list addrs_List cache1 (Some 4)) \<subseteq> {..<lim cache1}"
    by (simp add: addrs_defs cache1_def ga1_def)
  moreover have "lim cache1 = 5" by (simp add: cache1_def)
  ultimately show ?thesis
    using deep_copy_isolated [of "Some 4" cache1] by (auto split: prod.splits)
qed

section \<open>Working on the copy\<close>

text \<open>What \<open>configgen.Daemonset\<close> does with the node selector, in the heap: the map of a
  disabled authenticator is extended where it is, and a nil map is replaced by a new one
  that only the DaemonSet refers to.\<close>

definition node_selector :: "gSpec \<Rightarrow> gheap \<Rightarrow> ptr \<times> gheap" where
  "node_selector s h =
     (if g_Enabled s then (g_NodeSelector s, h)
      else let (nodeSelector, h1) = (case g_NodeSelector s of
                 None \<Rightarrow> new put_map DAList.empty h | Some a \<Rightarrow> (Some a, h))
           in (nodeSelector, case nodeSelector of None \<Rightarrow> h1
               | Some a \<Rightarrow> put_map a (DAList.update disabledSelector disabledReason (st_map h1 a)) h1))"

lemma node_selector_writes:
  assumes "node_selector s h = (sel, h')"
  shows "st_a11r h' = st_a11r h \<and> (\<forall>b. \<not> g_Enabled s \<and>
      b = (case g_NodeSelector s of None \<Rightarrow> lim h | Some a \<Rightarrow> a) \<or> same_at b h h')"
  using assms
  by (auto simp: node_selector_def new_def same_at_def Let_def split: option.splits if_splits)

lemma node_selector_value:
  assumes "node_selector s h = (sel, h')"
  shows "val_ptr st_map val_map h' sel = final_selector (val_Spec h s) \<and>
    val_ptr st_map val_map h' (g_NodeSelector s) =
      (if g_Enabled s \<or> g_NodeSelector s = None then NodeSelector (val_Spec h s)
       else final_selector (val_Spec h s))"
proof (cases "g_NodeSelector s")
  case None
  with assms show ?thesis
    by (auto simp: node_selector_def new_def val_Spec_def final_selector_def val_ptr_def split: if_splits)
next
  case (Some a)
  with assms have "sel = Some a" by (auto simp: node_selector_def split: if_splits)
  with Some assms show ?thesis
    by (cases "g_Enabled s") (auto simp: node_selector_def val_Spec_def final_selector_def val_ptr_def)
qed

lemma val_Spec_sel [simp]:
  "Enabled (val_Spec h s) = g_Enabled s"
  "NodeSelector (val_Spec h s) = None \<longleftrightarrow> g_NodeSelector s = None"
  by (simp_all add: val_Spec_def val_ptr_def)

text \<open>The cell of an object's node selector, or the next free cell, is no cell of its other parts.\<close>

lemma outside_selector:
  assumes "distinct (addrs_Authenticator h a)" and "set (addrs_Authenticator h a) \<subseteq> {..<lim h}"
    and "n = (case g_NodeSelector (g_Spec a) of None \<Rightarrow> lim h | Some b \<Rightarrow> b)"
    and "xs \<in> {addrs_Meta h (g_Meta a), addrs_Status h (g_Status a),
      addrs_ptr st_strs no_addrs h (g_Interfaces (g_Spec a)), addrs_Auth h (g_Authentication (g_Spec a)),
      addrs_ptr st_config no_addrs h (g_Configuration (g_Spec a)),
      addrs_ptr st_tc addrs_TrafficControl h (g_TrafficControl (g_Spec a))}"
  shows "n \<notin> set xs"
proof (cases "g_NodeSelector (g_Spec a)")
  case None
  have "set xs \<subseteq> set (addrs_Authenticator h a)"
    using assms(4) unfolding addrs_Authenticator_def addrs_Spec_def by auto
  with assms(2,3) None show ?thesis by auto
next
  case (Some b)
  have "b \<in> set (addrs_ptr st_map no_addrs h (g_NodeSelector (g_Spec a)))" by (simp add: Some addrs_ptr_def)
  moreover have "set xs \<inter> set (addrs_ptr st_map no_addrs h (g_NodeSelector (g_Spec a))) = {}"
    using assms(1,4) unfolding addrs_Authenticator_def addrs_Spec_def by auto
  ultimately show ?thesis using assms(3) Some by auto
qed

text \<open>
  C31. The reconciler gets a deep copy of the cached Authenticator and generates the
  DaemonSet from it. In the heap this computes what \<open>Daemonset\<close> computes, the node
  selector and the change of the object it was given; and although an existing node
  selector is extended in place, the cached object keeps its meaning.
\<close>

theorem daemonset_on_copy:
  assumes "DeepCopyObject_Authenticator (Some p) h = (Some q, h1)"
    and "set (addrs_ptr st_a11r addrs_Authenticator h (Some p)) \<subseteq> {..<lim h}"
    and "node_selector (g_Spec (st_a11r h1 q)) h1 = (sel, h2)"
    and "a11r g = val_Authenticator h (st_a11r h p)"
  shows "val_ptr st_map val_map h2 sel = pod_NodeSelector (template_Spec (ds_Spec (fst (Daemonset g)))) \<and>
    val_Authenticator h2 (st_a11r h2 q) = a11r (snd (Daemonset g)) \<and>
    val_Authenticator h2 (st_a11r h2 p) = a11r g"
proof -
  let ?a = "st_a11r h1 q"
  define n where "n = (case g_NodeSelector (g_Spec ?a) of None \<Rightarrow> lim h1 | Some a \<Rightarrow> a)"
  note k = a11p.copy_ok [OF assms(1,2)] and v = node_selector_value [OF assms(3)]
  from k have val: "val_Authenticator h1 ?a = a11r g"
    by (simp add: val_ptr_def assms(4))
  have spec: "val_Spec h1 (g_Spec ?a) = a_Spec (a11r g)" "val_Meta h1 (g_Meta ?a) = a_Meta (a11r g)"
    "val_Status h1 (g_Status ?a) = a_Status (a11r g)"
    unfolding val [symmetric] by (simp_all add: val_Authenticator_def)
  have cell: "st_a11r h2 = st_a11r h1" and same: "\<And>b. b \<noteq> n \<Longrightarrow> same_at b h1 h2"
    using node_selector_writes [OF assms(3)] unfolding n_def by blast+
  have n_new: "lim h \<le> n"
    using k by (auto simp: n_def extends_heap_def addrs_ptr_def addrs_Authenticator_def addrs_Spec_def
        split: option.splits)
  have all: "distinct (addrs_Authenticator h1 ?a)" "set (addrs_Authenticator h1 ?a) \<subseteq> {..<lim h1}"
    using k by (auto simp: addrs_ptr_def)
  have fresh: "n \<notin> set (addrs_Meta h1 (g_Meta ?a))" "n \<notin> set (addrs_Status h1 (g_Status ?a))"
    "n \<notin> set (addrs_ptr st_strs no_addrs h1 (g_Interfaces (g_Spec ?a)))"
    "n \<notin> set (addrs_Auth h1 (g_Authentication (g_Spec ?a)))"
    "n \<notin> set (addrs_ptr st_config no_addrs h1 (g_Configuration (g_Spec ?a)))"
    "n \<notin> set (addrs_ptr st_tc addrs_TrafficControl h1 (g_TrafficControl (g_Spec ?a)))"
    by (rule outside_selector [OF all n_def], simp)+
  have "val_Meta h2 (g_Meta ?a) = val_Meta h1 (g_Meta ?a)"
    using fresh(1) by (intro meta.val_local same) auto
  moreover have "val_Status h2 (g_Status ?a) = val_Status h1 (g_Status ?a)"
    using fresh(2) by (intro stat.val_local same) auto
  moreover have "val_Spec h2 (g_Spec ?a) = (val_Spec h1 (g_Spec ?a))\<lparr>NodeSelector :=
      val_ptr st_map val_map h2 (g_NodeSelector (g_Spec ?a))\<rparr>"
    using fresh(3-6)
    by (auto simp: val_Spec_def intro!: same arg_cong [of _ _ elems] copier.val_local [OF strs_ptr]
        auth.val_local copier.val_local [OF config_field] copier.val_local [OF tc_field])
  ultimately have "val_Authenticator h2 ?a = a11r (snd (Daemonset g))"
    using v spec val_Spec_sel [of h1 "g_Spec ?a"]
    by (auto simp: val_Authenticator_def Daemonset_object intro!: Authenticator.equality)
  moreover have "val_ptr st_a11r val_Authenticator h2 (Some p) = val_ptr st_a11r val_Authenticator h (Some p)"
  proof (rule a11p.val_local)
    fix b assume "b \<in> set (addrs_ptr st_a11r addrs_Authenticator h (Some p))"
    with assms(2) have "b < lim h" by auto
    with n_new k same [of b] show "same_at b h h2"
      by (auto simp: extends_heap_def intro: same_at_trans)
  qed
  ultimately show ?thesis
    using v spec by (simp add: cell Daemonset_sel assms(4) val_ptr_def [of st_a11r])
qed

theorem daemonset_on_copy_witness:
  "let (q, h1) = DeepCopyObject_Authenticator (Some 2) cache1;
       (sel, h2) = node_selector (g_Spec (st_a11r h1 (the q))) h1 in
     val_Authenticator h2 (st_a11r h2 2) = val_Authenticator cache1 ga1 \<and>
     val_Authenticator h2 (st_a11r h2 (the q)) \<noteq> val_Authenticator cache1 ga1"
proof -
  obtain q h1 where c: "DeepCopyObject_Authenticator (Some 2) cache1 = (Some q, h1)"
    by (cases "DeepCopyObject_Authenticator (Some 2) cache1")
      (auto simp: DeepCopyObject_Authenticator_def DeepCopy_Authenticator_def copy_ptr_def new_def
        Let_def split: prod.splits)
  obtain sel h2 where n: "node_selector (g_Spec (st_a11r h1 q)) h1 = (sel, h2)" by fastforce
  have "set (addrs_ptr st_a11r addrs_Authenticator cache1 (Some 2)) \<subseteq> {..<lim cache1}"
    by (simp add: addrs_defs cache1_def ga1_def)
  note k = daemonset_on_copy [OF c this n, of "\<lparr>a11r = val_Authenticator cache1 ga1, serviceAccount = []\<rparr>"]
  have ga1: "st_a11r cache1 2 = ga1" by (simp add: cache1_def)
  have e: "\<not> Enabled (a_Spec (val_Authenticator cache1 ga1))"
    "NodeSelector (a_Spec (val_Authenticator cache1 ga1)) = Some (Mapping.update ''zone'' ''a'' Mapping.empty)"
    by (simp_all add: val_Authenticator_def val_Spec_def val_ptr_def ga1_def cache1_def)
  then have "Mapping.lookup (the (NodeSelector (a_Spec (val_Authenticator h2 (st_a11r h2 q)))))
      disabledSelector = Some disabledReason"
    using k ga1 by (simp add: Daemonset_object final_selector_def)
  moreover have "Mapping.lookup (the (NodeSelector (a_Spec (val_Authenticator cache1 ga1))))
      disabledSelector = None"
    by (simp add: e lookup_update' disabledSelector_def)
  ultimately show ?thesis
    using k ga1 by (auto simp: c n)
qed

end
