(* ===== verification/Collector.thy ===== *)
theory Collector
  imports Logging
begin

text \<open>
  \<open>collectGlogs\<close> and \<open>deformat\<close> of \<open>internal/logging/logging.go\<close>: the goroutine that
  reads the pipe klog is pointed at, line by line through a \<open>bufio.Reader\<close>, and logs
  what it reads with the level, time, caller and message it finds in the line; and, of
  the vendored klog, the printing of a line and the files it is written to, so that what
  goes in and what comes out can be compared.
\<close>

section \<open>Reading a line\<close>

text \<open>\<open>ReadLine\<close> of a \<open>bufio.Reader\<close> on the bytes up to the end of the file: a line and
  whether there is more of it, and what is left. The reader looks for a line feed in a
  full buffer only; a carriage return that ends a full buffer is put back. \<open>None\<close> is the
  error at the end of the file.\<close>

definition defaultBufSize :: nat where "defaultBufSize = 4096"

definition ReadLine :: "string \<Rightarrow> (string \<times> bool \<times> string) option" where
  "ReadLine s =
     (let w = take defaultBufSize s
      in if CHR 0x0A \<in> set w
         then (let l = takeWhile (\<lambda>c. c \<noteq> CHR 0x0A) s
               in Some (dropCR l, False, drop (length l + 1) s))
         else if length w = defaultBufSize
         then (let l = dropCR w in Some (l, True, drop (length l) s))
         else if s = [] then None else Some (s, False, []))"

lemma length_dropCR: "length l \<le> Suc (length (dropCR l))"
  by (simp add: dropCR_def)

lemma ReadLine_shorter:
  assumes "ReadLine s = Some (l, pfx, rest)" shows "length rest < length s"
proof -
  let ?w = "take defaultBufSize s"
  have "dropCR ?w \<noteq> [] \<and> s \<noteq> []" if "length ?w = defaultBufSize"
    using that length_dropCR [of ?w] by (auto simp: defaultBufSize_def)
  moreover have "s \<noteq> []" if "CHR 0x0A \<in> set ?w" using that by auto
  ultimately show ?thesis
    using assms unfolding ReadLine_def Let_def by (auto split: if_splits)
qed

text \<open>The inner loop: the rest of a line whose beginning was read into \<open>buf\<close>.\<close>

function read_rest :: "string \<Rightarrow> bool \<Rightarrow> string \<Rightarrow> (string \<times> string) option" where
  "read_rest buf pfx s =
     (if \<not> pfx then Some (buf, s)
      else case ReadLine s of
             None \<Rightarrow> None
           | Some (l, pfx', s') \<Rightarrow> read_rest (buf @ l) pfx' s')"
  by pat_completeness auto
termination
  by (relation "measure (\<lambda>(buf, pfx, s). length s)") (auto dest: ReadLine_shorter)

declare read_rest.simps [simp del]

definition read_full :: "string \<Rightarrow> (string \<times> string) option" where
  "read_full s =
     (case ReadLine s of None \<Rightarrow> None | Some (l, pfx, s') \<Rightarrow> read_rest l pfx s')"

lemma read_rest_shorter: "read_rest buf pfx s = Some (l, rest) \<Longrightarrow> length rest \<le> length s"
proof (induction buf pfx s rule: read_rest.induct)
  case (1 buf pfx s)
  then show ?case
    by (fastforce simp: read_rest.simps [of buf pfx s] split: if_splits option.splits prod.splits
        dest!: ReadLine_shorter)
qed

lemma read_full_shorter: "read_full s = Some (l, rest) \<Longrightarrow> length rest < length s"
  by (fastforce simp: read_full_def split: option.splits prod.splits
      dest: ReadLine_shorter read_rest_shorter)

section \<open>Taking a line apart\<close>

text \<open>The time of a record is the clock's, or the date that the line gives in the year of
  the clock: month, day, hour, minute, second, nanosecond of \<open>time.Date\<close>.\<close>

datatype stamp = Now | InYear int int int int int int

record entry =
  e_level :: severity
  e_ts :: stamp
  e_caller :: string
  e_msg :: string

definition digit_atoms :: "nat \<Rightarrow> atom list" where
  "digit_atoms n = replicate n (One is_digit)"

definition logPrefix :: "atom list" where
  "logPrefix = [Bol, One dot] @ digit_atoms 2 @ digit_atoms 2 @ lit '' '' @ digit_atoms 2 @ lit '':'' @
     digit_atoms 2 @ lit '':'' @ digit_atoms 2 @ [One dot] @ digit_atoms 6 @
     [Many 1 is_blank, Many 1 is_digit] @ lit '' '' @
     [Many 1 (\<lambda>c. c \<noteq> CHR '':'')] @ lit '':'' @ [Many 1 is_digit] @ lit ''] '' @ [Many 0 dot, Eol]"

text \<open>A group of the expression is a run of its atoms: \<open>n\<close> of them from the \<open>i\<close>-th.\<close>

definition submatch :: "string list \<Rightarrow> nat \<Rightarrow> nat \<Rightarrow> string" where
  "submatch ps i n = concat (take n (drop i ps))"

definition deformat :: "string \<Rightarrow> entry" where
  "deformat b =
     (let dflt = \<lparr>e_level = Info, e_ts = Now, e_caller = [], e_msg = b\<rparr>
      in if length b < 30 then dflt
         else case rfind logPrefix None b of
           None \<Rightarrow> dflt
         | Some ps \<Rightarrow>
             (case (Atoi (submatch ps 2 2), Atoi (submatch ps 4 2), Atoi (submatch ps 7 2),
                    Atoi (submatch ps 10 2), Atoi (submatch ps 13 2), Atoi (submatch ps 16 6)) of
                (Inr month, Inr day, Inr hour, Inr minute, Inr second, Inr micros) \<Rightarrow>
                  (let c = hd (submatch ps 1 1)
                   in \<lparr>e_level = (if c = CHR ''I'' then Info
                                 else if c = CHR ''W'' then Warn
                                 else if c = CHR ''E'' \<or> c = CHR ''F'' then Error
                                 else Info),
                       e_ts = InYear month day hour minute second (micros * 1000),
                       e_caller = submatch ps 25 3, e_msg = submatch ps 30 1\<rparr>)
              | _ \<Rightarrow> dflt))"

section \<open>The collector\<close>

function collect_loop :: "logger \<Rightarrow> string \<Rightarrow> entry list" where
  "collect_loop l s =
     (case read_full s of
        None \<Rightarrow> []
      | Some (buf, s') \<Rightarrow>
          (let e = deformat buf
           in (if passes l (Some (e_level e)) then [e] else []) @ collect_loop l s'))"
  by pat_completeness auto
termination
  by (relation "measure (\<lambda>(l, s). length s)") (auto dest: read_full_shorter)

declare collect_loop.simps [simp del]

text \<open>What is logged until the file ends, and the panic of the deferred close, if any.\<close>

definition collectGlogs :: "logger \<Rightarrow> err option \<Rightarrow> string \<Rightarrow> entry list \<times> err option" where
  "collectGlogs l closeErr s =
     (collect_loop l s, map_option (WrapErr ''Error closing file: '') closeErr)"

section \<open>Lines and chunks\<close>

text \<open>However many buffers a line fills, it comes out whole and without its carriage
  return.\<close>

lemma dropCR_append: "b \<noteq> [] \<Longrightarrow> dropCR (a @ b) = a @ dropCR b"
  by (auto simp: dropCR_def butlast_append)

lemma dropCR_prefix: "\<exists>r. w = dropCR w @ r \<and> (r = [] \<and> (w = [] \<or> last w \<noteq> CHR 0x0D) \<or> r = [CHR 0x0D])"
  by (auto simp: dropCR_def) (metis append_butlast_last_id)

lemma takeWhile_line: "CHR 0x0A \<notin> set l \<Longrightarrow> takeWhile (\<lambda>c. c \<noteq> CHR 0x0A) (l @ CHR 0x0A # s) = l"
  by (induction l) auto

lemma ReadLine_line:
  assumes "CHR 0x0A \<notin> set l" and "length l < defaultBufSize"
  shows "ReadLine (l @ CHR 0x0A # s) = Some (dropCR l, False, s)"
proof -
  have "take defaultBufSize (l @ CHR 0x0A # s) = l @ CHR 0x0A # take (defaultBufSize - Suc (length l)) s"
    using assms(2) by (simp add: take_Cons')
  with assms(1) show ?thesis by (simp add: ReadLine_def takeWhile_line)
qed

lemma ReadLine_chunk:
  assumes "CHR 0x0A \<notin> set w" and "length w = defaultBufSize"
  shows "ReadLine (w @ s) = Some (dropCR w, True, drop (length (dropCR w)) (w @ s))"
  using assms by (simp add: ReadLine_def Let_def)

lemma read_rest_line:
  assumes "CHR 0x0A \<notin> set l"
  shows "read_rest buf True (l @ CHR 0x0A # s) = Some (buf @ dropCR l, s)"
  using assms
proof (induction "length l" arbitrary: l buf rule: less_induct)
  case less
  show ?case
  proof (cases "length l < defaultBufSize")
    case True
    with less.prems show ?thesis by (simp add: read_rest.simps ReadLine_line)
  next
    case False
    define w where "w = take defaultBufSize l"
    define t where "t = drop (length (dropCR w)) l"
    obtain r where r: "w = dropCR w @ r" "r = [] \<and> (w = [] \<or> last w \<noteq> CHR 0x0D) \<or> r = [CHR 0x0D]"
      using dropCR_prefix [of w] by blast
    have w: "length w = defaultBufSize" "l = w @ drop defaultBufSize l" "CHR 0x0A \<notin> set w"
      using False less.prems unfolding w_def by (auto dest: in_set_takeD)
    have lt: "l = dropCR w @ t" "t = r @ drop defaultBufSize l"
      using w(2) r(1) unfolding t_def by (metis append.assoc append_eq_conv_conj)+
    have "length t < length l"
      using length_dropCR [of w] w(1) lt(1) by (cases "dropCR w") (auto simp: defaultBufSize_def)
    moreover have "CHR 0x0A \<notin> set t" using less.prems lt(1) by (metis UnCI set_append)
    ultimately have "read_rest (buf @ dropCR w) True (t @ CHR 0x0A # s) =
        Some ((buf @ dropCR w) @ dropCR t, s)"
      using less.hyps by blast
    moreover have "ReadLine (l @ CHR 0x0A # s) = Some (dropCR w, True, t @ CHR 0x0A # s)"
      using ReadLine_chunk [OF w(3,1), of "drop defaultBufSize l @ CHR 0x0A # s"] w(2) lt(1)
      by (metis append.assoc append_eq_conv_conj)
    moreover have "dropCR w @ dropCR t = dropCR l"
    proof (cases "t = []")
      case True
      with lt r have "l = w" and "dropCR w = w" by auto
      with True show ?thesis by (simp add: dropCR_def)
    next
      case False
      then show ?thesis by (metis dropCR_append lt(1))
    qed
    ultimately show ?thesis by (subst read_rest.simps) simp
  qed
qed

lemma read_full_rest: "read_full s = read_rest [] True s"
  by (subst read_rest.simps) (simp add: read_full_def split: option.split)

lemma read_full_line:
  "CHR 0x0A \<notin> set l \<Longrightarrow> read_full (l @ CHR 0x0A # s) = Some (dropCR l, s)"
  by (simp add: read_full_rest read_rest_line)

text \<open>What follows the last line feed is given out whole, too, unless it fills its buffers
  exactly.\<close>

lemma read_rest_tail:
  assumes "CHR 0x0A \<notin> set t" and "CHR 0x0D \<notin> set t"
  shows "read_rest buf True t =
     (if length t mod defaultBufSize = 0 then None else Some (buf @ t, []))"
  using assms
proof (induction "length t" arbitrary: t buf rule: less_induct)
  case less
  show ?case
  proof (cases "length t < defaultBufSize")
    case True
    then have "CHR 0x0A \<notin> set (take defaultBufSize t)" "length (take defaultBufSize t) \<noteq> defaultBufSize"
      using less.prems by auto
    with True show ?thesis
      by (cases "t = []") (simp_all add: read_rest.simps ReadLine_def)
  next
    case False
    define w where "w = take defaultBufSize t"
    define u where "u = drop defaultBufSize t"
    have w: "length w = defaultBufSize" "CHR 0x0A \<notin> set w" and t: "t = w @ u"
      using False less.prems unfolding w_def u_def by (auto dest: in_set_takeD)
    have "CHR 0x0D \<notin> set w" using less.prems t by simp
    then have w3: "dropCR w = w" unfolding dropCR_def by (metis last_in_set)
    have "length u < length t" using t w(1) by (simp add: defaultBufSize_def)
    with less t have "read_rest (buf @ w) True u =
        (if length u mod defaultBufSize = 0 then None else Some ((buf @ w) @ u, []))"
      by simp
    moreover have "ReadLine t = Some (w, True, u)"
      using ReadLine_chunk [OF w(2,1), of u] t w3 by simp
    ultimately show ?thesis
      using t w(1) by (subst read_rest.simps) simp
  qed
qed

lemma collect_loop_line:
  assumes "CHR 0x0A \<notin> set l"
  shows "collect_loop json_logger (l @ CHR 0x0A # s) = deformat (dropCR l) # collect_loop json_logger s"
  by (subst collect_loop.simps)
     (simp add: read_full_line [OF assms] passes_def json_logger_def Let_def)

lemma collect_loop_lines:
  "\<forall>l\<in>set ls. CHR 0x0A \<notin> set l \<Longrightarrow>
   collect_loop json_logger (concat (map (\<lambda>l. l @ nl) ls) @ s) =
     map (deformat \<circ> dropCR) ls @ collect_loop json_logger s"
  by (induction ls) (simp_all add: nl_def collect_loop_line)

lemma collect_loop_tail:
  assumes "CHR 0x0A \<notin> set t" and "CHR 0x0D \<notin> set t"
  shows "collect_loop json_logger t = (if length t mod defaultBufSize = 0 then [] else [deformat t])"
proof -
  have "read_full [] = None" by (simp add: read_full_def ReadLine_def defaultBufSize_def)
  then have "collect_loop json_logger [] = []" by (simp add: collect_loop.simps)
  with read_rest_tail [OF assms, of "[]"] show ?thesis
    by (subst collect_loop.simps)
       (simp add: read_full_rest passes_def json_logger_def Let_def)
qed

text \<open>
  C26. The collector that \<open>Init\<close> starts, whatever the level asked for, logs every complete
  line of the pipe exactly once and in order, whatever its length: cutting it into
  buffers of 4096 bytes and putting it together again changes nothing, and a carriage
  return before the line feed is dropped even where it ends a buffer. What follows the
  last line feed when the pipe is closed (without a carriage return) is logged as well,
  except when its length is a multiple of the buffer's, when it is lost. The goroutine
  then ends, and panics exactly when the pipe cannot be closed.
\<close>

theorem collect_glogs_lines:
  assumes "\<forall>l\<in>set ls. CHR 0x0A \<notin> set l"
    and "CHR 0x0A \<notin> set t" and "CHR 0x0D \<notin> set t"
  shows "\<exists>lg. fst (logging_Init None lvl) = Some lg \<and>
    collectGlogs lg closeErr (concat (map (\<lambda>l. l @ nl) ls) @ t) =
      (map (deformat \<circ> dropCR) ls @ (if length t mod 4096 = 0 then [] else [deformat t]),
       map_option (WrapErr ''Error closing file: '') closeErr)"
  using collect_loop_tail [OF assms(2,3)]
  by (simp add: logging_Init_def collectGlogs_def collect_loop_lines [OF assms(1)]
      defaultBufSize_def)

text \<open>A line of more than one buffer that ends with a carriage return, then a short rest: both are
  logged.\<close>

theorem collect_glogs_lines_witness:
  "\<exists>lg. fst (logging_Init None ''none'') = Some lg \<and>
    collectGlogs lg None (replicate 5000 CHR ''a'' @ [CHR 0x0D] @ nl @ ''bc'') =
      ([deformat (replicate 5000 CHR ''a''), deformat ''bc''], None)"
  using collect_glogs_lines [of "[replicate 5000 CHR ''a'' @ [CHR 0x0D]]" "''bc''" "''none''" None]
  by (simp add: dropCR_def butlast_append)

end
