(* ===== verification/Klog.thy ===== *)
theory Klog
  imports Collector
begin

text \<open>
  The part of the vendored klog (\<open>vendor/k8s.io/klog/klog.go\<close>) that meets
  \<open>internal/logging\<close>: the header of a line, the files a line is written to, and what
  \<open>SetOutput\<close> changes. With it, what the program's collector logs is compared with what was
  printed.
\<close>

section \<open>Printing a line\<close>

datatype klog_severity = infoLog | warningLog | errorLog | fatalLog

definition severityChar :: "klog_severity \<Rightarrow> char" where
  "severityChar s = (case s of infoLog \<Rightarrow> CHR ''I'' | warningLog \<Rightarrow> CHR ''W''
     | errorLog \<Rightarrow> CHR ''E'' | fatalLog \<Rightarrow> CHR ''F'')"

text \<open>One call of klog: the clock it reads, the process, the caller and the text.\<close>

record call =
  k_sev :: klog_severity
  k_month :: nat
  k_day :: nat
  k_hour :: nat
  k_minute :: nat
  k_second :: nat
  k_nanosecond :: nat
  k_pid :: nat
  k_file :: string
  k_line :: int
  k_msg :: string

definition twoDigits :: "nat \<Rightarrow> string" where
  "twoDigits d = [digit_char (d div 10 mod 10), digit_char (d mod 10)]"

fun nDigits :: "nat \<Rightarrow> nat \<Rightarrow> char \<Rightarrow> string" where
  "nDigits 0 d pad = []"
| "nDigits (Suc n) d pad = nDigits n (d div 10) pad @ [if 0 < d then digit_char (d mod 10) else pad]"

definition someDigits :: "nat \<Rightarrow> string" where
  "someDigits d = show_nat d"

definition formatHeader :: "call \<Rightarrow> string" where
  "formatHeader c =
     severityChar (k_sev c) # twoDigits (k_month c) @ twoDigits (k_day c) @ '' '' @
     twoDigits (k_hour c) @ '':'' @ twoDigits (k_minute c) @ '':'' @ twoDigits (k_second c) @ ''.'' @
     nDigits 6 (k_nanosecond c div 1000) (CHR ''0'') @ '' '' @ nDigits 7 (k_pid c) (CHR '' '') @ '' '' @
     k_file c @ '':'' @ someDigits (nat (k_line c)) @ ''] ''"

definition klog_print :: "call \<Rightarrow> string" where
  "klog_print c =
     (let buf = formatHeader c @ k_msg c
      in if last buf = CHR 0x0A then buf else buf @ nl)"

section \<open>Writing it\<close>

text \<open>The state of klog that decides where a line goes: the flag \<open>logtostderr\<close>, and whether
  the files of the four severities were replaced by the writer of \<open>SetOutput\<close>. A
  line of a severity is also written to the files of the lower ones, which are then the
  same writer. The counts are the copies of the line written to standard error and to
  that writer; without \<open>SetOutput\<close> the files are on disk.\<close>

record klog_state =
  toStderr :: bool
  redirected :: bool

definition klog_init :: klog_state where
  "klog_init = \<lparr>toStderr = True, redirected = False\<rparr>"

definition SetOutput :: "klog_state \<Rightarrow> klog_state" where
  "SetOutput st = st\<lparr>redirected := True\<rparr>"

definition copies :: "klog_severity \<Rightarrow> nat" where
  "copies s = (case s of infoLog \<Rightarrow> 1 | warningLog \<Rightarrow> 2 | errorLog \<Rightarrow> 3 | fatalLog \<Rightarrow> 4)"

definition klog_output :: "klog_state \<Rightarrow> call \<Rightarrow> nat \<times> nat" where
  "klog_output st c =
     (if toStderr st then (1, 0)
      else (if k_sev c \<in> {errorLog, fatalLog} then 1 else 0,
            if redirected st then copies (k_sev c) else 0))"

text \<open>The bytes in the pipe after the calls, and klog as \<open>Init\<close> of \<open>internal/logging\<close> leaves
  it: the flags are registered with a set of their own that nothing parses.\<close>

definition pipe_bytes :: "klog_state \<Rightarrow> call list \<Rightarrow> string" where
  "pipe_bytes st cs = concat (map (\<lambda>c. concat (replicate (snd (klog_output st c)) (klog_print c))) cs)"

definition Init_klog :: "klog_state \<Rightarrow> klog_state" where
  "Init_klog st = SetOutput st"

section \<open>Facts about the digits\<close>

lemma length_nDigits [simp]: "length (nDigits n d pad) = n"
  by (induction n arbitrary: d) simp_all

lemma nDigits_zero: "nDigits n 0 pad = replicate n pad"
  by (induction n) (simp_all flip: replicate_append_same)

lemma nDigits_padded:
  "0 < d \<Longrightarrow> 0 < n \<Longrightarrow> \<exists>k ds. nDigits n d pad = replicate k pad @ ds \<and> ds \<noteq> [] \<and> set ds \<subseteq> set digits"
proof (induction n arbitrary: d)
  case (Suc n)
  show ?case
  proof (cases "0 < d div 10 \<and> 0 < n")
    case True
    then obtain k ds where
      "nDigits n (d div 10) pad = replicate k pad @ ds" "ds \<noteq> []" "set ds \<subseteq> set digits"
      using Suc.IH [of "d div 10"] by auto
    with Suc.prems show ?thesis
      by (intro exI [of _ k] exI [of _ "ds @ [digit_char (d mod 10)]"]) simp
  next
    case False
    then have "nDigits n (d div 10) pad = replicate n pad" by (auto simp: nDigits_zero)
    with Suc.prems show ?thesis
      by (intro exI [of _ n] exI [of _ "[digit_char (d mod 10)]"]) simp
  qed
qed simp

lemma digit_zero: "CHR ''0'' = digit_char 0"
  by (simp add: digit_char_def digits_def)

lemma nDigits_digits: "set (nDigits n d (CHR ''0'')) \<subseteq> set digits"
  by (induction n arbitrary: d) (auto simp: digit_zero)

lemma read_nDigits: "read_digits 0 (nDigits n d (CHR ''0'')) = Some (d mod 10 ^ n)"
proof (induction n arbitrary: d)
  case (Suc n)
  have "read_digits m [if 0 < d then digit_char (d mod 10) else CHR ''0''] = Some (10 * m + d mod 10)" for m
    by (auto simp: digit_zero)
  with Suc [of "d div 10"] show ?case
    by (simp add: read_digits_append mod_mult2_eq)
qed simp

lemma Atoi_digits:
  assumes "set s \<subseteq> set digits" and "s \<noteq> []" and "read_digits 0 s = Some n" and "in_int64 (int n)"
  shows "Atoi s = Inr (int n)"
proof -
  have "hd s \<in> set digits" using assms(1,2) by (meson hd_in_set subsetD)
  then have "hd s \<noteq> CHR ''-''" "hd s \<noteq> CHR ''+''" by (auto simp: digits_def)
  with assms(2-4) show ?thesis by (simp add: Atoi_def read_unsigned_def)
qed

lemma in_int64_small: "d < 1000000 \<Longrightarrow> in_int64 (int d)"
  by (simp add: in_int64_def int64_min_def int64_max_def)

lemma Atoi_twoDigits: "d < 100 \<Longrightarrow> Atoi (twoDigits d) = Inr (int d)"
  by (rule Atoi_digits) (auto simp: twoDigits_def in_int64_small)

lemma Atoi_micros: "d < 1000000 \<Longrightarrow> Atoi (nDigits 6 d (CHR ''0'')) = Inr (int d)"
  by (rule Atoi_digits [OF nDigits_digits])
     (auto simp: read_nDigits in_int64_small simp flip: length_0_conv simp del: nDigits.simps)

section \<open>The expression on a printed line\<close>

lemma blank_not_digit: "is_blank c \<Longrightarrow> \<not> is_digit c"
  by (auto simp: is_blank_def is_digit_def digits_def)

lemma not_digit: "\<not> is_digit (CHR '' '')" "\<not> is_digit (CHR '']'')"
  by (simp_all add: is_digit_def digits_def)

text \<open>A repetition of at least one that takes a whole run.\<close>

lemma rmatch_run:
  assumes "x \<noteq> []" and "\<And>c. c \<in> set x \<Longrightarrow> p c" and "\<not> p c"
    and "rmatch re (prev_char prev x) (c # s) = Some ps"
  shows "rmatch (Many 1 p # re) prev (x @ c # s) = Some (x # ps)"
  using assms by (intro rmatch_Many_longest) (simp_all add: Suc_le_eq)

lemma rmatch_caller:
  assumes f: "f \<noteq> []" "CHR '':'' \<notin> set f" and ln: "ln \<noteq> []" "set ln \<subseteq> set digits"
    and msg: "CHR 0x0A \<notin> set msg"
  shows "rmatch ([Many 1 (\<lambda>c. c \<noteq> CHR '':'')] @ lit '':'' @ [Many 1 is_digit] @ lit ''] '' @
      [Many 0 dot, Eol]) p (f @ '':'' @ ln @ ''] '' @ msg) =
    Some [f, '':'', ln, '']'', '' '', msg, []]"
proof -
  have ln_digit: "is_digit c" if "c \<in> set ln" for c using that ln(2) by (auto simp: is_digit_def)
  have f_colon: "c \<noteq> CHR '':''" if "c \<in> set f" for c using that f(2) by auto
  have "\<forall>c\<in>set msg. dot c" using msg by (auto simp: dot_def)
  then have "rmatch [Many 0 dot, Eol] p (msg @ []) = Some [msg, []]" for p
    by (rule rmatch_Many_longest) simp_all
  then have 1: "rmatch (lit ''] '' @ [Many 0 dot, Eol]) p (CHR '']'' # '' '' @ msg) =
      Some ['']'', '' '', msg, []]" for p
    by (simp add: lit_def)
  have "rmatch (Many 1 is_digit # lit ''] '' @ [Many 0 dot, Eol]) p (ln @ CHR '']'' # '' '' @ msg) =
      Some [ln, '']'', '' '', msg, []]" for p
    by (rule rmatch_run [OF ln(1) ln_digit]) (assumption | rule not_digit 1)+
  then have 2: "rmatch (lit '':'' @ Many 1 is_digit # lit ''] '' @ [Many 0 dot, Eol]) p
      (CHR '':'' # ln @ CHR '']'' # '' '' @ msg) = Some ['':'', ln, '']'', '' '', msg, []]" for p
    by (simp add: lit_def)
  have "rmatch (Many 1 (\<lambda>c. c \<noteq> CHR '':'') # lit '':'' @ Many 1 is_digit # lit ''] '' @
      [Many 0 dot, Eol]) p (f @ CHR '':'' # ln @ CHR '']'' # '' '' @ msg) =
      Some [f, '':'', ln, '']'', '' '', msg, []]"
    by (rule rmatch_run [OF f(1) f_colon]) (assumption | rule 2 | simp)+
  then show ?thesis by simp
qed

lemma rmatch_pid:
  assumes ws: "ws \<noteq> []" "\<forall>c\<in>set ws. is_blank c" and ds: "ds \<noteq> []" "set ds \<subseteq> set digits"
    and re: "\<And>p. rmatch re p s = Some ps"
  shows "rmatch ([Many 1 is_blank, Many 1 is_digit] @ lit '' '' @ re) p (ws @ ds @ '' '' @ s) =
    Some (ws # ds # '' '' # ps)"
proof -
  have ds_digit: "is_digit c" if "c \<in> set ds" for c using that ds(2) by (auto simp: is_digit_def)
  have ws_blank: "is_blank c" if "c \<in> set ws" for c using that ws(2) by blast
  have 1: "rmatch (lit '' '' @ re) p (CHR '' '' # s) = Some ('' '' # ps)" for p
    using re by (simp add: lit_def)
  have 2: "rmatch (Many 1 is_digit # lit '' '' @ re) p (ds @ CHR '' '' # s) = Some (ds # '' '' # ps)" for p
    by (rule rmatch_run [OF ds(1) ds_digit]) (assumption | rule not_digit 1)+
  obtain d ds' where d: "ds = d # ds'" using ds(1) by (cases ds) simp_all
  have nb: "\<not> is_blank d" using ds(2) d blank_not_digit by (auto simp: is_digit_def)
  have "rmatch (Many 1 is_blank # Many 1 is_digit # lit '' '' @ re) p (ws @ d # ds' @ CHR '' '' # s) =
      Some (ws # ds # '' '' # ps)"
    by (rule rmatch_run [OF ws(1) ws_blank]) (assumption | rule nb | use 2 d in simp)+
  then show ?thesis using d by simp
qed

lemma rmatch_logPrefix:
  assumes ms: "\<forall>c\<in>set ms. is_digit c" "length ms = 2" and ds: "\<forall>c\<in>set ds. is_digit c" "length ds = 2"
    and hs: "\<forall>c\<in>set hs. is_digit c" "length hs = 2" and mi: "\<forall>c\<in>set mi. is_digit c" "length mi = 2"
    and ss: "\<forall>c\<in>set ss. is_digit c" "length ss = 2" and us: "\<forall>c\<in>set us. is_digit c" "length us = 6"
    and c: "c \<noteq> CHR 0x0A"
    and rest: "\<And>p. rmatch ([Many 1 is_blank, Many 1 is_digit] @ lit '' '' @
      [Many 1 (\<lambda>c. c \<noteq> CHR '':'')] @ lit '':'' @ [Many 1 is_digit] @ lit ''] '' @ [Many 0 dot, Eol]) p s =
      Some ps"
  shows "\<exists>qs. rmatch logPrefix None
      (c # ms @ ds @ '' '' @ hs @ '':'' @ mi @ '':'' @ ss @ ''.'' @ us @ s) = Some qs \<and>
    submatch qs 1 1 = [c] \<and> submatch qs 2 2 = ms \<and> submatch qs 4 2 = ds \<and> submatch qs 7 2 = hs \<and>
    submatch qs 10 2 = mi \<and> submatch qs 13 2 = ss \<and> submatch qs 16 6 = us \<and> drop 22 qs = ps"
proof -
  have two: "length xs = 2 \<Longrightarrow> \<exists>a b. xs = [a, b]" for xs :: string
    by (auto simp: numeral_2_eq_2 length_Suc_conv)
  obtain m1 m2 d1 d2 h1 h2 i1 i2 s1 s2 where e: "ms = [m1, m2]" "ds = [d1, d2]" "hs = [h1, h2]"
    "mi = [i1, i2]" "ss = [s1, s2]"
    using two ms(2) ds(2) hs(2) mi(2) ss(2) by metis
  obtain u1 u2 u3 u4 u5 u6 where u: "us = [u1, u2, u3, u4, u5, u6]"
    using us(2) by (auto simp: numeral_eq_Suc length_Suc_conv)
  have da: "digit_atoms 2 = [One is_digit, One is_digit]" "digit_atoms 6 = [One is_digit, One is_digit,
    One is_digit, One is_digit, One is_digit, One is_digit]"
    by (simp_all add: digit_atoms_def numeral_eq_Suc)
  have d: "dot c" "dot (CHR ''.'')" using c by (simp_all add: dot_def)
  have "rmatch logPrefix None (c # ms @ ds @ '' '' @ hs @ '':'' @ mi @ '':'' @ ss @ ''.'' @ us @ s) =
      Some ([[], [c], [m1], [m2], [d1], [d2], '' '', [h1], [h2], '':'', [i1], [i2], '':'', [s1], [s2], ''.'',
        [u1], [u2], [u3], [u4], [u5], [u6]] @ ps)"
    unfolding logPrefix_def da e u
    using ms(1) ds(1) hs(1) mi(1) ss(1) us(1) d rest
    by (simp add: e u lit_def)
  then show ?thesis by (simp add: e u submatch_def numeral_eq_Suc)
qed

section \<open>What comes out\<close>

text \<open>The fields of a call that the clock, the runtime and klog's callers guarantee, and a text
  of one line.\<close>

definition call_ok :: "call \<Rightarrow> bool" where
  "call_ok c \<longleftrightarrow> k_month c \<in> {1..12} \<and> k_day c \<in> {1..31} \<and> k_hour c < 24 \<and> k_minute c < 60 \<and>
     k_second c < 60 \<and> k_nanosecond c < 1000000000 \<and> 0 < k_pid c \<and>
     k_file c \<noteq> [] \<and> CHR '':'' \<notin> set (k_file c) \<and> CHR 0x0A \<notin> set (k_file c) \<and>
     CHR 0x0A \<notin> set (k_msg c)"

definition level_of :: "klog_severity \<Rightarrow> severity" where
  "level_of s = (case s of infoLog \<Rightarrow> Info | warningLog \<Rightarrow> Warn | _ \<Rightarrow> Error)"

text \<open>What a call means as a record of the collector's logger.\<close>

definition entry_of :: "call \<Rightarrow> entry" where
  "entry_of c = \<lparr>e_level = level_of (k_sev c),
     e_ts = InYear (int (k_month c)) (int (k_day c)) (int (k_hour c)) (int (k_minute c))
       (int (k_second c)) (int (k_nanosecond c div 1000) * 1000),
     e_caller = k_file c @ '':'' @ show_nat (nat (k_line c)), e_msg = dropCR (k_msg c)\<rparr>"

lemma twoDigits_ok: "\<forall>c\<in>set (twoDigits d). is_digit c" "length (twoDigits d) = 2"
  by (auto simp: twoDigits_def is_digit_def)

lemma micros_ok: "\<forall>c\<in>set (nDigits 6 d (CHR ''0'')). is_digit c"
  using nDigits_digits [of 6 d] by (auto simp: is_digit_def)

lemma formatHeader_rest:
  assumes "call_ok c" and "CHR 0x0A \<notin> set m"
  shows "\<exists>ws ds. \<forall>p. rmatch ([Many 1 is_blank, Many 1 is_digit] @ lit '' '' @
      [Many 1 (\<lambda>c. c \<noteq> CHR '':'')] @ lit '':'' @ [Many 1 is_digit] @ lit ''] '' @ [Many 0 dot, Eol]) p
      ('' '' @ nDigits 7 (k_pid c) (CHR '' '') @ '' '' @ k_file c @ '':'' @ someDigits (nat (k_line c)) @
       ''] '' @ m) =
    Some ([ws, ds, '' ''] @ [k_file c, '':'', show_nat (nat (k_line c)), '']'', '' '', m, []])"
proof -
  obtain k ds where kd: "nDigits 7 (k_pid c) (CHR '' '') = replicate k (CHR '' '') @ ds" "ds \<noteq> []"
    "set ds \<subseteq> set digits"
    using nDigits_padded [of "k_pid c" 7 "CHR '' ''"] assms(1) by (auto simp: call_ok_def)
  have "k_file c \<noteq> []" "CHR '':'' \<notin> set (k_file c)" using assms(1) by (simp_all add: call_ok_def)
  note caller = rmatch_caller [OF this show_nat_not_Nil show_nat_digits assms(2)]
  have "\<forall>x\<in>set (replicate (Suc k) (CHR '' '')). is_blank x" by (auto simp: is_blank_def)
  from rmatch_pid [OF _ this kd(2,3) caller] show ?thesis
    unfolding kd(1) someDigits_def by (intro exI allI) simp
qed

lemma deformat_line:
  assumes "call_ok c" and "CHR 0x0A \<notin> set m"
  shows "deformat (formatHeader c @ m) = (entry_of c)\<lparr>e_msg := m\<rparr>"
proof -
  obtain ws ds where rest: "\<And>p. rmatch ([Many 1 is_blank, Many 1 is_digit] @ lit '' '' @
      [Many 1 (\<lambda>c. c \<noteq> CHR '':'')] @ lit '':'' @ [Many 1 is_digit] @ lit ''] '' @ [Many 0 dot, Eol]) p
      ('' '' @ nDigits 7 (k_pid c) (CHR '' '') @ '' '' @ k_file c @ '':'' @ someDigits (nat (k_line c)) @
       ''] '' @ m) =
    Some ([ws, ds, '' ''] @ [k_file c, '':'', show_nat (nat (k_line c)), '']'', '' '', m, []])"
    using formatHeader_rest [OF assms] by blast
  have sev: "severityChar (k_sev c) \<noteq> CHR 0x0A" by (simp add: severityChar_def split: klog_severity.split)
  obtain qs where q: "rmatch logPrefix None (formatHeader c @ m) = Some qs"
    and g: "submatch qs 1 1 = [severityChar (k_sev c)]" "submatch qs 2 2 = twoDigits (k_month c)"
      "submatch qs 4 2 = twoDigits (k_day c)" "submatch qs 7 2 = twoDigits (k_hour c)"
      "submatch qs 10 2 = twoDigits (k_minute c)" "submatch qs 13 2 = twoDigits (k_second c)"
      "submatch qs 16 6 = nDigits 6 (k_nanosecond c div 1000) (CHR ''0'')"
    and tl: "drop 22 qs = [ws, ds, '' ''] @ [k_file c, '':'', show_nat (nat (k_line c)), '']'', '' '', m, []]"
    using rmatch_logPrefix [OF twoDigits_ok [of "k_month c"] twoDigits_ok [of "k_day c"]
        twoDigits_ok [of "k_hour c"] twoDigits_ok [of "k_minute c"] twoDigits_ok [of "k_second c"]
        micros_ok [of "k_nanosecond c div 1000"] length_nDigits sev rest]
    unfolding formatHeader_def by (auto simp del: nDigits.simps)
  have "drop 25 qs = drop 3 (drop 22 qs)" "drop 30 qs = drop 8 (drop 22 qs)" by simp_all
  then have cm: "submatch qs 25 3 = k_file c @ '':'' @ show_nat (nat (k_line c))" "submatch qs 30 1 = m"
    unfolding submatch_def tl by simp_all
  have long: "\<not> length (formatHeader c @ m) < 30"
    by (simp add: formatHeader_def twoDigits_def del: nDigits.simps)
  have "k_month c < 100 \<and> k_day c < 100 \<and> k_hour c < 100 \<and> k_minute c < 100 \<and> k_second c < 100 \<and>
      k_nanosecond c div 1000 < 1000000"
    using assms(1) by (auto simp: call_ok_def)
  then show ?thesis
    using long
    by (simp add: deformat_def rfind_here [OF q] g cm Atoi_twoDigits Atoi_micros entry_of_def level_of_def
        severityChar_def Let_def del: nDigits.simps One_nat_def split: klog_severity.split)
qed

lemma formatHeader_no_nl:
  assumes "call_ok c" shows "CHR 0x0A \<notin> set (formatHeader c)"
proof -
  have "CHR 0x0A \<notin> set digits" by (simp add: digits_def)
  moreover have "set (nDigits 7 d (CHR '' '')) \<subseteq> insert (CHR '' '') (set digits)" for d
    using nDigits_padded [of d 7 "CHR '' ''"] by (cases "d = 0") (auto simp: nDigits_zero simp del: nDigits.simps)
  ultimately show ?thesis
    using assms nDigits_digits [of 6 "k_nanosecond c div 1000"] show_nat_digits [of "nat (k_line c)"]
    by (auto simp: formatHeader_def call_ok_def severityChar_def twoDigits_def someDigits_def
        split: klog_severity.splits simp del: nDigits.simps)
qed

lemma klog_print_line: "call_ok c \<Longrightarrow> klog_print c = (formatHeader c @ k_msg c) @ nl"
  using formatHeader_no_nl [of c] last_in_set [of "formatHeader c @ k_msg c"]
  by (auto simp: klog_print_def call_ok_def formatHeader_def Let_def simp del: nDigits.simps)

lemma dropCR_line: "dropCR (formatHeader c @ m) = formatHeader c @ dropCR m"
proof (cases "m = []")
  case True
  have "formatHeader c = butlast (formatHeader c) @ '' ''"
    by (simp add: formatHeader_def butlast_append del: nDigits.simps)
  then have "last (formatHeader c) = CHR '' ''" by (metis last_snoc)
  with True show ?thesis by (simp add: dropCR_def)
qed (simp add: dropCR_append)

lemma deformat_print:
  assumes "call_ok c" shows "deformat (dropCR (formatHeader c @ k_msg c)) = entry_of c"
proof -
  have "CHR 0x0A \<notin> set (dropCR (k_msg c))"
    using assms by (auto simp: call_ok_def dropCR_def dest: in_set_butlastD)
  from deformat_line [OF assms this] show ?thesis
    unfolding dropCR_line by (simp add: entry_of_def)
qed

text \<open>
  C18. What klog prints is what the collector logs. After \<open>Init\<close> has pointed klog at the
  pipe, with \<open>logtostderr\<close> off, each one-line call that does not end the program comes
  out of the collector with the severity, the date and time to the microsecond, the
  caller and the text it was made with (less a final carriage return), whatever the level
  given to \<open>Init\<close>, in the order of the calls: once for an information, twice for a
  warning and three times for an error, since klog writes a line to the file of its
  severity and of every lower one and \<open>SetOutput\<close> makes them all the pipe. With
  \<open>logtostderr\<close> on, which is its initial value and one that \<open>Init\<close> does not change,
  nothing at all reaches the collector.
\<close>

theorem klog_collected:
  assumes "\<forall>c\<in>set cs. call_ok c \<and> k_sev c \<noteq> fatalLog" and "fst (logging_Init None lvl) = Some lg"
  shows "collectGlogs lg None (pipe_bytes (Init_klog st) cs) =
    (concat (map (\<lambda>c. replicate (if toStderr st then 0 else copies (k_sev c)) (entry_of c)) cs), None)
    \<and> toStderr klog_init"
proof -
  define n where "n c = (if toStderr st then 0 else copies (k_sev c))" for c :: call
  define ls where "ls = concat (map (\<lambda>c. replicate (n c) (formatHeader c @ k_msg c)) cs)"
  have "snd (klog_output (Init_klog st) c) = n c" for c
    by (simp add: klog_output_def Init_klog_def SetOutput_def n_def)
  then have "pipe_bytes (Init_klog st) cs = concat (map (\<lambda>l. l @ nl) ls) @ []"
    using assms(1) unfolding ls_def pipe_bytes_def
    by (induction cs) (simp_all add: klog_print_line)
  moreover have "\<forall>l\<in>set ls. CHR 0x0A \<notin> set l"
    using assms(1) formatHeader_no_nl by (auto simp: ls_def call_ok_def)
  moreover have "map (deformat \<circ> dropCR) ls = concat (map (\<lambda>c. replicate (n c) (entry_of c)) cs)"
    using assms(1) unfolding ls_def by (induction cs) (simp_all add: deformat_print)
  ultimately show ?thesis
    using assms(2) collect_loop_lines [of ls "[]"] collect_loop_tail [of "[]"]
    by (simp add: logging_Init_def collectGlogs_def n_def klog_init_def)
qed

text \<open>An error and an information, with \<open>logtostderr\<close> off.\<close>

definition call1 :: call where
  "call1 = \<lparr>k_sev = errorLog, k_month = 7, k_day = 4, k_hour = 9, k_minute = 5, k_second = 59,
     k_nanosecond = 1234567, k_pid = 42, k_file = ''a.go'', k_line = 7, k_msg = ''no: [x] y''\<rparr>"

theorem klog_collected_witness:
  "collectGlogs json_logger None
     (pipe_bytes (Init_klog (klog_init\<lparr>toStderr := False\<rparr>)) [call1, call1\<lparr>k_sev := infoLog\<rparr>]) =
   (replicate 3 (entry_of call1) @ [entry_of (call1\<lparr>k_sev := infoLog\<rparr>)], None)"
proof -
  have "\<forall>c\<in>set [call1, call1\<lparr>k_sev := infoLog\<rparr>]. call_ok c \<and> k_sev c \<noteq> fatalLog"
    by (simp add: call1_def call_ok_def)
  moreover have "fst (logging_Init None ''all'') = Some json_logger" by (simp add: logging_Init_def)
  ultimately show ?thesis
    using klog_collected [of "[call1, call1\<lparr>k_sev := infoLog\<rparr>]" "''all''" json_logger
        "klog_init\<lparr>toStderr := False\<rparr>"]
    by (simp add: copies_def call1_def)
qed

end
