(* ===== verification/Spec2Isabelle.thy ===== *)
theory Spec2Isabelle
  imports NodeEnd Metrics LinkEvents Resources Cluster TestUtils DeepCopy Klog
begin

text \<open>
  \<^bold>\<open>A verification development for the EAPOL operator.\<close>

  \<^bold>\<open>The program.\<close> The repository holds two programs. The \<^emph>\<open>operator\<close>
  (\<open>main.go\<close>, \<open>controllers/\<close>) watches \<open>Authenticator\<close> objects and keeps, for each, a
  ConfigMap with a \<open>hostapd.conf\<close>, three RBAC objects and a DaemonSet
  (\<open>pkg/configgen\<close>). The DaemonSet's pods run hostapd and, beside it, the
  \<^emph>\<open>monitor\<close> (\<open>monitor/main.go\<close>), which attaches to hostapd's control socket
  (\<open>pkg/hostap\<close>), listens to the kernel's link events (\<open>pkg/netlink\<close>), and opens or
  closes the ports: per client address by \<open>tc\<close> filters
  (\<open>internal/trafficcontrol/tc.go\<close>) and per SR-IOV virtual function by VLAN and link
  state (\<open>internal/trafficcontrol/sriov.go\<close>). The two meet in the generated pod: the
  environment variables and files that \<open>Daemonset\<close> writes are what the monitor parses at
  its start, and the status of the \<open>Authenticator\<close> is what the monitor publishes.

  \<^bold>\<open>The environment.\<close> What the program calls and does not contain (netlink, the
  \<open>tc\<close> binary, the file system, hostapd, the Kubernetes API server, the clock, and the
  order in which Go iterates over a map) is an argument of the definitions: a record
  \<open>env\<close> (theory \<open>Host\<close>) or \<open>kenv\<close> (theory \<open>Controller\<close>) of functions that take the
  history of all calls made so far, newest first, and give the answer. The program
  threads the history, so a call's answer may depend on everything before it, and
  theorems about effects are theorems about the history: \<open>runs\<close> reads off the filter
  commands, \<open>vf_vlan\<close> and \<open>vf_state\<close> the last settings of a VF, \<open>mac_verdict\<close> the
  verdict of the filter last installed for an address, \<open>cm_view\<close>, \<open>ds_view\<close> and
  \<open>rbac_view\<close> what the API server last confirmed. What a theorem needs of the environment
  is a named hypothesis of it (\<open>names_ok\<close>, \<open>blank_free\<close>, \<open>stable\<close>, \<open>attaches\<close>,
  \<open>server_ok\<close>, \<open>api_ok\<close>), and its witness instantiates the environment.

  \<^bold>\<open>The theories.\<close>
  \<^item> \<open>Prelude\<close>: errors and results, 64-bit wrap-around, Go maps as duplicate-free
    association lists with the contract \<open>go_map\<close>, permutations for map iteration, and
    labelled transition systems with the contracts \<open>invariant_system\<close>,
    \<open>simulated_system\<close>, \<open>progress_system\<close> (some schedule ends) and \<open>bounded_system\<close>
    (every schedule ends).
  \<^item> \<open>GoStrings\<close>: the functions of Go's \<open>strings\<close>, \<open>strconv\<close> and \<open>path/filepath\<close> that
    the sources use. \<open>Regexp\<close>: the part of \<open>regexp\<close> they use.
  \<^item> \<open>Api\<close>: the types of \<open>api/v1/authenticator_types.go\<close>.
  \<^item> \<open>Host\<close>: the environment of the monitor, the history and its readings.
  \<^item> \<open>Sriov\<close>, \<open>TrafficControl\<close>: \<open>internal/trafficcontrol\<close>. Setting the VFs, following
    VLAN changes, admitting and expelling an address, initialising and resetting an
    interface; the contract \<open>mac_policy\<close> says what admitting and expelling promise, and
    its clients' lemma that the filters enforce the client set is proved from it.
  \<^item> \<open>Monitor\<close>, \<open>MonitorEvents\<close>: \<open>pkg/hostap/monitor.go\<close> and \<open>stats.go\<close>, one
    definition per function, and the behaviour of each handler.
  \<^item> \<open>MonitorSystem\<close>: the goroutines of one interface monitor as a labelled step relation
    whose steps are the critical sections of the code; the invariant, the refinement of an
    abstract port (a set of clients and a set of pending requests), and enforcement.
    \<open>MonitorStop\<close>: from every reachable state the monitor can be stopped, once
    \<open>StopMonitor\<close> waits every schedule ends, the VFs are open afterwards if nobody is about
    to leave, and a schedule in which they are not.
    \<open>Metrics\<close>: \<open>internal/metrics\<close> and \<open>pkg/hostap/stats.go\<close>, the names of the metrics and
    what their values count along a run.
  \<^item> \<open>Node\<close>, \<open>NodeEnd\<close>: the monitors of all interfaces in one process, as one step relation
    over the relations of the monitors and the steps of \<open>main\<close> in \<open>monitor/main.go\<close>, which
    starts them, waits for a signal, stops them and resets the interfaces. They share the
    history of calls; the monitors do not disturb each other's enforcement, and the program
    can always end and leaves nothing behind.
  \<^item> \<open>LinkEvents\<close>: \<open>pkg/netlink/eventhandle.go\<close>, the subscription table and the delivery
    of updates as a step relation with channels, receivers and the stopping thread, from the
    netlink subscription to \<open>StopHandler\<close>.
  \<^item> \<open>ConfigGen\<close>: \<open>pkg/configgen/configgen.go\<close> and \<open>hostapd.conf.tmpl\<close>.
  \<^item> \<open>DeepCopy\<close>: \<open>api/v1/zz_generated.deepcopy.go\<close> on a heap of cells with pointers; the
    contract \<open>copier\<close> (the copy means the same and shares nothing) is proved for each type
    from those of its fields, and the generator's write into the node selector of its
    object is shown harmless on a copy.
  \<^item> \<open>Labels\<close>, \<open>Kube\<close>: \<open>internal/k8s/k8s.go\<close>, finding the pod's \<open>Authenticator\<close> and
    making the clients; \<open>Kube\<close> also has \<open>api/v1/groupversion_info.go\<close>, the registration of
    the types with a scheme, with the contract \<open>registrar\<close>.
  \<^item> \<open>Logging\<close>: the levels and loggers of \<open>internal/logging/logging.go\<close> with the filter of
    go-kit. \<open>Collector\<close>: the goroutine that turns the lines in the klog pipe into records.
    \<open>Klog\<close>: what the vendored klog writes into it, and that it comes out again.
  \<^item> \<open>MonitorMain\<close>: \<open>monitor/main.go\<close>, its start, its end, the routes of its metrics
    endpoint, and the passage of the operator's settings to the monitor.
  \<^item> \<open>Controller\<close>: \<open>controllers/authenticator_controller.go\<close> with the parts of
    controller-runtime that decide ownership.
  \<^item> \<open>Resources\<close>: \<open>controllers/authenticator_resources.go\<close>, \<open>SetupWithManager\<close> and
    \<open>main.go\<close>: the RBAC templates are loaded from manifest files, and the operator is a
    sequence of reconciliations that starts from them.
  \<^item> \<open>Cluster\<close>: an API server that stores what it accepts, and the reconciler on it as the
    implementation of an abstract operation on the store.
  \<^item> \<open>TestUtils\<close>: \<open>internal/testutils/authenticator_utils.go\<close>, the fixtures and matchers of
    the unit tests, and what the matchers say of the generated objects.
  \<^item> This theory: from a reconciled \<open>Authenticator\<close> over the pod to its monitors.

  \<^bold>\<open>What is shown.\<close> Security: in every state that any interleaving of a monitor's
  goroutines reaches, an address is accepted exactly when it is an authenticated client
  and the VFs are open exactly when there is one, as long as no filter command or VF
  setting failed; the client set follows hostapd's messages; at start everything is
  closed, at the end everything is put back, and the end can always be reached; all this also
  for the monitors of a machine together. Function: each handler on every branch, the published status and metrics, the generated configuration as hostapd reads it, the
  generated pod, the loading of the templates, the isolation of deep copies, the
  registration of the API types, the log records, and the reconciler's refinement of an
  operation on the cluster's store, its idempotence, quiescence and error reporting; and, from
  end to end, that the monitors in the pods of a reconciled object serve its interfaces and
  publish to it. Limits: the theorems
  also state where the code does less than it seems to (a failed expulsion is not
  repeated, an update on a closing channel panics, a client that leaves while its monitor is
  being stopped closes the VFs for good, two unprotected ports keep the monitor
  from starting, ownership that is lost or stale, klog lines that never reach the
  collector or reach it several times, a gauge that goes below zero).

  \<^bold>\<open>Loops.\<close> All loops of the sources are over finite lists and are structural, but
  these: \<open>attachHostapd\<close> retries without bound and is a \<open>partial_function (option)\<close> where
  \<open>None\<close> is not returning, with a theorem that says exactly when it returns;
  \<open>RetryOnConflict\<close> is bounded by the retry budget of five steps, its recursion argument;
  the two loops of \<open>collectGlogs\<close> terminate because each read shortens what is left in the
  pipe. The endless loops of the goroutines are the step relations. No fuel is used.

  \<^bold>\<open>What is not modelled.\<close> Libraries the sources only call: controller-runtime's manager
  and watches, the HTTP server and the handlers behind its routes, the YAML decoder, the
  writing of log records and the rendering of their time stamps, conversion and default
  functions of a scheme. They appear as parameters, or as calls of the history. \<open>pkg/tools\<close> has
  blank imports only. Regular expressions and the parsing of log lines
  are on bytes, which for ASCII text is what Go does on runes. Data races on fields that
  the code reads without its lock are outside the step relation, whose steps are atomic
  sections; in particular the restore of the VFs in \<open>StopMonitor\<close>, which takes no lock, is
  one step.
\<close>

section \<open>From an Authenticator to its monitors\<close>

text \<open>The kubelet runs the containers of the DaemonSet's pod template and writes the labels of
  the pod, which are those of the template and perhaps more, into the label file.\<close>

definition pod_runs :: "DaemonSetSpec \<Rightarrow> Container \<Rightarrow> (string \<times> string) list \<Rightarrow> (string \<Rightarrow> string res) \<Rightarrow> bool" where
  "pod_runs spec c labels open_file =
     (c \<in> set (Containers (template_Spec spec)) \<and>
      (\<forall>(k, v)\<in>set labels. label_ok k \<and> label_ok v) \<and> distinct (map fst labels) \<and>
      (\<forall>k. Mapping.lookup (template_Labels spec) k \<noteq> None \<longrightarrow>
         map_of labels k = Mapping.lookup (template_Labels spec) k) \<and>
      open_file labels_path = Inr (label_file labels))"

text \<open>A spec that gets across: names of interfaces without commas and blanks, and at most one
  unprotected port per protocol.\<close>

definition portable :: "AuthenticatorSpec \<Rightarrow> bool" where
  "portable spec =
     ((\<forall>i\<in>set (spec_Interfaces spec). iface_ok i) \<and> spec_Interfaces spec \<notin> {[], [[]]} \<and>
      ports_ok (spec_ports spec) \<and> length (Tcp (spec_ports spec)) \<le> 1 \<and> length (Udp (spec_ports spec)) \<le> 1)"

lemma started_as_asked:
  assumes pod: "pod_runs (ds_Spec (fst (Daemonset g))) c labels open_file"
    and spec: "portable (a_Spec (a11r g))"
    and meta: "om_Namespace (a_Meta (a11r g)) \<noteq> []" "om_Name (a_Meta (a11r g)) \<noteq> []"
    and run: "main_startup H open_file None K (flags_of c) = outcome"
  shows "case outcome of
      Serving ifs ms h \<Rightarrow> ifs = spec_Interfaces (a_Spec (a11r g)) \<and>
        (\<forall>m\<in>set ms. IfName m \<in> set ifs \<and> HasClient m \<and> AuthNsName m = key_of (a_Meta (a11r g)))
    | Exit1 msg \<Rightarrow> msg \<in> {''retrieve client'', ''retrieve event recorder'', ''init interface''}
    | Panicked \<Rightarrow> GetClient K = Panic \<or> EventRecorder K = Panic
    | Hangs \<Rightarrow> \<exists>h. start_monitors H (key_of (a_Meta (a11r g))) (spec_Interfaces (a_Spec (a11r g))) h = None"
proof -
  let ?s = "a_Spec (a11r g)" and ?k = "key_of (a_Meta (a11r g))"
  from pod have c: "c \<in> set (Containers (template_Spec (ds_Spec (fst (Daemonset g)))))"
    and lab: "\<forall>(k, v)\<in>set labels. label_ok k \<and> label_ok v" "distinct (map fst labels)"
    and look: "\<forall>k. Mapping.lookup (template_Labels (ds_Spec (fst (Daemonset g)))) k \<noteq> None \<longrightarrow>
      map_of labels k = Mapping.lookup (template_Labels (ds_Spec (fst (Daemonset g)))) k"
    and fle: "open_file labels_path = Inr (label_file labels)" by (simp_all add: pod_runs_def)
  note fl = container_flags [OF c]
  have key: "GetAuthNamespacedName open_file = Ret (Inr ?k)"
    unfolding key_of_def by (rule GetAuth_file [OF lab pod_labels [OF look] meta]) (rule fle)
  have ifs: "parseStringsArgs (Some (f_interfaces (flags_of c))) = spec_Interfaces ?s"
    using spec parseStrings_Join [of "spec_Interfaces ?s"] by (simp add: fl portable_def)
  have "f_interfaces (flags_of c) \<noteq> []" using ifs spec by (auto simp: parseStringsArgs_def portable_def)
  moreover have "parseIntArgs (Some (f_tcp (flags_of c))) = Inr (Tcp (spec_ports ?s))"
    "parseIntArgs (Some (f_udp (flags_of c))) = Inr (Udp (spec_ports ?s))"
    using spec port_arg [of "Tcp (spec_ports ?s)"] port_arg [of "Udp (spec_ports ?s)"]
    by (simp_all add: fl portable_def ports_ok_def)
  moreover have "\<not> isl (snd (logging_Init None (f_logLevel (flags_of c))))"
    by (simp add: fl logging_Init_def parseLevel_def level_defs)
  ultimately show ?thesis
    using run key ifs start_monitors_config
    by (auto simp: main_startup_def Let_def split: go.splits sum.splits prod.splits option.splits)
qed

text \<open>
  C9. What a user asks for is what is watched. Once \<open>Reconcile\<close> has returned without error for
  an Authenticator with a portable spec, take the DaemonSet spec that the API server last
  confirmed for it and start, on any machine, the monitor program from a container of that
  spec with the pod's environment and label file: if it gets to its main loop, it serves
  exactly the interfaces of the Authenticator's spec, and each of its monitors is one of
  them and publishes to this very Authenticator; it leaves before only because a client or
  the event recorder cannot be made or an interface cannot be initialised, and hangs only
  in the start of a monitor of one of these interfaces.
\<close>

theorem operator_to_monitors:
  assumes "Reconcile E req rs h = (None, rs', h')" and "k_GetAuth E h req = Inr a" and "server_ok E req"
    and "ds_view h' req = Some spec" and "pod_runs spec c labels open_file"
    and "portable (a_Spec a)" and "nn_Namespace req \<noteq> []" and "nn_Name req \<noteq> []"
  shows "case main_startup H open_file None K (flags_of c) of
      Serving ifs ms hh \<Rightarrow> ifs = spec_Interfaces (a_Spec a) \<and>
        (\<forall>m\<in>set ms. IfName m \<in> set ifs \<and> HasClient m \<and> AuthNsName m = req)
    | Exit1 msg \<Rightarrow> msg \<in> {''retrieve client'', ''retrieve event recorder'', ''init interface''}
    | Panicked \<Rightarrow> GetClient K = Panic \<or> EventRecorder K = Panic
    | Hangs \<Rightarrow> \<exists>hh. start_monitors H req (spec_Interfaces (a_Spec a)) hh = None"
proof -
  have key: "key_of (a_Meta a) = req" using assms(2,3) by (auto simp: server_ok_def)
  then have "om_Namespace (a_Meta a) \<noteq> []" "om_Name (a_Meta a) \<noteq> []"
    using assms(7,8) by (auto simp: key_of_def)
  moreover have "spec = ds_Spec (fst (Daemonset (gen_of rs a)))"
    using reconcile_views [OF assms(1-3)] assms(4) by simp
  moreover have gen: "a11r (gen_of rs a) = a" by (simp add: gen_of_def)
  ultimately show ?thesis
    using started_as_asked [of "gen_of rs a" c labels open_file H K, OF _ _ _ _ refl, unfolded gen key]
      assms(5,6) by blast
qed

text \<open>An Authenticator of one interface, and the pod the kubelet makes for it.\<close>

definition auth2 :: Authenticator where
  "auth2 = auth1\<lparr>a_Spec := spec1\<lparr>spec_Interfaces := [''eth0''], spec_TrafficControl := None\<rparr>\<rparr>"

definition server2 :: kenv where
  "server2 = empty_server\<lparr>k_GetAuth := (\<lambda>h k. if k = key_of (a_Meta auth2) then Inr auth2 else Inl NotFound)\<rparr>"

definition labels2 :: "(string \<times> string) list" where
  "labels2 = [(''app'', AppId), (AuthName, ''auth''), (AuthNamespace, ''ns'')]"

lemma pod2:
  "pod_runs (ds_Spec (fst (Daemonset (gen_of rs0 auth2))))
     (hd (Containers (template_Spec (ds_Spec (fst (Daemonset (gen_of rs0 auth2)))))))
     labels2 (\<lambda>p. Inr (label_file labels2))"
  by (auto simp: pod_runs_def labels2_def Daemonset_sel ds_labels_def lookup_update' gen_of_def auth2_def
      auth1_def new_meta_def label_ok_def isSpace_def AppId_def AuthName_def AuthNamespace_def)

lemma start2:
  "\<exists>m hh. main_startup E1 (\<lambda>p. Inr (label_file labels2)) None kube0 (flags_of
       (hd (Containers (template_Spec (ds_Spec (fst (Daemonset (gen_of rs0 auth2)))))))) =
     Serving [''eth0''] [m] hh"
proof -
  let ?c = "hd (Containers (template_Spec (ds_Spec (fst (Daemonset (gen_of rs0 auth2))))))"
  let ?k = "\<lparr>nn_Namespace = ''ns'', nn_Name = ''auth''\<rparr>"
  have "?c \<in> set (Containers (template_Spec (ds_Spec (fst (Daemonset (gen_of rs0 auth2))))))"
    by (simp add: Daemonset_sel)
  note fl = container_flags [OF this]
  have spec: "spec_Interfaces (a_Spec (a11r (gen_of rs0 auth2))) = [''eth0'']"
    "spec_ports (a_Spec (a11r (gen_of rs0 auth2))) = \<lparr>Tcp = [], Udp = []\<rparr>"
    by (simp_all add: gen_of_def auth2_def spec_ports_def)
  have key: "GetAuthNamespacedName (\<lambda>p. Inr (label_file labels2)) = Ret (Inr ?k)"
    by (rule GetAuth_file [of labels2]) (simp_all add: labels2_def label_ok_def isSpace_def AppId_def
        AuthName_def AuthNamespace_def)
  obtain h1 where h1: "initInterfaces E1 [] [] [''eth0''] [] = (None, h1)"
    using calm_init [of "[\<lparr>vf_ID = 0, vf_Vlan = 100\<rparr>]" a0 "[]"] by (metis prod.collapse)
  obtain m hh where "start_monitors E1 ?k [''eth0''] h1 = Some ([m], hh)"
    using calm_start [of "[\<lparr>vf_ID = 0, vf_Vlan = 100\<rparr>]" a0 ?k h1] by auto
  then show ?thesis
    using h1 key kube0_clients
    by (auto simp: main_startup_def fl spec logging_Init_def parseLevel_def level_defs parseIntArgs_def
        parseStringsArgs_def TrimSpace_def isSpace_def del: initInterfaces.simps start_monitors.simps)
qed

theorem operator_to_monitors_witness:
  "\<exists>m hh. main_startup E1 (\<lambda>p. Inr (label_file labels2)) None kube0 (flags_of
       (hd (Containers (template_Spec (ds_Spec (fst (Daemonset (gen_of rs0 auth2)))))))) =
     Serving [''eth0''] [m] hh \<and> AuthNsName m = req1"
proof -
  have key: "key_of (a_Meta auth2) = req1" by (simp add: auth2_def req1_key)
  have get: "k_GetAuth server2 [] req1 = Inr auth2" by (simp add: server2_def key)
  have ok: "server_ok server2 req1" by (simp add: server_ok_def server2_def empty_server_def key)
  obtain rs' h' where run: "Reconcile server2 req1 rs0 [] = (None, rs', h')"
    by (auto simp: Reconcile_unfold server2_def empty_server_def key sync_cm_def createOwned_CM_def
        syncRbac_unfold sync_one_unfold createOwned_Rbac_def sync_ds_def createOwned_DS_def
        Let_def IsNotFound_def split_beta)
  have "portable (a_Spec auth2)"
    by (simp add: portable_def auth2_def iface_ok_def isSpace_def spec_ports_def ports_ok_def)
  moreover have "nn_Namespace req1 \<noteq> []" "nn_Name req1 \<noteq> []" by (simp_all add: req1_def)
  moreover have "ds_view h' req1 = Some (ds_Spec (fst (Daemonset (gen_of rs0 auth2))))"
    using reconcile_views [OF run get ok] by simp
  ultimately show ?thesis
    using operator_to_monitors [OF run get ok _ pod2, where H = E1 and K = kube0] start2 by fastforce
qed

end
